(* ===== verification/Prelude.thy ===== *)
theory Prelude
  imports Main "HOL-Library.Word" "HOL-Library.AList"
begin

text \<open>
  Shared vocabulary of the development: results with the question-mark operator of the
  sources, the 64-bit signed arithmetic they use, byte strings with the standard string
  operations, and hash maps as association lists with distinct keys.

  A Rust \<open>Result\<close> is a sum, the error on the left.  A Rust \<open>String\<close> is the list of its
  UTF-8 bytes, one \<open>char\<close> per byte.  An \<open>i64\<close> is an \<open>int\<close> within \<open>i64_min\<close> and
  \<open>i64_max\<close>; each operation of the sources that can leave that range is written out as the
  wrapping, saturating or checked one that the sources call.
\<close>

named_theorems result_simps
named_theorems i64_simps
named_theorems alist_simps

section \<open>Results\<close>

fun and_then :: "'e + 'a \<Rightarrow> ('a \<Rightarrow> 'e + 'b) \<Rightarrow> 'e + 'b" where
  "and_then (Inl e) f = Inl e"
| "and_then (Inr a) f = f a"

fun ok_or :: "'e \<Rightarrow> 'a option \<Rightarrow> 'e + 'a" where
  "ok_or e None = Inl e"
| "ok_or e (Some a) = Inr a"

fun map_err :: "('e \<Rightarrow> 'f) \<Rightarrow> 'e + 'a \<Rightarrow> 'f + 'a" where
  "map_err f (Inl e) = Inl (f e)"
| "map_err f (Inr a) = Inr a"

fun is_ok :: "'e + 'a \<Rightarrow> bool" where
  "is_ok (Inl e) = False"
| "is_ok (Inr a) = True"

section \<open>Signed 64-bit integers\<close>

definition i64_max :: int where
  "i64_max = 2 ^ 63 - 1"

definition i64_min :: int where
  "i64_min = - (2 ^ 63)"

definition u64_max :: nat where
  "u64_max = 2 ^ 64 - 1"

definition u32_max :: nat where
  "u32_max = 2 ^ 32 - 1"

definition is_i64 :: "int \<Rightarrow> bool" where
  "is_i64 x \<longleftrightarrow> i64_min \<le> x \<and> x \<le> i64_max"

definition wrap_i64 :: "int \<Rightarrow> int" where
  "wrap_i64 x = (x + 2 ^ 63) mod 2 ^ 64 - 2 ^ 63"

definition saturating_add :: "int \<Rightarrow> int \<Rightarrow> int" where
  "saturating_add x y = max i64_min (min i64_max (x + y))"

definition saturating_sub :: "int \<Rightarrow> int \<Rightarrow> int" where
  "saturating_sub x y = max i64_min (min i64_max (x - y))"

definition checked_add :: "int \<Rightarrow> int \<Rightarrow> int option" where
  "checked_add x y = (if is_i64 (x + y) then Some (x + y) else None)"

section \<open>Byte strings\<close>

fun split_on :: "'a \<Rightarrow> 'a list \<Rightarrow> 'a list list" where
  "split_on c [] = [[]]"
| "split_on c (x # xs) =
    (if x = c then [] # split_on c xs
     else (case split_on c xs of [] \<Rightarrow> [[x]] | y # ys \<Rightarrow> (x # y) # ys))"

fun join_with :: "'a \<Rightarrow> 'a list list \<Rightarrow> 'a list" where
  "join_with c [] = []"
| "join_with c [x] = x"
| "join_with c (x # y # ys) = x @ c # join_with c (y # ys)"

fun strip_prefix :: "'a list \<Rightarrow> 'a list \<Rightarrow> 'a list option" where
  "strip_prefix [] xs = Some xs"
| "strip_prefix (p # ps) [] = None"
| "strip_prefix (p # ps) (x # xs) = (if p = x then strip_prefix ps xs else None)"

definition starts_with :: "'a list \<Rightarrow> 'a list \<Rightarrow> bool" where
  "starts_with xs p \<longleftrightarrow> strip_prefix p xs \<noteq> None"

text \<open>
  The UTF-8 encodings of the 25 code points with the Unicode property White_Space, the ones
  \<open>str::trim\<close> removes at both ends.
\<close>

definition white_space_seqs :: "string list" where
  "white_space_seqs =
    [[CHR 0x09], [CHR 0x0A], [CHR 0x0B], [CHR 0x0C], [CHR 0x0D], [CHR 0x20],
     [CHR 0xC2, CHR 0x85], [CHR 0xC2, CHR 0xA0],
     [CHR 0xE1, CHR 0x9A, CHR 0x80],
     [CHR 0xE2, CHR 0x80, CHR 0x80], [CHR 0xE2, CHR 0x80, CHR 0x81],
     [CHR 0xE2, CHR 0x80, CHR 0x82], [CHR 0xE2, CHR 0x80, CHR 0x83],
     [CHR 0xE2, CHR 0x80, CHR 0x84], [CHR 0xE2, CHR 0x80, CHR 0x85],
     [CHR 0xE2, CHR 0x80, CHR 0x86], [CHR 0xE2, CHR 0x80, CHR 0x87],
     [CHR 0xE2, CHR 0x80, CHR 0x88], [CHR 0xE2, CHR 0x80, CHR 0x89],
     [CHR 0xE2, CHR 0x80, CHR 0x8A], [CHR 0xE2, CHR 0x80, CHR 0xA8],
     [CHR 0xE2, CHR 0x80, CHR 0xA9], [CHR 0xE2, CHR 0x80, CHR 0xAF],
     [CHR 0xE2, CHR 0x81, CHR 0x9F], [CHR 0xE3, CHR 0x80, CHR 0x80]]"

fun strip_first :: "'a list list \<Rightarrow> 'a list \<Rightarrow> 'a list option" where
  "strip_first [] xs = None"
| "strip_first (p # ps) xs =
    (case strip_prefix p xs of Some r \<Rightarrow> Some r | None \<Rightarrow> strip_first ps xs)"

primrec strip_all :: "nat \<Rightarrow> 'a list list \<Rightarrow> 'a list \<Rightarrow> 'a list" where
  "strip_all 0 ps xs = xs"
| "strip_all (Suc n) ps xs =
    (case strip_first ps xs of Some r \<Rightarrow> strip_all n ps r | None \<Rightarrow> xs)"

definition trim_start :: "string \<Rightarrow> string" where
  "trim_start s = strip_all (length s) white_space_seqs s"

definition trim_end :: "string \<Rightarrow> string" where
  "trim_end s = rev (strip_all (length s) (map rev white_space_seqs) (rev s))"

definition trim :: "string \<Rightarrow> string" where
  "trim s = trim_end (trim_start s)"

text \<open>Decimal text of integers, as the formatting macros print them.\<close>

definition digit_char :: "nat \<Rightarrow> char" where
  "digit_char d = char_of (48 + d)"

fun show_nat :: "nat \<Rightarrow> string" where
  "show_nat n = (if n < 10 then [digit_char n] else show_nat (n div 10) @ [digit_char (n mod 10)])"

declare show_nat.simps [simp del]

definition show_int :: "int \<Rightarrow> string" where
  "show_int i = (if i < 0 then CHR ''-'' # show_nat (nat (- i)) else show_nat (nat i))"

text \<open>
  Parsing an unsigned integer with a given maximum, as \<open>str::parse\<close> does: an optional plus sign,
  then at least one decimal digit, and no value above the maximum.
\<close>

definition digit_value :: "char \<Rightarrow> nat option" where
  "digit_value c = (let n = of_char c in if 48 \<le> n \<and> n \<le> 57 then Some (n - 48) else None)"

fun parse_digits :: "nat \<Rightarrow> nat \<Rightarrow> string \<Rightarrow> nat option" where
  "parse_digits m acc [] = Some acc"
| "parse_digits m acc (c # cs) =
    (case digit_value c of
       None \<Rightarrow> None
     | Some d \<Rightarrow> if acc * 10 + d > m then None else parse_digits m (acc * 10 + d) cs)"

definition parse_uint :: "nat \<Rightarrow> string \<Rightarrow> nat option" where
  "parse_uint m s =
    (case s of
       [] \<Rightarrow> None
     | [c] \<Rightarrow> parse_digits m 0 [c]
     | c # cs \<Rightarrow> if c = CHR ''+'' then parse_digits m 0 cs else parse_digits m 0 s)"

text \<open>\<open>str::split_once\<close> at a character.\<close>

definition split_once :: "char \<Rightarrow> string \<Rightarrow> (string \<times> string) option" where
  "split_once c s =
    (if c \<in> set s then Some (takeWhile (\<lambda>x. x \<noteq> c) s, tl (dropWhile (\<lambda>x. x \<noteq> c) s)) else None)"

section \<open>Environment variables\<close>

text \<open>What \<open>std::env::var\<close> finds: nothing, bytes that are not Unicode, or a value; and its \<open>ok()\<close>.\<close>

datatype env_var = EnvAbsent | EnvNotUnicode | EnvValue string

fun env_ok :: "env_var \<Rightarrow> string option" where
  "env_ok (EnvValue v) = Some v"
| "env_ok _ = None"

text \<open>\<open>u8::is_ascii_whitespace\<close> and \<open>u8::is_ascii_alphanumeric\<close>.\<close>

definition ascii_whitespace :: "char \<Rightarrow> bool" where
  "ascii_whitespace c = (c \<in> {CHR 0x20, CHR 0x09, CHR 0x0A, CHR 0x0C, CHR 0x0D})"

definition ascii_alphanumeric :: "char \<Rightarrow> bool" where
  "ascii_alphanumeric c =
    (let n = of_char c :: nat in 48 \<le> n \<and> n \<le> 57 \<or> 65 \<le> n \<and> n \<le> 90 \<or> 97 \<le> n \<and> n \<le> 122)"

section \<open>UTF-8\<close>

text \<open>What \<open>str::from_utf8\<close> accepts: the well-formed byte sequences of the Unicode standard.\<close>

definition utf8_cont :: "char \<Rightarrow> bool" where
  "utf8_cont c \<longleftrightarrow> 128 \<le> (of_char c :: nat) \<and> (of_char c :: nat) \<le> 191"

text \<open>The number of continuation bytes after a first byte, with the range of the first of them.\<close>

definition utf8_lead :: "char \<Rightarrow> (nat \<times> nat \<times> nat) option" where
  "utf8_lead c =
    (let n = of_char c :: nat in
     if n \<le> 127 then Some (0, 0, 0)
     else if 194 \<le> n \<and> n \<le> 223 then Some (1, 128, 191)
     else if n = 224 then Some (2, 160, 191)
     else if n = 237 then Some (2, 128, 159)
     else if 225 \<le> n \<and> n \<le> 239 then Some (2, 128, 191)
     else if n = 240 then Some (3, 144, 191)
     else if 241 \<le> n \<and> n \<le> 243 then Some (3, 128, 191)
     else if n = 244 then Some (3, 128, 143)
     else None)"

function utf8_valid :: "string \<Rightarrow> bool" where
  "utf8_valid [] = True"
| "utf8_valid (c # cs) =
    (case utf8_lead c of
       None \<Rightarrow> False
     | Some (k, lo, hi) \<Rightarrow>
         length cs \<ge> k \<and> (k > 0 \<longrightarrow> lo \<le> (of_char (hd cs) :: nat) \<and> (of_char (hd cs) :: nat) \<le> hi) \<and>
         list_all utf8_cont (take k cs) \<and> utf8_valid (drop k cs))"
  by pat_completeness auto
termination by (relation "measure length") auto

section \<open>Fallible steps on a state\<close>

text \<open>Sequencing of steps that may fail; the state of a failed step is kept.\<close>

definition bind_step :: "('s \<Rightarrow> ('e + 'a) \<times> 's) \<Rightarrow> ('a \<Rightarrow> 's \<Rightarrow> ('e + 'b) \<times> 's) \<Rightarrow> 's \<Rightarrow> ('e + 'b) \<times> 's" where
  "bind_step m f s = (case m s of (Inl e, s') \<Rightarrow> (Inl e, s') | (Inr a, s') \<Rightarrow> f a s')"

definition map_err_step :: "('e \<Rightarrow> 'f) \<Rightarrow> ('s \<Rightarrow> ('e + 'a) \<times> 's) \<Rightarrow> 's \<Rightarrow> ('f + 'a) \<times> 's" where
  "map_err_step g m s = (let (r, s') = m s in (map_err g r, s'))"

section \<open>Monotonic time\<close>

text \<open>
  An \<open>Instant\<close> and a \<open>Duration\<close> are nanosecond counts; adding them is undefined past the range
  of the operating system's clock, where \<open>checked_add\<close> returns nothing and \<open>+\<close> panics.
\<close>

type_synonym instant = nat
type_synonym duration = nat

definition instant_limit :: nat where
  "instant_limit = 2 ^ 63 * 10 ^ 9"

definition instant_add :: "instant \<Rightarrow> duration \<Rightarrow> instant option" where
  "instant_add t d = (if t + d < instant_limit then Some (t + d) else None)"

section \<open>Lemmas on results\<close>

lemma bind_step_Inr [result_simps]:
  "bind_step m f s = (Inr b, t) \<longleftrightarrow> (\<exists>a s'. m s = (Inr a, s') \<and> f a s' = (Inr b, t))"
  by (auto simp: bind_step_def split: prod.splits sum.splits)

lemma map_err_step_Inr [result_simps]: "map_err_step g m s = (Inr a, t) \<longleftrightarrow> m s = (Inr a, t)"
  by (cases "m s"; cases "fst (m s)") (auto simp: map_err_step_def)

lemma and_then_Inr [result_simps]:
  "and_then r f = Inr b \<longleftrightarrow> (\<exists>a. r = Inr a \<and> f a = Inr b)"
  by (cases r) auto

lemma and_then_Inl [result_simps]:
  "and_then r f = Inl e \<longleftrightarrow> r = Inl e \<or> (\<exists>a. r = Inr a \<and> f a = Inl e)"
  by (cases r) auto

lemma ok_or_Inr [result_simps]: "ok_or e x = Inr a \<longleftrightarrow> x = Some a"
  by (cases x) auto

lemma ok_or_Inl [result_simps]: "ok_or e x = Inl d \<longleftrightarrow> x = None \<and> d = e"
  by (cases x) auto

lemma map_err_Inr [result_simps]: "map_err f r = Inr a \<longleftrightarrow> r = Inr a"
  by (cases r) auto

lemma map_err_Inl [result_simps]: "map_err f r = Inl d \<longleftrightarrow> (\<exists>e. r = Inl e \<and> d = f e)"
  by (cases r) auto

lemma is_ok_iff: "is_ok r \<longleftrightarrow> (\<exists>a. r = Inr a)"
  by (cases r) auto

lemma if_Inl_Inr [result_simps]:
  "(if b then Inl e else r) = Inr a \<longleftrightarrow> \<not> b \<and> r = Inr a"
  by auto

section \<open>Lemmas on 64-bit integers\<close>

lemma wrap_i64_id [i64_simps]: "is_i64 x \<Longrightarrow> wrap_i64 x = x"
  by (simp add: is_i64_def wrap_i64_def i64_min_def i64_max_def)

lemma wrap_i64_above: "is_i64 (x - 2 ^ 64) \<Longrightarrow> wrap_i64 x = x - 2 ^ 64"
proof -
  assume "is_i64 (x - 2 ^ 64)"
  then have "wrap_i64 (x - 2 ^ 64) = x - 2 ^ 64" by (rule wrap_i64_id)
  moreover have "x - 2 ^ 64 + 2 ^ 63 = (x + 2 ^ 63) - 2 ^ 64" by simp
  ultimately show ?thesis unfolding wrap_i64_def by (metis minus_mod_self2)
qed

lemma is_i64_wrap [i64_simps]: "is_i64 (wrap_i64 x)"
proof -
  have "0 \<le> (x + 2 ^ 63) mod (2 ^ 64 :: int)" "(x + 2 ^ 63) mod (2 ^ 64 :: int) < 2 ^ 64"
    by simp_all
  then show ?thesis
    by (simp add: is_i64_def wrap_i64_def i64_min_def i64_max_def)
qed

lemma is_i64_saturating_add [i64_simps]: "is_i64 (saturating_add x y)"
  by (simp add: is_i64_def saturating_add_def i64_min_def i64_max_def)

lemma is_i64_saturating_sub [i64_simps]: "is_i64 (saturating_sub x y)"
  by (simp add: is_i64_def saturating_sub_def i64_min_def i64_max_def)

lemma saturating_add_exact [i64_simps]: "is_i64 (x + y) \<Longrightarrow> saturating_add x y = x + y"
  by (simp add: is_i64_def saturating_add_def)

lemma checked_add_Some [i64_simps]:
  "checked_add x y = Some z \<longleftrightarrow> z = x + y \<and> is_i64 (x + y)"
  by (auto simp: checked_add_def)

lemma saturating_add_mono: "x \<le> x' \<Longrightarrow> saturating_add x y \<le> saturating_add x' y"
  by (simp add: saturating_add_def max_def min_def)

lemma saturating_add_nonneg_ge: "is_i64 x \<Longrightarrow> 0 \<le> y \<Longrightarrow> x \<le> saturating_add x y"
  by (simp add: saturating_add_def is_i64_def)

section \<open>Lemmas on strings\<close>

lemma digit_value_digit_char: "d < 10 \<Longrightarrow> digit_value (digit_char d) = Some d"
  by (simp add: digit_value_def digit_char_def Let_def)

lemma parse_digits_append:
  "parse_digits m acc (xs @ ys) = Option.bind (parse_digits m acc xs) (\<lambda>a. parse_digits m a ys)"
  by (induction m acc xs rule: parse_digits.induct) (auto split: option.splits)

lemma parse_digits_show_nat: "n \<le> m \<Longrightarrow> parse_digits m 0 (show_nat n) = Some n"
proof (induction n rule: less_induct)
  case (less n)
  show ?case
  proof (cases "n < 10")
    case True
    then show ?thesis using less.prems by (simp add: show_nat.simps [of n] digit_value_digit_char)
  next
    case False
    then have "parse_digits m 0 (show_nat (n div 10)) = Some (n div 10)"
      using less by simp
    then show ?thesis using False less.prems
      by (simp add: show_nat.simps [of n] parse_digits_append digit_value_digit_char)
  qed
qed

lemma show_nat_first_digit: "\<exists>d cs. show_nat n = digit_char d # cs \<and> d < 10"
  by (induction n rule: show_nat.induct) (subst show_nat.simps, force)

lemma digit_char_not_plus: "d < 10 \<Longrightarrow> digit_char d \<noteq> CHR ''+''"
  using digit_value_digit_char [of d] by (auto simp: digit_value_def)

lemma parse_uint_show_nat:
  assumes "n \<le> m"
  shows "parse_uint m (show_nat n) = Some n"
proof -
  obtain d cs where s: "show_nat n = digit_char d # cs" "d < 10" using show_nat_first_digit by blast
  then show ?thesis
    using parse_digits_show_nat [OF assms] digit_char_not_plus [OF s(2)]
    by (cases cs) (simp_all add: parse_uint_def del: parse_digits.simps(2))
qed

lemma parse_digits_mono: "parse_digits m acc s = Some v \<Longrightarrow> m \<le> m' \<Longrightarrow> parse_digits m' acc s = Some v"
  by (induction s arbitrary: acc) (auto split: option.splits if_splits)

lemma parse_uint_mono:
  assumes "parse_uint m s = Some v" "m \<le> m'"
  shows "parse_uint m' s = Some v"
proof (cases s)
  case (Cons c cs)
  note mono = parse_digits_mono [OF _ assms(2), of 0 _ v]
  show ?thesis
  proof (cases cs)
    case Nil
    then show ?thesis using assms(1) Cons mono [of s] by (simp only: parse_uint_def list.case)
  next
    case (Cons d ds)
    then show ?thesis
      using assms(1) \<open>s = c # cs\<close> mono [of s] mono [of cs] by (cases "c = CHR ''+''") (simp_all only: parse_uint_def list.case if_True if_False refl)
  qed
qed (use assms in \<open>simp add: parse_uint_def\<close>)

lemma split_on_nonempty [simp]: "split_on c xs \<noteq> []"
  by (induction xs) (auto split: list.splits)

lemma split_on_no_sep: "c \<notin> set xs \<Longrightarrow> split_on c xs = [xs]"
  by (induction xs) auto

lemma split_on_append_sep:
  "c \<notin> set xs \<Longrightarrow> split_on c (xs @ c # ys) = xs # split_on c ys"
  by (induction xs) auto

lemma split_on_join: "split_on c (a @ c # b) = split_on c a @ split_on c b"
  by (induction a) (auto split: list.split)

lemma split_on_parts_no_sep: "p \<in> set (split_on c xs) \<Longrightarrow> c \<notin> set p"
proof (induction xs arbitrary: p)
  case (Cons x xs)
  show ?case
  proof (cases "split_on c xs")
    case Nil
    then show ?thesis by simp
  next
    case (Cons y ys)
    then show ?thesis using Cons.prems Cons.IH by (auto split: if_splits)
  qed
qed simp

lemma join_with_split_on [simp]: "join_with c (split_on c xs) = xs"
proof (induction xs)
  case (Cons x xs)
  obtain y ys where "split_on c xs = y # ys"
    by (meson split_on_nonempty list.exhaust)
  then show ?case using Cons.IH by (cases ys) auto
qed simp

lemma join_with_Cons: "ys \<noteq> [] \<Longrightarrow> join_with c (x # ys) = x @ c # join_with c ys"
  by (cases ys) auto

lemma split_on_join_with:
  "xs \<noteq> [] \<Longrightarrow> \<forall>x \<in> set xs. c \<notin> set x \<Longrightarrow> split_on c (join_with c xs) = xs"
proof (induction xs)
  case (Cons x xs)
  then show ?case
    by (cases "xs = []") (simp_all add: join_with_Cons split_on_append_sep split_on_no_sep)
qed simp

lemma strip_prefix_Some: "strip_prefix p xs = Some r \<longleftrightarrow> xs = p @ r"
  by (induction p xs rule: strip_prefix.induct) auto

lemma starts_with_iff: "starts_with xs p \<longleftrightarrow> (\<exists>r. xs = p @ r)"
  by (auto simp: starts_with_def strip_prefix_Some)

lemma strip_all_Nil [simp]: "[] \<notin> set ps \<Longrightarrow> strip_all n ps [] = []"
proof (cases n)
  case (Suc m)
  assume "[] \<notin> set ps"
  then have "strip_first ps ([] :: 'a list) = None"
    by (induction ps) (auto simp: strip_prefix_Some split: option.splits)
  then show ?thesis using Suc by simp
qed simp

lemma strip_first_None: "strip_first ps xs = None \<longleftrightarrow> (\<forall>p \<in> set ps. \<not> starts_with xs p)"
  by (induction ps) (auto simp: starts_with_def split: option.splits)

lemma strip_first_SomeD: "strip_first ps xs = Some r \<Longrightarrow> \<exists>p \<in> set ps. xs = p @ r"
  by (induction ps) (auto simp: strip_prefix_Some split: option.splits)

lemma strip_all_suffix: "\<exists>zs. xs = zs @ strip_all n ps xs"
proof (induction n arbitrary: xs)
  case (Suc n)
  show ?case
  proof (cases "strip_first ps xs")
    case (Some r)
    then obtain p where "xs = p @ r" using strip_first_SomeD by blast
    then show ?thesis using Suc [of r] Some by (metis append_assoc option.simps(5) strip_all.simps(2))
  qed simp
qed simp

lemma strip_all_done:
  assumes "[] \<notin> set ps" "length xs \<le> n"
  shows "strip_first ps (strip_all n ps xs) = None"
  using assms(2)
proof (induction n arbitrary: xs)
  case 0
  then show ?case using assms(1) by (auto simp: strip_first_None starts_with_iff)
next
  case (Suc n)
  show ?case
  proof (cases "strip_first ps xs")
    case (Some r)
    then obtain p where "p \<in> set ps" "xs = p @ r" using strip_first_SomeD by blast
    then have "length xs = length p + length r" "0 < length p" using assms(1) by auto
    then have "length r \<le> n" using Suc.prems by linarith
    then show ?thesis using Suc.IH Some by simp
  qed simp
qed

lemma strip_all_id: "strip_first ps xs = None \<Longrightarrow> strip_all n ps xs = xs"
  by (cases n) auto

lemma white_space_nonempty: "[] \<notin> set white_space_seqs" "[] \<notin> set (map rev white_space_seqs)"
  by (simp_all add: white_space_seqs_def)

lemma trim_idem [simp]: "trim (trim s) = trim s"
proof -
  let ?t = "trim_start s"
  have t: "strip_first white_space_seqs ?t = None"
    unfolding trim_start_def by (rule strip_all_done) (use white_space_nonempty in auto)
  obtain zs where "rev ?t = zs @ strip_all (length ?t) (map rev white_space_seqs) (rev ?t)"
    using strip_all_suffix by blast
  then have "rev (rev ?t) = rev (zs @ rev (trim_end ?t))" by (simp add: trim_end_def)
  then have pre: "?t = trim_end ?t @ rev zs" by simp
  have "strip_first white_space_seqs (trim_end ?t) = None"
    using t unfolding strip_first_None starts_with_iff by (metis pre append_assoc)
  then have s: "trim_start (trim_end ?t) = trim_end ?t" by (simp add: trim_start_def strip_all_id)
  have "strip_first (map rev white_space_seqs) (rev (trim_end ?t)) = None"
    unfolding trim_end_def rev_rev_ident by (rule strip_all_done) (use white_space_nonempty in auto)
  then have "trim_end (trim_end ?t) = trim_end ?t" unfolding trim_end_def [of "trim_end ?t"] by (simp add: strip_all_id)
  then show ?thesis using s by (simp add: trim_def)
qed

section \<open>Hash maps\<close>

text \<open>
  A hash map of the sources is an association list with distinct keys, \<open>map_of\<close> its lookup,
  \<open>AList.update\<close> its insertion and \<open>AList.delete\<close> its removal.
\<close>

abbreviation distinct_keys :: "('k \<times> 'v) list \<Rightarrow> bool" where
  "distinct_keys m \<equiv> distinct (map fst m)"

lemma length_distinct_keys: "distinct_keys m \<Longrightarrow> length m = card (fst ` set m)"
  using distinct_card [of "map fst m"] by simp

lemma distinct_keys_update [alist_simps]:
  "distinct_keys m \<Longrightarrow> distinct_keys (AList.update k v m)"
  by (rule distinct_update)

lemma distinct_keys_delete [alist_simps]:
  "distinct_keys m \<Longrightarrow> distinct_keys (AList.delete k m)"
  by (rule distinct_delete)

lemma map_of_update [alist_simps]: "map_of (AList.update k v m) = (map_of m)(k \<mapsto> v)"
  by (rule update_conv')

lemma map_of_delete [alist_simps]: "map_of (AList.delete k m) = (map_of m)(k := None)"
  by (rule delete_conv')

lemma update_fresh: "k \<notin> fst ` set m \<Longrightarrow> AList.update k v m = m @ [(k, v)]"
  by (induction m) auto

lemma length_update [alist_simps]:
  "length (AList.update k v m) = (if k \<in> fst ` set m then length m else Suc (length m))"
  by (induction m) auto

lemma length_delete [alist_simps]: "length (AList.delete k m) \<le> length m"
  by (rule length_delete_le)

lemma fst_set_update [alist_simps]: "fst ` set (AList.update k v m) = insert k (fst ` set m)"
  by (induction m) auto

lemma fst_set_delete [alist_simps]: "fst ` set (AList.delete k m) = fst ` set m - {k}"
  by (induction m) auto

lemma length_delete_present:
  assumes "distinct_keys m" "k \<in> fst ` set m"
  shows "Suc (length (AList.delete k m)) = length m"
  using assms card_Suc_Diff1 [of "fst ` set m" k]
  by (simp add: length_distinct_keys distinct_keys_delete fst_set_delete del: card_Diff_insert card_Diff_singleton)

lemma map_of_filter_distinct:
  assumes "distinct_keys m"
  shows "map_of (filter P m) k = (case map_of m k of None \<Rightarrow> None | Some v \<Rightarrow> if P (k, v) then Some v else None)"
  using assms
proof (induction m)
  case (Cons a m)
  then have "map_of m (fst a) = None" by (simp add: map_of_eq_None_iff)
  with Cons show ?case by (cases a) (auto split: option.splits)
qed simp

lemma distinct_keys_filter [alist_simps]: "distinct_keys m \<Longrightarrow> distinct_keys (filter P m)"
  by (induction m) (auto split: if_splits)

lemma split_once_append: "c \<notin> set s \<Longrightarrow> split_once c (s @ c # t) = Some (s, t)"
proof -
  assume "c \<notin> set s"
  then have "\<forall>x \<in> set s. x \<noteq> c" by auto
  then have "takeWhile (\<lambda>x. x \<noteq> c) (s @ c # t) = s" "dropWhile (\<lambda>x. x \<noteq> c) (s @ c # t) = c # t"
    by (simp_all add: takeWhile_tail dropWhile_append3)
  then show ?thesis by (simp add: split_once_def)
qed

lemma split_once_None: "c \<notin> set s \<Longrightarrow> split_once c s = None"
  by (simp add: split_once_def)

lemma split_once_SomeD:
  assumes "split_once c s = Some (a, b)"
  shows "s = a @ [c] @ b"
proof -
  have "c \<in> set s" "a = takeWhile (\<lambda>x. x \<noteq> c) s" "b = tl (dropWhile (\<lambda>x. x \<noteq> c) s)"
    using assms by (auto simp: split_once_def split: if_splits)
  moreover from this have "dropWhile (\<lambda>x. x \<noteq> c) s \<noteq> [] \<and> hd (dropWhile (\<lambda>x. x \<noteq> c) s) = c"
    by (metis (mono_tags) dropWhile_eq_Nil_conv hd_dropWhile)
  ultimately show ?thesis
    by (metis append_Cons append_Nil list.collapse takeWhile_dropWhile_id)
qed

end
