(* ===== verification/Glob.thy ===== *)
theory Glob
  imports Prelude
begin

text \<open>
  The wildcard matcher of delegation grants, \<open>glob_match\<close> of
  \<open>agentguard-core/src/delegation.rs\<close>: the two-pointer walk over the byte arrays of pattern and
  value, index for index, and the recursive specification \<open>glob_spec\<close> it is proved equal to.
\<close>

section \<open>The matcher of the sources\<close>

definition slice_eq :: "string \<Rightarrow> nat \<Rightarrow> nat \<Rightarrow> string \<Rightarrow> nat \<Rightarrow> bool" where
  "slice_eq a a_start a_end b b_start =
    (let len = a_end - a_start in
     if b_start + len > length b then False
     else take len (drop a_start a) = take len (drop b_start b))"

definition star_positions :: "string \<Rightarrow> nat list" where
  "star_positions pat = filter (\<lambda>i. pat ! i = CHR ''*'') [0..<length pat]"

text \<open>The inner \<open>loop\<close>: the first position from \<open>pos\<close> on where the segment occurs.\<close>

function glob_find :: "string \<Rightarrow> nat \<Rightarrow> nat \<Rightarrow> string \<Rightarrow> nat \<Rightarrow> nat option" where
  "glob_find pat seg_start seg_end val pos =
    (let seg_len = seg_end - seg_start in
     if pos + seg_len > length val then None
     else if slice_eq pat seg_start seg_end val pos then Some (pos + seg_len)
     else glob_find pat seg_start seg_end val (pos + 1))"
  by pat_completeness auto
termination
  by (relation "measure (\<lambda>(pat, seg_start, seg_end, val, pos). Suc (length val) - pos)") auto

declare glob_find.simps [simp del]

text \<open>
  The \<open>for\<close> loop over the stars, with the value position \<open>vi\<close> and the vector \<open>s\<close> of the
  positions reached.  Running past the last star is the final \<open>false\<close> of the function.
\<close>

function glob_segments :: "string \<Rightarrow> string \<Rightarrow> nat list \<Rightarrow> nat \<Rightarrow> nat \<Rightarrow> nat list \<Rightarrow> bool" where
  "glob_segments pat val stars i vi s =
    (if i \<ge> length stars then False
     else
       let seg_start = stars ! i + 1;
           seg_end = (if i + 1 < length stars then stars ! (i + 1) else length pat);
           seg_len = seg_end - seg_start
       in if i + 1 = length stars then
            (if seg_len = 0 then True
             else length val \<ge> vi + seg_len
                  \<and> slice_eq pat seg_start seg_end val (length val - seg_len))
          else
            (case glob_find pat seg_start seg_end val (s ! i) of
               None \<Rightarrow> False
             | Some vi' \<Rightarrow> glob_segments pat val stars (i + 1) vi' (s @ [vi'])))"
  by pat_completeness auto
termination
  by (relation "measure (\<lambda>(pat, val, stars, i, vi, s). length stars - i)") auto

declare glob_segments.simps [simp del]

definition glob_match :: "string \<Rightarrow> string \<Rightarrow> bool" where
  "glob_match pattern val =
    (if pattern = ''*'' then True
     else if CHR ''*'' \<notin> set pattern then pattern = val
     else
       let stars = star_positions pattern;
           p0_end = stars ! 0
       in if \<not> slice_eq pattern 0 p0_end val 0 then False
          else glob_segments pattern val stars 0 p0_end [p0_end])"

section \<open>The specification\<close>

text \<open>A star stands for any byte sequence, every other byte for itself.\<close>

fun glob_spec :: "string \<Rightarrow> string \<Rightarrow> bool" where
  "glob_spec [] v = (v = [])"
| "glob_spec (p # ps) v =
    (if p = CHR ''*'' then (\<exists>k \<in> {0..length v}. glob_spec ps (drop k v))
     else (case v of [] \<Rightarrow> False | x # xs \<Rightarrow> x = p \<and> glob_spec ps xs))"

text \<open>The value obtained by filling the stars of a pattern, in order, with the given words.\<close>

fun glob_fill :: "string \<Rightarrow> string list \<Rightarrow> string" where
  "glob_fill [] ws = []"
| "glob_fill (p # ps) ws =
    (if p = CHR ''*'' then hd ws @ glob_fill ps (tl ws) else p # glob_fill ps ws)"

lemma glob_spec_star: "glob_spec (CHR ''*'' # ps) v \<longleftrightarrow> (\<exists>a b. v = a @ b \<and> glob_spec ps b)"
proof
  assume "glob_spec (CHR ''*'' # ps) v"
  then obtain k where "glob_spec ps (drop k v)" by auto
  then show "\<exists>a b. v = a @ b \<and> glob_spec ps b" by (metis append_take_drop_id)
next
  assume "\<exists>a b. v = a @ b \<and> glob_spec ps b"
  then obtain a b where "v = a @ b" "glob_spec ps b" by blast
  then show "glob_spec (CHR ''*'' # ps) v"
    by (auto intro!: bexI [of _ "length a"])
qed

lemma glob_spec_literal:
  "CHR ''*'' \<notin> set lit \<Longrightarrow> glob_spec (lit @ ps) v \<longleftrightarrow> (\<exists>r. v = lit @ r \<and> glob_spec ps r)"
  by (induction lit arbitrary: v) (auto split: list.splits)

lemma glob_spec_star_mono:
  "glob_spec (CHR ''*'' # ps) b \<Longrightarrow> glob_spec (CHR ''*'' # ps) (a @ b)"
  by (auto simp only: glob_spec_star) (metis append_assoc)

lemma glob_spec_no_star: "CHR ''*'' \<notin> set p \<Longrightarrow> glob_spec p v \<longleftrightarrow> p = v"
  using glob_spec_literal [of p "[]" v] by auto

declare glob_spec.simps(2) [simp del]

section \<open>Slices, star positions and the search loop\<close>

definition segment :: "string \<Rightarrow> nat \<Rightarrow> nat \<Rightarrow> string" where
  "segment pat seg_start seg_end = take (seg_end - seg_start) (drop seg_start pat)"

lemma slice_eq_segment:
  assumes "seg_start \<le> seg_end" "seg_end \<le> length pat"
  shows "slice_eq pat seg_start seg_end val pos \<longleftrightarrow>
    pos + (seg_end - seg_start) \<le> length val \<and>
    (\<exists>r. drop pos val = segment pat seg_start seg_end @ r)"
proof -
  have "length (segment pat seg_start seg_end) = seg_end - seg_start"
    using assms by (simp add: segment_def)
  then show ?thesis
    unfolding slice_eq_def Let_def segment_def [symmetric]
    by (metis append_eq_conv_conj append_take_drop_id not_less)
qed

lemma length_segment:
  "seg_start \<le> seg_end \<Longrightarrow> seg_end \<le> length pat \<Longrightarrow>
    length (segment pat seg_start seg_end) = seg_end - seg_start"
  by (simp add: segment_def)

lemma sorted_star_positions: "sorted_wrt (<) (star_positions pat)"
  unfolding star_positions_def by (rule sorted_wrt_filter) simp

lemma set_star_positions: "set (star_positions pat) = {i. i < length pat \<and> pat ! i = CHR ''*''}"
  by (auto simp: star_positions_def)

lemma star_position_props:
  assumes "i < length (star_positions pat)"
  shows "star_positions pat ! i < length pat" "pat ! (star_positions pat ! i) = CHR ''*''"
  using nth_mem [OF assms] by (auto simp: set_star_positions)

lemma no_star_between:
  assumes "a = 0 \<and> b = star_positions pat ! 0 \<and> star_positions pat \<noteq> []
    \<or> (\<exists>i. i + 1 < length (star_positions pat) \<and>
          a = star_positions pat ! i + 1 \<and> b = star_positions pat ! (i + 1))
    \<or> star_positions pat \<noteq> [] \<and> a = last (star_positions pat) + 1 \<and> b = length pat"
  shows "CHR ''*'' \<notin> set (segment pat a b)"
proof
  let ?st = "star_positions pat"
  assume "CHR ''*'' \<in> set (segment pat a b)"
  then obtain j where j: "j < b - a" "a + j < length pat" "pat ! (a + j) = CHR ''*''"
    by (auto simp: segment_def in_set_conv_nth)
  then have "a + j \<in> set ?st" by (simp add: set_star_positions)
  then obtain k where k: "k < length ?st" "?st ! k = a + j" by (auto simp: in_set_conv_nth)
  have mono: "?st ! x < ?st ! y" if "x < y" "y < length ?st" for x y
    using sorted_wrt_nth_less [OF sorted_star_positions that] .
  from assms show False
  proof (elim disjE exE conjE)
    assume "b = ?st ! 0" "?st \<noteq> []" "a = 0"
    then show False using mono [of 0 k] k j by (cases "k = 0") auto
  next
    fix i assume i: "i + 1 < length ?st" "a = ?st ! i + 1" "b = ?st ! (i + 1)"
    then have "\<not> k < i" "k \<noteq> i" "k \<noteq> i + 1" "\<not> i + 1 < k"
      using mono [of k i] mono [of "i + 1" k] k j by auto
    then show False by simp
  next
    assume "?st \<noteq> []" "a = last ?st + 1" "b = length pat"
    moreover have "k \<le> length ?st - 1" using k by simp
    ultimately show False using mono [of k "length ?st - 1"] k j
      by (cases "k = length ?st - 1") (auto simp: last_conv_nth)
  qed
qed

lemma drop_at_star:
  assumes "i < length (star_positions pat)"
    and "b = (if i + 1 < length (star_positions pat) then star_positions pat ! (i + 1) else length pat)"
    and "a = star_positions pat ! i + 1"
  shows "drop (star_positions pat ! i) pat = CHR ''*'' # segment pat a b @ drop b pat"
    and "a \<le> b" and "b \<le> length pat" and "CHR ''*'' \<notin> set (segment pat a b)"
proof -
  let ?st = "star_positions pat"
  note p = star_position_props [OF assms(1)]
  show ab: "a \<le> b"
    using assms p sorted_wrt_nth_less [OF sorted_star_positions, of i "i + 1" pat] by auto
  show bl: "b \<le> length pat" using assms star_position_props [of "i + 1" pat] by auto
  have "drop (?st ! i) pat = CHR ''*'' # drop a pat"
    using p assms(3) by (metis Cons_nth_drop_Suc Suc_eq_plus1)
  also have "drop a pat = segment pat a b @ drop b pat"
    using ab by (metis append_take_drop_id drop_drop le_add_diff_inverse2 segment_def)
  finally show "drop (?st ! i) pat = CHR ''*'' # segment pat a b @ drop b pat" .
  have ne: "?st \<noteq> []" using assms(1) by auto
  show "CHR ''*'' \<notin> set (segment pat a b)"
  proof (cases "i + 1 < length ?st")
    case True
    then show ?thesis using assms by (intro no_star_between) auto
  next
    case False
    then have "i = length ?st - 1" using assms(1) by simp
    then show ?thesis using assms False ne
      by (intro no_star_between) (auto simp: last_conv_nth)
  qed
qed

text \<open>The search returns the end of the leftmost occurrence, or nothing when there is none.\<close>

lemma glob_find_fits:
  "glob_find pat seg_start seg_end val pos = Some vi \<Longrightarrow> pos + (seg_end - seg_start) \<le> length val"
  by (simp add: glob_find.simps [of pat seg_start seg_end val pos] Let_def split: if_splits)

lemma glob_find_hit:
  "pos + (seg_end - seg_start) \<le> length val \<Longrightarrow> slice_eq pat seg_start seg_end val pos \<Longrightarrow>
    glob_find pat seg_start seg_end val pos = Some (pos + (seg_end - seg_start))"
  by (simp add: glob_find.simps [of pat seg_start seg_end val pos])

lemma glob_find_miss:
  "pos + (seg_end - seg_start) \<le> length val \<Longrightarrow> \<not> slice_eq pat seg_start seg_end val pos \<Longrightarrow>
    glob_find pat seg_start seg_end val pos = glob_find pat seg_start seg_end val (pos + 1)"
  by (simp add: glob_find.simps [of pat seg_start seg_end val pos])

lemma drop_append_drop:
  "drop pos val = s @ r \<Longrightarrow> drop (pos + length s) val = r"
  by (metis append_eq_conv_conj drop_drop add.commute)

lemma glob_find_Some:
  "glob_find pat seg_start seg_end val pos = Some vi \<Longrightarrow>
    seg_start \<le> seg_end \<Longrightarrow> seg_end \<le> length pat \<Longrightarrow>
    vi \<le> length val \<and> (\<exists>a. drop pos val = a @ segment pat seg_start seg_end @ drop vi val)"
proof (induction pat seg_start seg_end val pos rule: glob_find.induct)
  case (1 pat seg_start seg_end val pos)
  let ?s = "segment pat seg_start seg_end" and ?len = "seg_end - seg_start"
  note fits = glob_find_fits [OF 1(2)]
  have len: "length ?s = ?len" by (rule length_segment [OF 1(3,4)])
  show ?case
  proof (cases "slice_eq pat seg_start seg_end val pos")
    case True
    then have vi: "vi = pos + ?len" using 1(2) fits by (simp add: glob_find_hit)
    obtain r where r: "drop pos val = ?s @ r" using True 1(3,4) by (auto simp: slice_eq_segment)
    then have "drop vi val = r" using drop_append_drop [OF r] vi len by simp
    then show ?thesis using r vi fits by (auto intro: exI [of _ "[]"])
  next
    case False
    then have rec: "glob_find pat seg_start seg_end val (pos + 1) = Some vi"
      using 1(2) fits by (simp add: glob_find_miss)
    then have "Suc pos \<le> length val" using glob_find_fits by fastforce
    then have "drop pos val = val ! pos # drop (pos + 1) val" by (simp add: Cons_nth_drop_Suc)
    moreover obtain a where "vi \<le> length val" "drop (pos + 1) val = a @ ?s @ drop vi val"
      using 1(1) [OF refl _ False rec 1(3,4)] fits by auto
    ultimately show ?thesis by (metis append_Cons)
  qed
qed

lemma glob_find_leftmost:
  assumes "seg_start \<le> seg_end" "seg_end \<le> length pat"
  shows "drop pos val = a @ segment pat seg_start seg_end @ b \<Longrightarrow> pos \<le> length val \<Longrightarrow>
    \<exists>vi c. glob_find pat seg_start seg_end val pos = Some vi \<and> drop vi val = c @ b"
proof (induction a arbitrary: pos)
  case Nil
  let ?len = "seg_end - seg_start"
  have len: "length (segment pat seg_start seg_end) = ?len" by (rule length_segment [OF assms])
  have "length (drop pos val) = ?len + length b" using Nil len by simp
  then have fits: "pos + ?len \<le> length val" using Nil(2) unfolding length_drop by arith
  then have "glob_find pat seg_start seg_end val pos = Some (pos + ?len)"
    using Nil assms by (intro glob_find_hit) (auto simp: slice_eq_segment)
  moreover have "drop (pos + ?len) val = b"
    using drop_append_drop [of pos val "segment pat seg_start seg_end" b] Nil len by simp
  ultimately show ?case by auto
next
  case (Cons x a)
  let ?s = "segment pat seg_start seg_end" and ?len = "seg_end - seg_start"
  have len: "length ?s = ?len" by (rule length_segment [OF assms])
  have "length (drop pos val) = Suc (length a) + ?len + length b" using Cons.prems len by simp
  then have fits: "pos + 1 + ?len \<le> length val" using Cons.prems(2) unfolding length_drop by arith
  show ?case
  proof (cases "slice_eq pat seg_start seg_end val pos")
    case True
    have "drop (pos + ?len) val = drop ?len ((x # a) @ ?s @ b)"
      using Cons.prems(1) by (metis drop_drop add.commute)
    also have "\<dots> = drop ?len ((x # a) @ ?s) @ b"
      using drop_append [of ?len "(x # a) @ ?s" b] len by (simp del: drop_append)
    finally show ?thesis using glob_find_hit [OF _ True] fits by auto
  next
    case False
    have "drop (pos + 1) val = a @ ?s @ b"
      using drop_append_drop [of pos val "[x]" "a @ ?s @ b"] Cons.prems(1) by simp
    then obtain vi c where "glob_find pat seg_start seg_end val (pos + 1) = Some vi" "drop vi val = c @ b"
      using Cons.IH [of "pos + 1"] fits by auto
    then show ?thesis using glob_find_miss [OF _ False] fits by auto
  qed
qed

section \<open>The walk decides the specification\<close>

lemma drop_suffix_iff:
  assumes "vi \<le> length val"
  shows "(\<exists>x. drop vi val = x @ s) \<longleftrightarrow>
    vi + length s \<le> length val \<and> drop (length val - length s) val = s"
proof
  assume "\<exists>x. drop vi val = x @ s"
  then obtain x where x: "drop vi val = x @ s" by blast
  then have "val = (take vi val @ x) @ s" by (metis append_assoc append_take_drop_id)
  moreover have "length val = vi + length x + length s"
    using assms arg_cong [OF x, of length] by simp
  ultimately have "drop (vi + length x) val = s"
    using assms by (metis append_eq_conv_conj length_append length_take min_absorb2)
  then show "vi + length s \<le> length val \<and> drop (length val - length s) val = s"
    using \<open>length val = vi + length x + length s\<close> by simp
next
  assume r: "vi + length s \<le> length val \<and> drop (length val - length s) val = s"
  then have "drop (length val - length s - vi) (drop vi val) = s" by simp
  then show "\<exists>x. drop vi val = x @ s" by (metis append_take_drop_id)
qed

lemma glob_segments_last:
  assumes "i + 1 = length (star_positions pat)" "vi \<le> length val"
  shows "glob_segments pat val (star_positions pat) i vi s \<longleftrightarrow>
    glob_spec (drop (star_positions pat ! i) pat) (drop vi val)"
proof -
  let ?st = "star_positions pat"
  let ?a = "?st ! i + 1" and ?b = "length pat"
  let ?s = "segment pat ?a ?b"
  have i: "i < length ?st" using assms by simp
  note d = drop_at_star [OF i, of ?b ?a]
  have ab: "?a \<le> ?b" "CHR ''*'' \<notin> set ?s" and len: "length ?s = ?b - ?a"
    using d assms by (simp_all add: length_segment)
  have "glob_spec (drop (?st ! i) pat) (drop vi val) \<longleftrightarrow> (\<exists>x. drop vi val = x @ ?s)"
    using d(1) ab assms by (simp add: glob_spec_star glob_spec_no_star)
  also have "\<dots> \<longleftrightarrow> vi + (?b - ?a) \<le> length val \<and> drop (length val - (?b - ?a)) val = ?s"
    using drop_suffix_iff [OF assms(2), of ?s] len by simp
  also have "\<dots> \<longleftrightarrow> glob_segments pat val ?st i vi s"
  proof -
    have "slice_eq pat ?a ?b val (length val - (?b - ?a)) \<longleftrightarrow> drop (length val - (?b - ?a)) val = ?s"
      if "?b - ?a \<le> length val"
    proof -
      let ?n = "length val - (?b - ?a)"
      have "length (drop ?n val) = length ?s" using that len by simp
      then have "(\<exists>r. drop ?n val = ?s @ r) \<longleftrightarrow> drop ?n val = ?s"
        by (metis append_Nil2 append_eq_conv_conj order_refl take_all)
      then show ?thesis using that ab(1) by (simp add: slice_eq_segment)
    qed
    then show ?thesis using assms len
      by (subst glob_segments.simps) (auto simp: Let_def)
  qed
  finally show ?thesis by simp
qed

lemma glob_segments_spec:
  "i < length (star_positions pat) \<Longrightarrow> vi \<le> length val \<Longrightarrow> length s = Suc i \<Longrightarrow> s ! i = vi \<Longrightarrow>
    glob_segments pat val (star_positions pat) i vi s \<longleftrightarrow>
    glob_spec (drop (star_positions pat ! i) pat) (drop vi val)"
proof (induction "length (star_positions pat) - i" arbitrary: i vi s)
  case (Suc n)
  let ?st = "star_positions pat"
  show ?case
  proof (cases "i + 1 = length ?st")
    case True
    then show ?thesis using Suc.prems by (simp add: glob_segments_last)
  next
    case False
    then have i1: "i + 1 < length ?st" using Suc.prems by simp
    let ?a = "?st ! i + 1" and ?b = "?st ! (i + 1)"
    let ?s = "segment pat ?a ?b" and ?rest = "drop ?b pat"
    note d = drop_at_star [OF Suc.prems(1), of ?b ?a]
    have ab: "?a \<le> ?b" "?b \<le> length pat" "CHR ''*'' \<notin> set ?s" using d i1 by simp_all
    have star: "\<exists>q. ?rest = CHR ''*'' # q" using drop_at_star(1) [OF i1 refl refl] by blast
    have spec: "glob_spec (drop (?st ! i) pat) (drop vi val) \<longleftrightarrow>
      (\<exists>x b. drop vi val = x @ ?s @ b \<and> glob_spec ?rest b)"
      using d(1) i1 ab(3) by (auto simp: glob_spec_star glob_spec_literal)
    have step: "glob_segments pat val ?st i vi s =
      (case glob_find pat ?a ?b val vi of None \<Rightarrow> False
       | Some vi' \<Rightarrow> glob_segments pat val ?st (i + 1) vi' (s @ [vi']))"
      using Suc.prems i1 by (subst glob_segments.simps) (simp add: Let_def)
    have IH: "glob_segments pat val ?st (i + 1) vi' (s @ [vi']) \<longleftrightarrow> glob_spec ?rest (drop vi' val)"
      if "vi' \<le> length val" for vi'
      using Suc.hyps(1) [of "i + 1" vi' "s @ [vi']"] Suc.hyps(2) Suc.prems i1 that
      by (simp add: nth_append)
    show ?thesis
    proof (cases "glob_find pat ?a ?b val vi")
      case None
      then have "\<not> (\<exists>x b. drop vi val = x @ ?s @ b)"
        using glob_find_leftmost [OF ab(1,2), of vi val] Suc.prems(2) by fastforce
      then show ?thesis using step spec None by auto
    next
      case (Some vi')
      note S = glob_find_Some [OF Some ab(1,2)]
      have "glob_spec ?rest (drop vi' val) \<longleftrightarrow> (\<exists>x b. drop vi val = x @ ?s @ b \<and> glob_spec ?rest b)"
      proof
        assume "\<exists>x b. drop vi val = x @ ?s @ b \<and> glob_spec ?rest b"
        then obtain x b where xb: "drop vi val = x @ ?s @ b" "glob_spec ?rest b" by blast
        then obtain c where "drop vi' val = c @ b"
          using glob_find_leftmost [OF ab(1,2) xb(1) Suc.prems(2)] Some by auto
        then show "glob_spec ?rest (drop vi' val)"
          using xb(2) star by (metis glob_spec_star_mono)
      qed (use S in blast)
      then show ?thesis using step spec Some IH S by simp
    qed
  qed
qed simp

lemma glob_match_walk:
  assumes star: "CHR ''*'' \<in> set pattern"
  shows "slice_eq pattern 0 (star_positions pattern ! 0) val 0 \<and>
      glob_segments pattern val (star_positions pattern) 0
        (star_positions pattern ! 0) [star_positions pattern ! 0]
    \<longleftrightarrow> glob_spec pattern val"
proof -
  let ?st = "star_positions pattern"
  let ?p = "?st ! 0"
  let ?s = "segment pattern 0 ?p"
  obtain j where "j \<in> set ?st" using star by (auto simp: set_star_positions in_set_conv_nth)
  then have i0: "0 < length ?st" by (cases ?st) auto
  have p: "?p \<le> length pattern" using star_position_props [OF i0] by simp
  have len: "length ?s = ?p" using p by (simp add: segment_def)
  have "pattern = ?s @ drop ?p pattern" by (simp add: segment_def)
  moreover have "CHR ''*'' \<notin> set ?s" using i0 by (intro no_star_between) auto
  ultimately have spec: "glob_spec pattern val \<longleftrightarrow> (\<exists>r. val = ?s @ r \<and> glob_spec (drop ?p pattern) r)"
    using glob_spec_literal [of ?s "drop ?p pattern" val] by simp
  have prefix: "slice_eq pattern 0 ?p val 0 \<longleftrightarrow> (\<exists>r. val = ?s @ r)"
    using slice_eq_segment [of 0 ?p pattern val 0] p len by auto
  have "glob_segments pattern val ?st 0 ?p [?p] \<longleftrightarrow> glob_spec (drop ?p pattern) r"
    if "val = ?s @ r" for r
  proof -
    have "?p \<le> length val" "drop ?p val = r"
      using arg_cong [OF that, of length] arg_cong [OF that, of "drop ?p"] len by simp_all
    then show ?thesis using glob_segments_spec [OF i0, of ?p val "[?p]"] by simp
  qed
  then show ?thesis using spec prefix by auto
qed

lemma glob_match_iff_spec: "glob_match pattern val \<longleftrightarrow> glob_spec pattern val"
proof (cases "pattern = ''*''")
  case True
  have "glob_spec ''*'' val" using glob_spec_star [of "[]" val] by simp
  then show ?thesis using True by (simp add: glob_match_def)
next
  case False
  then show ?thesis
    by (cases "CHR ''*'' \<in> set pattern")
      (simp_all add: glob_match_def Let_def glob_match_walk [symmetric] glob_spec_no_star)
qed

lemma glob_spec_fill:
  "glob_spec p v \<longleftrightarrow> (\<exists>ws. length ws = count_list p CHR ''*'' \<and> v = glob_fill p ws)"
proof (induction p arbitrary: v)
  case (Cons c p)
  show ?case
  proof (cases "c = CHR ''*''")
    case True
    then have "glob_spec (c # p) v \<longleftrightarrow> (\<exists>a ws. length ws = count_list p CHR ''*'' \<and> v = a @ glob_fill p ws)"
      using Cons.IH glob_spec_star by auto
    also have "\<dots> \<longleftrightarrow> (\<exists>ws. length ws = count_list (c # p) CHR ''*'' \<and> v = glob_fill (c # p) ws)"
      using True by (force simp: length_Suc_conv)
    finally show ?thesis .
  next
    case False
    then show ?thesis using Cons.IH by (auto simp: glob_spec.simps split: list.splits)
  qed
qed simp

section \<open>What grants rely on\<close>

text \<open>
  A matcher of scope patterns on which the narrowing of a grant may rely: a pattern without a
  star covers exactly itself.  Then a list of patterns each of which is literally covered by, or
  identical to, a parent pattern covers nothing the parent list does not.
\<close>

locale scope_matcher =
  fixes matches :: "string \<Rightarrow> string \<Rightarrow> bool"
  assumes literal_exact: "CHR ''*'' \<notin> set p \<Longrightarrow> matches p v \<longleftrightarrow> p = v"
begin

definition covered :: "string list \<Rightarrow> string \<Rightarrow> bool" where
  "covered parent c \<longleftrightarrow>
    (if CHR ''*'' \<in> set c then c \<in> set parent else (\<exists>p \<in> set parent. matches p c))"

lemma narrowed_patterns:
  assumes "\<forall>c \<in> set child. covered parent c" "c \<in> set child" "matches c r"
  shows "\<exists>p \<in> set parent. matches p r"
proof (cases "CHR ''*'' \<in> set c")
  case True
  then show ?thesis using assms by (auto simp: covered_def)
next
  case False
  then have "c = r" using assms(3) by (simp add: literal_exact)
  then show ?thesis using assms(1,2) False by (auto simp: covered_def)
qed

end

interpretation glob: scope_matcher glob_match
  by unfold_locales (simp add: glob_match_iff_spec glob_spec_no_star)

section \<open>Properties\<close>

text \<open>
  C23: The wildcard matcher returns true exactly when the value is the pattern with each of its
  stars replaced by some byte sequence: the leftmost-first walk never misses a match and never
  invents one.
\<close>

theorem glob_match_correct:
  "glob_match pattern val \<longleftrightarrow>
    (\<exists>ws. length ws = count_list pattern CHR ''*'' \<and> val = glob_fill pattern ws)"
  by (simp add: glob_match_iff_spec glob_spec_fill)

end
