(* ===== verification/Json.thy ===== *)
theory Json
  imports Prelude "HOL-Library.Char_ord" "HOL-Library.List_Lexorder" "HOL-Library.Multiset"
begin

text \<open>
  JSON values as the sources use them through \<open>serde_json::Value\<close> (insertion-ordered objects),
  the accessors and the equality of that type, and the canonical writer of
  \<open>agentguard-core/src/decision/canonical.rs\<close>.

  The text of a JSON string and of a JSON number is produced by the \<open>serde_json\<close> package, so it
  is a parameter of the writer (the record \<open>json_text\<close>); \<open>json_text_ok\<close> names what the
  grammar of JSON promises about it.
\<close>

section \<open>Values\<close>

text \<open>A number is a \<open>u64\<close>, a negative \<open>i64\<close>, or the bits of a finite \<open>f64\<close>.\<close>

datatype number = PosInt nat | NegInt int | Float "64 word"

datatype json =
    Null
  | Bool bool
  | Number number
  | String string
  | Array "json list"
  | Object "(string \<times> json) list"

definition f64_is_zero :: "64 word \<Rightarrow> bool" where
  "f64_is_zero w \<longleftrightarrow> w = 0 \<or> w = 0x8000000000000000"

text \<open>IEEE equality on finite doubles: equal bits, or two zeros of whatever sign.\<close>

fun number_eq :: "number \<Rightarrow> number \<Rightarrow> bool" where
  "number_eq (PosInt a) (PosInt b) = (a = b)"
| "number_eq (NegInt a) (NegInt b) = (a = b)"
| "number_eq (Float a) (Float b) = (a = b \<or> f64_is_zero a \<and> f64_is_zero b)"
| "number_eq _ _ = False"

lemma size_json_member [termination_simp]:
  "(k, v) \<in> set xs \<Longrightarrow> size v < Suc (size_list (\<lambda>x. Suc (size (snd x))) xs)"
  by (induction xs) auto

lemma size_json_map_of [termination_simp]:
  "map_of xs k = Some v \<Longrightarrow> size v < Suc (size_list (\<lambda>x. Suc (size (snd x))) xs)"
  by (rule size_json_member) (rule map_of_SomeD)

fun json_eq :: "json \<Rightarrow> json \<Rightarrow> bool" where
  "json_eq Null Null = True"
| "json_eq (Bool a) (Bool b) = (a = b)"
| "json_eq (Number a) (Number b) = number_eq a b"
| "json_eq (String a) (String b) = (a = b)"
| "json_eq (Array xs) (Array ys) = list_all2 json_eq xs ys"
| "json_eq (Object xs) (Object ys) =
    (length xs = length ys \<and>
     list_all (\<lambda>(k, v). case map_of ys k of None \<Rightarrow> False | Some w \<Rightarrow> json_eq v w) xs)"
| "json_eq _ _ = False"

fun get :: "json \<Rightarrow> string \<Rightarrow> json option" where
  "get (Object xs) k = map_of xs k"
| "get _ k = None"

fun as_str :: "json \<Rightarrow> string option" where
  "as_str (String s) = Some s"
| "as_str _ = None"

fun as_bool :: "json \<Rightarrow> bool option" where
  "as_bool (Bool b) = Some b"
| "as_bool _ = None"

fun as_i64 :: "json \<Rightarrow> int option" where
  "as_i64 (Number (PosInt n)) = (if int n \<le> i64_max then Some (int n) else None)"
| "as_i64 (Number (NegInt i)) = Some i"
| "as_i64 _ = None"

fun as_array :: "json \<Rightarrow> json list option" where
  "as_array (Array xs) = Some xs"
| "as_array _ = None"

fun as_object :: "json \<Rightarrow> (string \<times> json) list option" where
  "as_object (Object xs) = Some xs"
| "as_object _ = None"

text \<open>The value of a 64-bit signed integer, as \<open>serde_json\<close> builds it.\<close>

definition json_of_i64 :: "int \<Rightarrow> json" where
  "json_of_i64 i = (if i < 0 then Number (NegInt i) else Number (PosInt (nat i)))"

text \<open>Every object built by the sources has distinct keys.\<close>

fun json_wf :: "json \<Rightarrow> bool" where
  "json_wf (Array xs) = list_all json_wf xs"
| "json_wf (Object xs) = (distinct_keys xs \<and> list_all (\<lambda>(k, v). json_wf v) xs)"
| "json_wf _ = True"

section \<open>The canonical writer\<close>

record json_text =
  text_of_string :: "string \<Rightarrow> string"
  text_of_number :: "number \<Rightarrow> string"

fun write_canonical_value :: "json_text \<Rightarrow> json \<Rightarrow> string" where
  "write_canonical_value T Null = ''null''"
| "write_canonical_value T (Bool b) = (if b then ''true'' else ''false'')"
| "write_canonical_value T (Number n) = text_of_number T n"
| "write_canonical_value T (String s) = text_of_string T s"
| "write_canonical_value T (Array xs) =
    ''['' @ join_with CHR '','' (map (write_canonical_value T) xs) @ '']''"
| "write_canonical_value T (Object xs) =
    ''{'' @ join_with CHR '','' (map (\<lambda>k.
       text_of_string T k @ CHR '':'' #
       (case map_of xs k of Some v \<Rightarrow> write_canonical_value T v | None \<Rightarrow> []))
      (sort (map fst xs))) @ ''}''"

section \<open>Key-order normal form\<close>

fun json_norm :: "(number \<Rightarrow> number) \<Rightarrow> json \<Rightarrow> json" where
  "json_norm f (Number n) = Number (f n)"
| "json_norm f (Array xs) = Array (map (json_norm f) xs)"
| "json_norm f (Object xs) = Object (sort_key fst (map (\<lambda>(k, v). (k, json_norm f v)) xs))"
| "json_norm f v = v"

fun number_norm :: "number \<Rightarrow> number" where
  "number_norm (Float w) = (if f64_is_zero w then Float 0 else Float w)"
| "number_norm n = n"

lemma number_eq_norm: "number_eq a b \<longleftrightarrow> number_norm a = number_norm b"
  by (cases "(a, b)" rule: number_eq.cases) (auto simp: f64_is_zero_def)

lemma sort_key_fst_eq_iff:
  fixes xs ys :: "('k :: linorder \<times> 'v) list"
  assumes "distinct_keys xs" "distinct_keys ys"
  shows "sort_key fst xs = sort_key fst ys \<longleftrightarrow> map_of xs = map_of ys"
proof -
  have d: "distinct (map fst (sort_key fst zs))" if "distinct_keys zs" for zs :: "('k \<times> 'v) list"
    using that by (auto simp: distinct_map)
  have inj: "inj_on fst (set zs)" if "distinct_keys zs" for zs :: "('k \<times> 'v) list"
    using that by (simp add: distinct_map)
  have "sort_key fst xs = sort_key fst ys \<longleftrightarrow> set xs = set ys"
  proof
    assume "set xs = set ys"
    then show "sort_key fst xs = sort_key fst ys"
      using d [OF assms(1)] d [OF assms(2)] inj [OF assms(1)]
      by (intro map_sorted_distinct_set_unique [of fst]) simp_all
  qed (metis set_sort)
  then show ?thesis using assms by (simp add: map_of_inject_set)
qed

lemma distinct_keys_sort: "distinct_keys (sort_key fst xs) = distinct_keys xs"
  by (auto simp: distinct_map)

lemma map_of_map_snd: "map_of (map (\<lambda>(k, v). (k, f v)) xs) k = map_option f (map_of xs k)"
  by (induction xs) auto

lemma map_fst_map_snd: "map fst (map (\<lambda>(k, v). (k, f v)) xs) = map fst xs"
  by (induction xs) auto

lemma json_eq_object_iff:
  assumes "distinct_keys xs" "distinct_keys ys"
    and elem: "\<And>k v w. (k, v) \<in> set xs \<Longrightarrow> json_wf w \<Longrightarrow> json_eq v w \<longleftrightarrow> f v = f w"
    and wf: "list_all (\<lambda>(k, v). json_wf v) ys"
  shows "json_eq (Object xs) (Object ys) \<longleftrightarrow> map_option f \<circ> map_of xs = map_option f \<circ> map_of ys"
proof -
  have wf': "json_wf w" if "map_of ys k = Some w" for k w
    using wf map_of_SomeD [OF that] by (auto simp: list_all_iff)
  have "json_eq (Object xs) (Object ys) \<longleftrightarrow> length xs = length ys \<and>
    (\<forall>k v. map_of xs k = Some v \<longrightarrow> (\<exists>w. map_of ys k = Some w \<and> f v = f w))"
  proof -
    have "(case map_of ys k of None \<Rightarrow> False | Some w \<Rightarrow> json_eq v w) \<longleftrightarrow>
      (\<exists>w. map_of ys k = Some w \<and> f v = f w)" if "(k, v) \<in> set xs" for k v
      using elem [OF that] wf' [of k] by (cases "map_of ys k") auto
    then show ?thesis using assms(1) by (auto simp: list_all_iff)
  qed
  also have "\<dots> \<longleftrightarrow> map_option f \<circ> map_of xs = map_option f \<circ> map_of ys"
  proof
    assume r: "length xs = length ys \<and>
      (\<forall>k v. map_of xs k = Some v \<longrightarrow> (\<exists>w. map_of ys k = Some w \<and> f v = f w))"
    then have "dom (map_of xs) \<subseteq> dom (map_of ys)" by blast
    then have sub: "fst ` set xs \<subseteq> fst ` set ys" by (simp add: dom_map_of_conv_image_fst)
    have "card (fst ` set xs) = card (fst ` set ys)"
      using r assms(1,2) by (simp add: length_distinct_keys)
    then have "fst ` set xs = fst ` set ys" using sub by (simp add: card_subset_eq)
    then have none: "map_of xs k = None \<longleftrightarrow> map_of ys k = None" for k
      by (simp add: map_of_eq_None_iff)
    show "map_option f \<circ> map_of xs = map_option f \<circ> map_of ys"
    proof
      fix k
      show "(map_option f \<circ> map_of xs) k = (map_option f \<circ> map_of ys) k"
        using none [of k] conjunct2 [OF r, rule_format, of k] by (cases "map_of xs k") fastforce+
    qed
  next
    assume m: "map_option f \<circ> map_of xs = map_option f \<circ> map_of ys"
    then have "dom (map_of xs) = dom (map_of ys)"
      using dom_map_option_comp [of f "map_of xs"] dom_map_option_comp [of f "map_of ys"] by simp
    then have "fst ` set xs = fst ` set ys" by (simp add: dom_map_of_conv_image_fst)
    then have "length xs = length ys" using assms(1,2) by (simp add: length_distinct_keys)
    moreover have "\<exists>w. map_of ys k = Some w \<and> f v = f w" if "map_of xs k = Some v" for k v
      using fun_cong [OF m, of k] that by (auto simp: map_option_case split: option.splits)
    ultimately show "length xs = length ys \<and>
      (\<forall>k v. map_of xs k = Some v \<longrightarrow> (\<exists>w. map_of ys k = Some w \<and> f v = f w))" by blast
  qed
  finally show ?thesis .
qed

lemma json_norm_object_eq_iff:
  assumes "distinct_keys xs" "distinct_keys ys"
  shows "json_norm f (Object xs) = json_norm f (Object ys) \<longleftrightarrow>
    map_option (json_norm f) \<circ> map_of xs = map_option (json_norm f) \<circ> map_of ys"
  using assms by (simp add: sort_key_fst_eq_iff map_fst_map_snd fun_eq_iff map_of_map_snd del: map_map)

text \<open>Equality of values is equality of their normal forms, hence an equivalence.\<close>

lemma json_eq_iff_norm:
  "json_wf v \<Longrightarrow> json_wf w \<Longrightarrow> json_eq v w \<longleftrightarrow> json_norm number_norm v = json_norm number_norm w"
proof (induction v arbitrary: w)
  case (Number n)
  then show ?case by (cases w) (auto simp: number_eq_norm)
next
  case (Array xs)
  show ?case
  proof (cases w)
    case (Array ys)
    then show ?thesis using Array.IH Array.prems
      by (auto simp: list_all2_conv_all_nth list_eq_iff_nth_eq list_all_length)
  qed simp_all
next
  case (Object xs)
  show ?case
  proof (cases w)
    case (Object ys)
    then have d: "distinct_keys xs" "distinct_keys ys" "list_all (\<lambda>(k, v). json_wf v) ys"
      using Object.prems by simp_all
    have "json_eq v w \<longleftrightarrow> json_norm number_norm v = json_norm number_norm w"
      if "(k, v) \<in> set xs" "json_wf w" for k v w
      using Object.IH that Object.prems(1) by (fastforce simp: list_all_iff)
    from json_eq_object_iff [OF d(1,2) this d(3)] show ?thesis
      using json_norm_object_eq_iff [OF d(1,2)] Object by (simp del: json_norm.simps json_eq.simps)
  qed simp_all
next
  case Null then show ?case by (cases w) auto
next
  case (Bool b) then show ?case by (cases w) auto
next
  case (String s) then show ?case by (cases w) auto
qed

lemma json_eq_refl: "json_wf v \<Longrightarrow> json_eq v v"
  by (simp add: json_eq_iff_norm)

lemma json_eq_sym: "json_wf v \<Longrightarrow> json_wf w \<Longrightarrow> json_eq v w \<longleftrightarrow> json_eq w v"
  by (auto simp: json_eq_iff_norm)

lemma json_eq_trans:
  "json_wf u \<Longrightarrow> json_wf v \<Longrightarrow> json_wf w \<Longrightarrow> json_eq u v \<Longrightarrow> json_eq v w \<Longrightarrow> json_eq u w"
  by (simp add: json_eq_iff_norm)

section \<open>The canonical bytes determine the value up to key order\<close>

text \<open>
  What the grammar of JSON says of the texts the package prints: a string starts with a quote
  and ends at its closing quote, a number is a nonempty word over the number characters, and
  different numbers have different texts.
\<close>

definition number_chars :: "char set" where
  "number_chars = set ''0123456789+-.eE''"

definition json_text_ok :: "json_text \<Rightarrow> bool" where
  "json_text_ok T \<longleftrightarrow>
    (\<forall>s. \<exists>r. text_of_string T s = CHR 0x22 # r) \<and>
    (\<forall>s t r r'. text_of_string T s @ r = text_of_string T t @ r' \<longrightarrow> s = t \<and> r = r') \<and>
    (\<forall>n. text_of_number T n \<noteq> [] \<and> set (text_of_number T n) \<subseteq> number_chars) \<and>
    inj (text_of_number T)"

fun print_json :: "json_text \<Rightarrow> json \<Rightarrow> string" where
  "print_json T Null = ''null''"
| "print_json T (Bool b) = (if b then ''true'' else ''false'')"
| "print_json T (Number n) = text_of_number T n"
| "print_json T (String s) = text_of_string T s"
| "print_json T (Array xs) = ''['' @ join_with CHR '','' (map (print_json T) xs) @ '']''"
| "print_json T (Object xs) =
    ''{'' @ join_with CHR '','' (map (\<lambda>(k, v). text_of_string T k @ CHR '':'' # print_json T v) xs) @ ''}''"

lemma sort_map_fst: "sort (map fst xs) = map fst (sort_key fst xs)"
  by (rule properties_for_sort) simp_all

lemma write_canonical_value_print:
  "json_wf v \<Longrightarrow> write_canonical_value T v = print_json T (json_norm (\<lambda>n. n) v)"
proof (induction v)
  case (Array xs)
  then have "map (write_canonical_value T) xs = map (\<lambda>x. print_json T (json_norm (\<lambda>n. n) x)) xs"
    by (auto simp: list_all_iff)
  then show ?case by (simp add: comp_def del: map_eq_conv)
next
  case (Object xs)
  let ?ys = "map (\<lambda>(k, v). (k, json_norm (\<lambda>n. n) v)) xs"
  have d: "distinct_keys xs" using Object.prems by simp
  then have dy: "distinct_keys ?ys" by (simp add: map_fst_map_snd del: map_map)
  have val: "(case map_of xs k of Some v \<Rightarrow> write_canonical_value T v | None \<Rightarrow> []) = print_json T w"
    if "(k, w) \<in> set ?ys" for k w
  proof -
    from that obtain v where v: "(k, v) \<in> set xs" "w = json_norm (\<lambda>n. n) v" by auto
    then have "write_canonical_value T v = print_json T w"
      using Object.IH Object.prems by (fastforce simp: list_all_iff)
    then show ?thesis using d v by simp
  qed
  have keys: "sort (map fst xs) = map fst (sort_key fst ?ys)"
    by (simp only: sort_map_fst [symmetric] map_fst_map_snd)
  have "map (\<lambda>k. text_of_string T k @ CHR '':'' #
      (case map_of xs k of Some v \<Rightarrow> write_canonical_value T v | None \<Rightarrow> [])) (sort (map fst xs))
    = map (\<lambda>(k, v). text_of_string T k @ CHR '':'' # print_json T v) (sort_key fst ?ys)"
    unfolding keys map_map
  proof (intro map_cong refl)
    fix kv assume "kv \<in> set (sort_key fst ?ys)"
    moreover obtain k w where "kv = (k, w)" by fastforce
    ultimately show "((\<lambda>k. text_of_string T k @ CHR '':'' #
        (case map_of xs k of Some v \<Rightarrow> write_canonical_value T v | None \<Rightarrow> [])) \<circ> fst) kv
      = (case kv of (k, v) \<Rightarrow> text_of_string T k @ CHR '':'' # print_json T v)"
      using val [of k w] by simp
  qed
  then show ?case by simp
qed simp_all

abbreviation json_stop :: "string \<Rightarrow> bool" where
  "json_stop r \<equiv> r = [] \<or> hd r \<in> {CHR '','', CHR '']'', CHR ''}''}"

lemma json_text_okD:
  assumes "json_text_ok T"
  shows "\<exists>r. text_of_string T s = CHR 0x22 # r"
    and "text_of_string T s @ r = text_of_string T t @ r' \<Longrightarrow> s = t \<and> r = r'"
    and "text_of_number T n \<noteq> []"
    and "\<forall>c \<in> set (text_of_number T n). c \<in> number_chars"
    and "inj (text_of_number T)"
  using assms unfolding json_text_ok_def by blast+

lemma json_stop_takeWhile:
  "json_stop q \<Longrightarrow> takeWhile (\<lambda>c. c \<in> number_chars) q = []"
  by (cases q) (auto simp: number_chars_def)

lemma number_text_stop:
  assumes "json_text_ok T" "json_stop r" "json_stop r'"
    and "text_of_number T m @ r = text_of_number T n @ r'"
  shows "m = n \<and> r = r'"
proof -
  have "takeWhile (\<lambda>c. c \<in> number_chars) (text_of_number T k @ q) = text_of_number T k"
    if "json_stop q" for k q
    using takeWhile_append2 [of "text_of_number T k" "\<lambda>c. c \<in> number_chars" q]
      json_text_okD(4) [OF assms(1)] json_stop_takeWhile [OF that] by simp
  then have eq: "text_of_number T m = text_of_number T n" using assms(2-4) by metis
  then show ?thesis using assms(4) json_text_okD(5) [OF assms(1)] by (simp add: inj_eq)
qed

definition json_first :: "char set" where
  "json_first = number_chars \<union> {CHR ''n'', CHR ''t'', CHR ''f'', CHR 0x22, CHR ''['', CHR ''{''}"

lemma print_json_first:
  assumes "json_text_ok T"
  shows "\<exists>c q. print_json T v = c # q \<and> c \<in> json_first"
proof (cases v)
  case (Number n)
  obtain c q where "text_of_number T n = c # q"
    using json_text_okD(3) [OF assms] by (meson list.exhaust)
  then show ?thesis using Number json_text_okD(4) [OF assms, of n] by (simp add: json_first_def)
next
  case (String s)
  obtain q where "text_of_string T s = CHR 0x22 # q" using json_text_okD(1) [OF assms] by blast
  then show ?thesis using String by (simp add: json_first_def)
next
  case (Bool b)
  then show ?thesis by (cases b) (auto simp: json_first_def)
qed (auto simp: json_first_def)

lemma join_items:
  "join_with c (map P (z # zs)) @ e # q =
    P z @ (if zs = [] then e # q else c # join_with c (map P zs) @ e # q)"
  by (simp add: join_with_Cons)

lemma join_with_inj:
  assumes hd: "\<And>x. \<exists>c q. P x = c # q \<and> c \<in> json_first"
    and e: "e = CHR '']'' \<or> e = CHR ''}''"
  shows "(\<And>x y r r'. x \<in> set xs \<Longrightarrow> P x @ r = P y @ r' \<Longrightarrow> json_stop r \<Longrightarrow> json_stop r' \<Longrightarrow> x = y \<and> r = r') \<Longrightarrow>
    join_with CHR '','' (map P xs) @ e # r = join_with CHR '','' (map P ys) @ e # r' \<Longrightarrow> xs = ys \<and> r = r'"
proof (induction xs arbitrary: ys)
  have ne: "e \<notin> json_first" using e by (auto simp: json_first_def number_chars_def)
  have start: "P z @ q \<noteq> e # q'" for z q q' using hd [of z] ne by auto
  {
    case Nil
    show ?case
    proof (cases ys)
      case (Cons y ys')
      then show ?thesis using Nil.prems(2) start [of y, symmetric]
        unfolding Cons join_items by simp
    qed (use Nil.prems(2) in simp)
  next
    case (Cons x xs)
    have "ys \<noteq> []" using Cons.prems(2) start [of x] unfolding join_items by auto
    then obtain y ys' where ys: "ys = y # ys'" by (meson list.exhaust)
    let ?r = "if xs = [] then e # r else CHR '','' # join_with CHR '','' (map P xs) @ e # r"
    let ?r' = "if ys' = [] then e # r' else CHR '','' # join_with CHR '','' (map P ys') @ e # r'"
    have "P x @ ?r = P y @ ?r'" using Cons.prems(2) unfolding ys join_items .
    moreover have "json_stop ?r" "json_stop ?r'" using e by simp_all
    ultimately have xy: "x = y" "?r = ?r'" using Cons.prems(1) [of x ?r y ?r'] by simp_all
    have "e \<noteq> CHR '',''" using e by auto
    then have same: "xs = [] \<longleftrightarrow> ys' = []" using xy(2) by (cases "xs = []"; cases "ys' = []") simp_all
    show ?case
    proof (cases "xs = []")
      case True
      then show ?thesis using xy ys same by simp
    next
      case False
      then have "join_with CHR '','' (map P xs) @ e # r = join_with CHR '','' (map P ys') @ e # r'"
        using xy(2) same by simp
      then have "xs = ys' \<and> r = r'"
        by (rule Cons.IH [rotated]) (rule Cons.prems(1), simp_all)
      then show ?thesis using xy(1) ys by simp
    qed
  }
qed

text \<open>The first byte of a printed value tells its constructor.\<close>

fun json_tag :: "json \<Rightarrow> nat" where
  "json_tag Null = 0"
| "json_tag (Bool b) = 1"
| "json_tag (Number n) = 2"
| "json_tag (String s) = 3"
| "json_tag (Array xs) = 4"
| "json_tag (Object xs) = 5"

definition char_tag :: "char \<Rightarrow> nat" where
  "char_tag c =
    (if c = CHR ''n'' then 0 else if c = CHR ''t'' \<or> c = CHR ''f'' then 1
     else if c \<in> number_chars then 2 else if c = CHR 0x22 then 3
     else if c = CHR ''['' then 4 else 5)"

lemma char_tag_number: "c \<in> number_chars \<Longrightarrow> char_tag c = 2"
  by (auto simp: char_tag_def number_chars_def)

lemma char_tag_simps [simp]:
  "char_tag CHR ''n'' = 0" "char_tag CHR ''t'' = 1" "char_tag CHR ''f'' = 1"
  "char_tag CHR 0x22 = 3" "char_tag CHR ''['' = 4" "char_tag CHR ''{'' = 5"
  by (simp_all add: char_tag_def number_chars_def)

lemma char_tag_print_json:
  assumes "json_text_ok T"
  shows "char_tag (hd (print_json T v @ r)) = json_tag v"
proof (cases v)
  case (Number n)
  obtain c q where "text_of_number T n = c # q"
    using json_text_okD(3) [OF assms] by (meson list.exhaust)
  then show ?thesis using Number json_text_okD(4) [OF assms, of n] by (simp add: char_tag_number)
next
  case (String s)
  obtain q where "text_of_string T s = CHR 0x22 # q" using json_text_okD(1) [OF assms] by blast
  then show ?thesis using String by simp
next
  case (Bool b)
  then show ?thesis by (cases b) auto
qed auto

lemma print_entry_inj:
  assumes T: "json_text_ok T"
    and v: "\<And>w r r'. print_json T v @ r = print_json T w @ r' \<Longrightarrow> json_stop r \<Longrightarrow> json_stop r' \<Longrightarrow> v = w \<and> r = r'"
    and eq: "(text_of_string T k @ CHR '':'' # print_json T v) @ r
      = (text_of_string T l @ CHR '':'' # print_json T w) @ r'"
    and stop: "json_stop r" "json_stop r'"
  shows "k = l \<and> v = w \<and> r = r'"
proof -
  have kl: "k = l \<and> CHR '':'' # print_json T v @ r = CHR '':'' # print_json T w @ r'"
    by (rule json_text_okD(2) [OF T]) (use eq in simp)
  then have "print_json T v @ r = print_json T w @ r'" by simp
  from v [OF this stop] kl show ?thesis by simp
qed

lemma print_json_inj:
  assumes T: "json_text_ok T"
  shows "print_json T v @ r = print_json T w @ r' \<Longrightarrow> json_stop r \<Longrightarrow> json_stop r' \<Longrightarrow> v = w \<and> r = r'"
proof (induction v arbitrary: w r r')
  case (Array xs)
  then have "json_tag w = 4" using char_tag_print_json [OF T] by (metis json_tag.simps(5))
  then obtain ys where w: "w = Array ys" by (cases w) auto
  have "xs = ys \<and> r = r'"
  proof (rule join_with_inj [where P = "print_json T" and e = "CHR '']''"])
    show "\<exists>c q. print_json T x = c # q \<and> c \<in> json_first" for x by (rule print_json_first [OF T])
    show "x = y \<and> r = r'"
      if "x \<in> set xs" "print_json T x @ r = print_json T y @ r'" "json_stop r" "json_stop r'" for x y r r'
      by (rule Array.IH [OF that])
    show "join_with CHR '','' (map (print_json T) xs) @ CHR '']'' # r =
      join_with CHR '','' (map (print_json T) ys) @ CHR '']'' # r'"
      using Array.prems(1) w by simp
  qed simp
  then show ?case using w by simp
next
  case (Object xs)
  then have "json_tag w = 5" using char_tag_print_json [OF T] by (metis json_tag.simps(6))
  then obtain ys where w: "w = Object ys" by (cases w) auto
  let ?P = "\<lambda>(k, v). text_of_string T k @ CHR '':'' # print_json T v"
  have "xs = ys \<and> r = r'"
  proof (rule join_with_inj [where P = ?P and e = "CHR ''}''"])
    show "\<exists>c q. ?P x = c # q \<and> c \<in> json_first" for x
      using json_text_okD(1) [OF T, of "fst x"] by (auto simp: json_first_def split: prod.splits)
    show "x = y \<and> r = r'"
      if x: "x \<in> set xs" and eq: "?P x @ r = ?P y @ r'" and stop: "json_stop r" "json_stop r'" for x y r r'
    proof -
      obtain k v l w where kv: "x = (k, v)" "y = (l, w)" by fastforce
      have IH: "v = w \<and> r = r'"
        if "print_json T v @ r = print_json T w @ r'" "json_stop r" "json_stop r'" for w r r'
        by (rule Object.IH [OF x _ that]) (simp add: kv)
      have "k = l \<and> v = w \<and> r = r'"
        by (rule print_entry_inj [OF T IH _ stop]) (use eq kv in simp_all)
      then show ?thesis using kv by simp
    qed
    show "join_with CHR '','' (map ?P xs) @ CHR ''}'' # r = join_with CHR '','' (map ?P ys) @ CHR ''}'' # r'"
      using Object.prems(1) w by simp
  qed simp
  then show ?case using w by simp
next
  case (Number n)
  then have "json_tag w = 2" using char_tag_print_json [OF T] by (metis json_tag.simps(3))
  then obtain m where "w = Number m" by (cases w) auto
  then show ?case using Number number_text_stop [OF T Number(2,3), of n m] by simp
next
  case (String s)
  then have "json_tag w = 3" using char_tag_print_json [OF T] by (metis json_tag.simps(4))
  then obtain t where "w = String t" by (cases w) auto
  then show ?case using String(1) json_text_okD(2) [OF T, of s r t r'] by simp
next
  case Null
  then have "json_tag w = 0" using char_tag_print_json [OF T] by (metis json_tag.simps(1))
  then have "w = Null" by (cases w) auto
  then show ?case using Null(1) by simp
next
  case (Bool b)
  then have "json_tag w = 1" using char_tag_print_json [OF T] by (metis json_tag.simps(2))
  then obtain c where "w = Bool c" by (cases w) auto
  then show ?case using Bool(1) by (cases b; cases c) simp_all
qed

lemma canonical_eq_iff:
  assumes "json_text_ok T" "json_wf v" "json_wf w"
  shows "write_canonical_value T v = write_canonical_value T w \<longleftrightarrow>
    json_norm (\<lambda>n. n) v = json_norm (\<lambda>n. n) w"
  using assms print_json_inj [OF assms(1), where r = "[]" and r' = "[]"]
  by (auto simp: write_canonical_value_print)

section \<open>An instance of the text parameters\<close>

fun escape_char :: "char \<Rightarrow> string" where
  "escape_char c = (if c = CHR 0x22 \<or> c = CHR 0x5C then [CHR 0x5C, c] else [c])"

fun plain_number :: "number \<Rightarrow> string" where
  "plain_number (PosInt n) = CHR ''+'' # replicate n CHR ''1''"
| "plain_number (NegInt i) = CHR ''-'' # replicate (nat i) CHR ''1'' @ CHR ''.'' # replicate (nat (- i)) CHR ''1''"
| "plain_number (Float w) = CHR ''.'' # replicate (unat w) CHR ''1''"

definition plain_text :: json_text where
  "plain_text =
    \<lparr>text_of_string = \<lambda>s. CHR 0x22 # concat (map escape_char s) @ [CHR 0x22],
     text_of_number = plain_number\<rparr>"

lemma escape_inj:
  "concat (map escape_char s) @ CHR 0x22 # r = concat (map escape_char t) @ CHR 0x22 # r' \<Longrightarrow> s = t \<and> r = r'"
proof (induction s arbitrary: t)
  case Nil
  then show ?case by (cases t) (auto split: if_splits)
next
  case (Cons c s)
  then show ?case by (cases t) (auto split: if_splits)
qed

lemma replicate_sep_inj:
  "replicate a CHR ''1'' @ CHR ''.'' # xs = replicate b CHR ''1'' @ CHR ''.'' # ys \<Longrightarrow> a = b \<and> xs = ys"
proof (induction a arbitrary: b)
  case 0 then show ?case by (cases b) auto
next
  case (Suc a) then show ?case by (cases b) auto
qed

lemma plain_number_inj: "plain_number m = plain_number n \<Longrightarrow> m = n"
  by (cases m; cases n)
    (auto dest!: replicate_sep_inj simp: replicate_eq_replicate intro: unsigned_word_eqI)

lemma plain_number_chars: "plain_number n \<noteq> [] \<and> set (plain_number n) \<subseteq> number_chars"
  by (cases n) (auto simp: number_chars_def)

lemma json_text_ok_plain: "json_text_ok plain_text"
  unfolding json_text_ok_def
proof (intro conjI)
  show "\<forall>s t r r'. text_of_string plain_text s @ r = text_of_string plain_text t @ r' \<longrightarrow> s = t \<and> r = r'"
    by (auto simp: plain_text_def dest: escape_inj)
  show "inj (text_of_number plain_text)"
    by (rule injI) (simp add: plain_text_def plain_number_inj)
qed (use plain_number_chars in \<open>simp_all add: plain_text_def\<close>)

section \<open>Properties\<close>

text \<open>
  C31: Two well-formed values have the same canonical bytes exactly when they are equal up to the
  order of object keys, for every printer of strings and numbers that follows the grammar of
  JSON.  So the canonical form never depends on the insertion order, and two different values
  are never hashed to the same bytes.
\<close>

theorem canonical_bytes_identify_value:
  assumes "json_text_ok T" "json_wf v" "json_wf w"
  shows "write_canonical_value T v = write_canonical_value T w \<longleftrightarrow>
    json_norm (\<lambda>n. n) v = json_norm (\<lambda>n. n) w"
  using assms by (rule canonical_eq_iff)

theorem canonical_bytes_identify_value_witness:
  "write_canonical_value plain_text (Object [(''b'', Bool True), (''a'', Null)])
    = write_canonical_value plain_text (Object [(''a'', Null), (''b'', Bool True)]) \<and>
   write_canonical_value plain_text (Object [(''b'', Bool True), (''a'', Null)])
    \<noteq> write_canonical_value plain_text (Object [(''a'', Null), (''b'', Bool False)])"
  using canonical_bytes_identify_value [OF json_text_ok_plain,
      of "Object [(''b'', Bool True), (''a'', Null)]" "Object [(''a'', Null), (''b'', Bool True)]"]
    canonical_bytes_identify_value [OF json_text_ok_plain,
      of "Object [(''b'', Bool True), (''a'', Null)]" "Object [(''a'', Null), (''b'', Bool False)]"]
  by (simp add: less_eq_char_simp)

end
