(* ===== verification/Constraints.thy ===== *)
theory Constraints
  imports Glob Json
begin

text \<open>
  The constraint language of delegation grants (\<open>ConstraintExpr\<close> and \<open>lookup\<close> of
  \<open>agentguard-core/src/delegation.rs\<close>): path lookup in the request facts, the type check that
  must precede evaluation, evaluation, and the JSON form in which a child grant's constraints
  are compared with its parent's.  \<open>eval_strict\<close> is the specification: a result only when every
  fact the expression mentions is present and of the right type.
\<close>

section \<open>Constraint expressions\<close>

datatype constraint_expr =
    Equals string json
  | In string "json list"
  | GreaterThan string int
  | LessThan string int
  | Glob string string
  | And "constraint_expr list"
  | Or "constraint_expr list"
  | Not constraint_expr

text \<open>
  The walk of \<open>lookup\<close> over the bytes of the path: \<open>i\<close> the byte read, \<open>start\<close> the first byte of
  the current segment.  A segment between two dots of a valid UTF-8 path is valid UTF-8.
\<close>

function lookup_walk :: "string \<Rightarrow> json \<Rightarrow> nat \<Rightarrow> nat \<Rightarrow> json option" where
  "lookup_walk path cur start i =
    (if i < length path then
       (if path ! i = CHR ''.'' then
          (if start = i then None
           else (case get cur (take (i - start) (drop start path)) of
                   None \<Rightarrow> None
                 | Some v \<Rightarrow> lookup_walk path v (i + 1) (i + 1)))
        else lookup_walk path cur start (i + 1))
     else if start = length path then None
     else get cur (drop start path))"
  by pat_completeness auto
termination
  by (relation "measure (\<lambda>(path, cur, start, i). length path - i)") auto

declare lookup_walk.simps [simp del]

definition lookup :: "json \<Rightarrow> string \<Rightarrow> json option" where
  "lookup root path = lookup_walk path root 0 0"

fun has_typed_inputs :: "constraint_expr \<Rightarrow> json \<Rightarrow> bool" where
  "has_typed_inputs (Equals path v) root = (lookup root path \<noteq> None)"
| "has_typed_inputs (In path vs) root = (lookup root path \<noteq> None)"
| "has_typed_inputs (GreaterThan path n) root = (Option.bind (lookup root path) as_i64 \<noteq> None)"
| "has_typed_inputs (LessThan path n) root = (Option.bind (lookup root path) as_i64 \<noteq> None)"
| "has_typed_inputs (Glob path pattern) root = (Option.bind (lookup root path) as_str \<noteq> None)"
| "has_typed_inputs (And es) root = list_all (\<lambda>e. has_typed_inputs e root) es"
| "has_typed_inputs (Or es) root = list_all (\<lambda>e. has_typed_inputs e root) es"
| "has_typed_inputs (Not e) root = has_typed_inputs e root"

fun evaluate :: "constraint_expr \<Rightarrow> json \<Rightarrow> bool" where
  "evaluate (Equals path v) root =
    (case lookup root path of Some w \<Rightarrow> json_eq w v | None \<Rightarrow> False)"
| "evaluate (In path vs) root =
    (case lookup root path of Some w \<Rightarrow> list_ex (\<lambda>x. json_eq x w) vs | None \<Rightarrow> False)"
| "evaluate (GreaterThan path n) root =
    (case Option.bind (lookup root path) as_i64 of Some x \<Rightarrow> x > n | None \<Rightarrow> False)"
| "evaluate (LessThan path n) root =
    (case Option.bind (lookup root path) as_i64 of Some x \<Rightarrow> x < n | None \<Rightarrow> False)"
| "evaluate (Glob path pattern) root =
    (case Option.bind (lookup root path) as_str of Some s \<Rightarrow> glob_match pattern s | None \<Rightarrow> False)"
| "evaluate (And es) root = list_all (\<lambda>e. evaluate e root) es"
| "evaluate (Or es) root = list_ex (\<lambda>e. evaluate e root) es"
| "evaluate (Not e) root = (\<not> evaluate e root)"

text \<open>The tagged JSON form that the derived serializer gives an expression.\<close>

fun expr_to_value :: "constraint_expr \<Rightarrow> json" where
  "expr_to_value (Equals path v) =
    Object [(''op'', String ''equals''), (''path'', String path), (''value'', v)]"
| "expr_to_value (In path vs) =
    Object [(''op'', String ''in''), (''path'', String path), (''values'', Array vs)]"
| "expr_to_value (GreaterThan path n) =
    Object [(''op'', String ''greater_than''), (''path'', String path), (''value'', json_of_i64 n)]"
| "expr_to_value (LessThan path n) =
    Object [(''op'', String ''less_than''), (''path'', String path), (''value'', json_of_i64 n)]"
| "expr_to_value (Glob path pattern) =
    Object [(''op'', String ''glob''), (''path'', String path), (''pattern'', String pattern)]"
| "expr_to_value (And es) = Object [(''op'', String ''and''), (''all'', Array (map expr_to_value es))]"
| "expr_to_value (Or es) = Object [(''op'', String ''or''), (''any'', Array (map expr_to_value es))]"
| "expr_to_value (Not e) = Object [(''op'', String ''not''), (''inner'', expr_to_value e)]"

text \<open>The JSON values inside an expression have distinct object keys.\<close>

fun expr_wf :: "constraint_expr \<Rightarrow> bool" where
  "expr_wf (Equals path v) = json_wf v"
| "expr_wf (In path vs) = list_all json_wf vs"
| "expr_wf (And es) = list_all expr_wf es"
| "expr_wf (Or es) = list_all expr_wf es"
| "expr_wf (Not e) = expr_wf e"
| "expr_wf _ = True"

section \<open>Specifications\<close>

fun walk_segments :: "json \<Rightarrow> string list \<Rightarrow> json option" where
  "walk_segments cur [] = Some cur"
| "walk_segments cur (s # ss) =
    (if s = [] then None
     else case get cur s of None \<Rightarrow> None | Some v \<Rightarrow> walk_segments v ss)"

definition strict_all :: "bool option list \<Rightarrow> bool list option" where
  "strict_all rs = (if None \<in> set rs then None else Some (map the rs))"

fun eval_strict :: "constraint_expr \<Rightarrow> json \<Rightarrow> bool option" where
  "eval_strict (Equals path v) root = map_option (\<lambda>w. json_eq w v) (lookup root path)"
| "eval_strict (In path vs) root =
    map_option (\<lambda>w. \<exists>x \<in> set vs. json_eq x w) (lookup root path)"
| "eval_strict (GreaterThan path n) root =
    map_option (\<lambda>x. x > n) (Option.bind (lookup root path) as_i64)"
| "eval_strict (LessThan path n) root =
    map_option (\<lambda>x. x < n) (Option.bind (lookup root path) as_i64)"
| "eval_strict (Glob path pattern) root =
    map_option (glob_spec pattern) (Option.bind (lookup root path) as_str)"
| "eval_strict (And es) root =
    map_option (\<lambda>bs. \<forall>b \<in> set bs. b) (strict_all (map (\<lambda>e. eval_strict e root) es))"
| "eval_strict (Or es) root =
    map_option (\<lambda>bs. \<exists>b \<in> set bs. b) (strict_all (map (\<lambda>e. eval_strict e root) es))"
| "eval_strict (Not e) root = map_option HOL.Not (eval_strict e root)"

section \<open>The byte walk follows the dotted segments\<close>

lemma split_on_drop_dot:
  "i < length path \<Longrightarrow> path ! i = c \<Longrightarrow> start \<le> i \<Longrightarrow> c \<notin> set (take (i - start) (drop start path)) \<Longrightarrow>
    split_on c (drop start path) = take (i - start) (drop start path) # split_on c (drop (i + 1) path)"
proof -
  assume a: "i < length path" "path ! i = c" "start \<le> i" "c \<notin> set (take (i - start) (drop start path))"
  have "drop start path = take (i - start) (drop start path) @ drop i path"
    using a(3) by (metis append_take_drop_id drop_drop le_add_diff_inverse2)
  also have "drop i path = c # drop (i + 1) path" using a(1,2) Cons_nth_drop_Suc [of i path] by simp
  finally show ?thesis using split_on_append_sep [OF a(4)] by metis
qed

lemma lookup_walk_segments:
  "start \<le> i \<Longrightarrow> i \<le> length path \<Longrightarrow> CHR ''.'' \<notin> set (take (i - start) (drop start path)) \<Longrightarrow>
    lookup_walk path cur start i = walk_segments cur (split_on CHR ''.'' (drop start path))"
proof (induction path cur start i rule: lookup_walk.induct)
  case (1 path cur start i)
  note IH_dot = 1(1) and IH_next = 1(2) and le = 1(3) and len = 1(4) and no = 1(5)
  let ?seg = "take (i - start) (drop start path)"
  consider (dot) "i < length path" "path ! i = CHR ''.''"
    | (other) "i < length path" "path ! i \<noteq> CHR ''.''"
    | (ended) "i = length path" using len by linarith
  then show ?case
  proof cases
    case dot
    have split: "split_on CHR ''.'' (drop start path) = ?seg # split_on CHR ''.'' (drop (i + 1) path)"
      by (rule split_on_drop_dot [OF dot le no])
    have "?seg = [] \<longleftrightarrow> start = i" using le dot(1) by auto
    then show ?thesis using dot split IH_dot [OF dot]
      by (simp add: lookup_walk.simps [of path cur start i] split: option.splits)
  next
    case other
    have "take (i + 1 - start) (drop start path) = ?seg @ [path ! i]"
      using other(1) le by (simp add: Suc_diff_le take_Suc_conv_app_nth)
    then show ?thesis using other le no IH_next [OF other]
      by (simp add: lookup_walk.simps [of path cur start i])
  next
    case ended
    then have "split_on CHR ''.'' (drop start path) = [drop start path]"
      using no le by (simp add: split_on_no_sep)
    then show ?thesis using ended le
      by (auto simp: lookup_walk.simps [of path cur start "length path"] split: option.splits)
  qed
qed

lemma lookup_segments: "lookup root path = walk_segments root (split_on CHR ''.'' path)"
  unfolding lookup_def by (subst lookup_walk_segments) simp_all

section \<open>Evaluation after the type check is strict evaluation\<close>

lemma eval_strict_iff:
  "eval_strict e root = (if has_typed_inputs e root then Some (evaluate e root) else None)"
proof (induction e)
  case (And es)
  then show ?case by (auto simp: strict_all_def list_all_iff split: if_splits)
next
  case (Or es)
  then show ?case by (auto simp: strict_all_def list_all_iff list_ex_iff split: if_splits)
qed (auto simp: glob_match_iff_spec list_ex_iff split: option.splits)

section \<open>The JSON form determines the meaning\<close>

lemma json_of_i64_eq: "json_eq (json_of_i64 a) (json_of_i64 b) \<longleftrightarrow> a = b"
  by (auto simp: json_of_i64_def)

lemma json_wf_i64 [simp]: "json_wf (json_of_i64 a)"
  by (simp add: json_of_i64_def)

lemma json_wf_expr: "expr_wf e \<Longrightarrow> json_wf (expr_to_value e)"
  by (induction e) (auto simp: list_all_iff)

lemma walk_segments_wf: "json_wf root \<Longrightarrow> walk_segments root ss = Some v \<Longrightarrow> json_wf v"
proof (induction root ss rule: walk_segments.induct)
  case (2 cur s ss)
  then show ?case
    by (cases cur) (auto simp: list_all_iff dest: map_of_SomeD split: if_splits option.splits)
qed simp

lemma json_eq_cong_right:
  "json_wf u \<Longrightarrow> json_wf v \<Longrightarrow> json_wf w \<Longrightarrow> json_eq v w \<Longrightarrow> json_eq u v \<longleftrightarrow> json_eq u w"
  by (simp add: json_eq_iff_norm)

lemma json_eq_cong_left:
  "json_wf u \<Longrightarrow> json_wf v \<Longrightarrow> json_wf w \<Longrightarrow> json_eq v w \<Longrightarrow> json_eq v u \<longleftrightarrow> json_eq w u"
  by (simp add: json_eq_iff_norm)

lemma list_all2_json_eq_ex:
  "list_all2 json_eq vs ws \<Longrightarrow> list_all json_wf vs \<Longrightarrow> list_all json_wf ws \<Longrightarrow> json_wf u \<Longrightarrow>
    list_ex (\<lambda>x. json_eq x u) vs \<longleftrightarrow> list_ex (\<lambda>x. json_eq x u) ws"
  by (induction rule: list_all2_induct) (auto simp: json_eq_iff_norm)

lemma lookup_wf: "json_wf root \<Longrightarrow> lookup root path = Some v \<Longrightarrow> json_wf v"
  by (simp add: lookup_segments walk_segments_wf)

lemma list_all2_meaning:
  assumes "list_all2 (\<lambda>e f. P e = P f) es fs"
  shows "list_all P es = list_all P fs" "list_ex P es = list_ex P fs"
  using assms by (induction rule: list_all2_induct) auto

lemma expr_to_value_meaning:
  assumes root: "json_wf root"
  shows "json_eq (expr_to_value e) (expr_to_value f) \<Longrightarrow> expr_wf e \<Longrightarrow> expr_wf f \<Longrightarrow>
    evaluate e root = evaluate f root \<and> has_typed_inputs e root = has_typed_inputs f root"
proof (induction e arbitrary: f)
  case (Equals path v)
  then obtain v' where f: "f = Equals path v'" "json_eq v v'" by (cases f) auto
  then show ?case using Equals.prems lookup_wf [OF root]
    by (cases "lookup root path") (simp_all add: json_eq_cong_right [of _ v v'])
next
  case (In path vs)
  then obtain vs' where f: "f = In path vs'" "list_all2 json_eq vs vs'" by (cases f) auto
  then show ?case using In.prems lookup_wf [OF root]
    by (cases "lookup root path") (simp_all add: list_all2_json_eq_ex [of vs vs'])
next
  case (GreaterThan path n)
  then show ?case by (cases f) (auto simp: json_of_i64_eq)
next
  case (LessThan path n)
  then show ?case by (cases f) (auto simp: json_of_i64_eq)
next
  case (Glob path pat)
  then show ?case by (cases f) auto
next
  case (And es)
  then obtain fs where f: "f = And fs" "list_all2 json_eq (map expr_to_value es) (map expr_to_value fs)"
    by (cases f) auto
  have "list_all2 (\<lambda>e f. evaluate e root = evaluate f root \<and>
      has_typed_inputs e root = has_typed_inputs f root) es fs"
    using f And by (auto simp: list_all2_conv_all_nth list_all_length)
  then show ?case using f(1) list_all2_meaning [of _ es fs] by (simp add: list_all2_conv_all_nth)
next
  case (Or es)
  then obtain fs where f: "f = Or fs" "list_all2 json_eq (map expr_to_value es) (map expr_to_value fs)"
    by (cases f) auto
  have "list_all2 (\<lambda>e f. evaluate e root = evaluate f root \<and>
      has_typed_inputs e root = has_typed_inputs f root) es fs"
    using f Or by (auto simp: list_all2_conv_all_nth list_all_length)
  then show ?case using f(1) list_all2_meaning [of _ es fs] by (simp add: list_all2_conv_all_nth)
next
  case (Not e)
  then show ?case by (cases f) auto
qed

section \<open>Properties\<close>

text \<open>
  C32: A constraint grants only on complete facts.  The conjunction of the type check and of
  evaluation, which is what a grant requires, holds exactly when strict evaluation, undefined as
  soon as any mentioned fact is missing or mistyped, also below a negation, returns true.
\<close>

theorem constraint_fail_closed:
  "has_typed_inputs e root \<and> evaluate e root \<longleftrightarrow> eval_strict e root = Some True"
  by (simp add: eval_strict_iff)

text \<open>
  The byte walk of the path lookup follows the dot-separated segments of the path one object
  key at a time, and finds nothing when a segment is empty.
\<close>

theorem lookup_follows_segments:
  "lookup root path = walk_segments root (split_on CHR ''.'' path)"
  by (rule lookup_segments)

end
