(* ===== verification/AuthKeys.thy ===== *)
theory AuthKeys
  imports Prelude
begin

text \<open>
  The registry of verification keys, \<open>agentguard-core/src/auth_keys.rs\<close>: at most \<open>cap\<close> key
  identifiers, the oldest evicted first, and rotation that keeps the previous keys valid for a
  grace period.  The clock reading of a call is an argument of the operation.
\<close>

section \<open>Algorithms and keys\<close>

datatype algorithm = HS256 | RS256 | ES256 | EdDSA

definition parse_alg :: "string \<Rightarrow> algorithm option" where
  "parse_alg s =
    (if s = ''HS256'' then Some HS256
     else if s = ''RS256'' then Some RS256
     else if s = ''ES256'' then Some ES256
     else if s = ''EdDSA'' then Some EdDSA
     else None)"

fun show_alg :: "algorithm \<Rightarrow> string" where
  "show_alg HS256 = ''HS256''"
| "show_alg RS256 = ''RS256''"
| "show_alg ES256 = ''ES256''"
| "show_alg EdDSA = ''EdDSA''"

datatype key_material = Hmac string | Rsa string | Ecdsa string | Ed25519 string

record key_entry =
  ke_kid :: string
  ke_alg :: algorithm
  ke_key :: key_material
  grace_expires_at :: "instant option"

record key_registry =
  kr_inner :: "(string \<times> key_entry list) list"
  kr_order :: "string list"
  kr_cap :: nat

definition DEFAULT_KEY_KID_CAP :: nat where
  "DEFAULT_KEY_KID_CAP = 64"

section \<open>Operations\<close>

definition with_cap :: "nat \<Rightarrow> key_registry" where
  "with_cap c = \<lparr>kr_inner = [], kr_order = [], kr_cap = max c 1\<rparr>"

definition registry_new :: key_registry where
  "registry_new = with_cap DEFAULT_KEY_KID_CAP"

text \<open>The eviction loop: the front of the order leaves while the map is at its cap.\<close>

fun evict_oldest :: "nat \<Rightarrow> (string \<times> key_entry list) list \<Rightarrow> string list
    \<Rightarrow> (string \<times> key_entry list) list \<times> string list" where
  "evict_oldest c entries [] = (entries, [])"
| "evict_oldest c entries (oldest # order) =
    (if length entries \<ge> c then evict_oldest c (AList.delete oldest entries) order
     else (entries, oldest # order))"

definition reserve_kid_slot :: "key_registry \<Rightarrow> string \<Rightarrow> key_registry" where
  "reserve_kid_slot r kid =
    (if map_of (kr_inner r) kid \<noteq> None then r
     else let (entries, order) = evict_oldest (kr_cap r) (kr_inner r) (kr_order r)
          in r\<lparr>kr_inner := entries, kr_order := order @ [kid]\<rparr>)"

definition kid_entries :: "key_registry \<Rightarrow> string \<Rightarrow> key_entry list" where
  "kid_entries r kid = (case map_of (kr_inner r) kid of None \<Rightarrow> [] | Some es \<Rightarrow> es)"

definition new_entry :: "string \<Rightarrow> algorithm \<Rightarrow> key_material \<Rightarrow> key_entry" where
  "new_entry kid alg key = \<lparr>ke_kid = kid, ke_alg = alg, ke_key = key, grace_expires_at = None\<rparr>"

definition registry_add :: "key_registry \<Rightarrow> string \<Rightarrow> algorithm \<Rightarrow> key_material \<Rightarrow> key_registry" where
  "registry_add r kid alg key =
    (let r1 = reserve_kid_slot r kid;
         kept = filter (\<lambda>e. \<not> (ke_alg e = alg \<and> grace_expires_at e = None)) (kid_entries r1 kid)
     in r1\<lparr>kr_inner := AList.update kid (kept @ [new_entry kid alg key]) (kr_inner r1)\<rparr>)"

text \<open>Rotation; \<open>None\<close> is the panic of adding a grace period past the range of the clock.\<close>

definition registry_rotate ::
  "key_registry \<Rightarrow> instant \<Rightarrow> string \<Rightarrow> algorithm \<Rightarrow> key_material \<Rightarrow> duration \<Rightarrow> key_registry option" where
  "registry_rotate r now kid alg key grace =
    (let r1 = reserve_kid_slot r kid;
         old = kid_entries r1 kid
     in case instant_add now grace of
          Some t \<Rightarrow>
            Some (r1\<lparr>kr_inner := AList.update kid
              (map (\<lambda>e. e\<lparr>grace_expires_at := Some t\<rparr>) old @ [new_entry kid alg key]) (kr_inner r1)\<rparr>)
        | None \<Rightarrow>
            if old = [] then
              Some (r1\<lparr>kr_inner := AList.update kid [new_entry kid alg key] (kr_inner r1)\<rparr>)
            else None)"

definition entry_live :: "instant \<Rightarrow> key_entry \<Rightarrow> bool" where
  "entry_live now e = (case grace_expires_at e of None \<Rightarrow> True | Some t \<Rightarrow> t > now)"

definition registry_get :: "key_registry \<Rightarrow> instant \<Rightarrow> string \<Rightarrow> algorithm \<Rightarrow> key_material list" where
  "registry_get r now kid alg =
    map ke_key (filter (entry_live now) (filter (\<lambda>e. ke_alg e = alg) (kid_entries r kid)))"

definition registry_contains :: "key_registry \<Rightarrow> string \<Rightarrow> bool" where
  "registry_contains r kid \<longleftrightarrow> map_of (kr_inner r) kid \<noteq> None"

definition kid_count :: "key_registry \<Rightarrow> nat" where
  "kid_count r = length (kr_inner r)"

section \<open>Invariant\<close>

text \<open>The order queue lists exactly the identifiers of the map, once each, and the cap holds.\<close>

definition registry_inv :: "key_registry \<Rightarrow> bool" where
  "registry_inv r \<longleftrightarrow> distinct_keys (kr_inner r) \<and> distinct (kr_order r) \<and>
    set (kr_order r) = fst ` set (kr_inner r) \<and> length (kr_inner r) \<le> kr_cap r \<and> 1 \<le> kr_cap r"

lemma registry_inv_length: "registry_inv r \<Longrightarrow> length (kr_order r) = length (kr_inner r)"
  by (metis distinct_card length_map registry_inv_def set_map)

lemma evict_oldest_below: "length entries < c \<Longrightarrow> evict_oldest c entries order = (entries, order)"
  by (cases order) auto

text \<open>At the cap a new identifier evicts exactly the oldest one.\<close>

lemma evict_oldest_inv:
  assumes "registry_inv r"
  shows "evict_oldest (kr_cap r) (kr_inner r) (kr_order r) =
    (if length (kr_inner r) < kr_cap r then (kr_inner r, kr_order r)
     else (AList.delete (hd (kr_order r)) (kr_inner r), tl (kr_order r)))"
proof (cases "length (kr_inner r) < kr_cap r")
  case False
  have len: "length (kr_inner r) = kr_cap r" "kr_cap r \<ge> 1"
    using False assms by (auto simp: registry_inv_def)
  then obtain x xs where order: "kr_order r = x # xs"
    using registry_inv_length [OF assms] by (cases "kr_order r") auto
  then have "Suc (length (AList.delete x (kr_inner r))) = length (kr_inner r)"
    using assms by (intro length_delete_present) (auto simp: registry_inv_def)
  then show ?thesis using False order len by (simp add: evict_oldest_below)
qed (simp add: evict_oldest_below)

definition registry_reserved :: "key_registry \<Rightarrow> string \<Rightarrow> bool" where
  "registry_reserved r kid \<longleftrightarrow> distinct_keys (kr_inner r) \<and> distinct (kr_order r) \<and>
    set (kr_order r) = insert kid (fst ` set (kr_inner r)) \<and>
    (kid \<in> fst ` set (kr_inner r) \<or> length (kr_inner r) < kr_cap r) \<and>
    length (kr_inner r) \<le> kr_cap r \<and> 1 \<le> kr_cap r"

lemma reserve_kid_slot_reserved:
  assumes "registry_inv r"
  shows "registry_reserved (reserve_kid_slot r kid) kid"
proof (cases "map_of (kr_inner r) kid")
  case (Some es)
  then have "kid \<in> fst ` set (kr_inner r)" by (force dest: map_of_SomeD)
  then show ?thesis using assms Some
    by (auto simp: reserve_kid_slot_def registry_reserved_def registry_inv_def)
next
  case None
  then have kid: "kid \<notin> fst ` set (kr_inner r)" by (simp add: map_of_eq_None_iff)
  show ?thesis
  proof (cases "length (kr_inner r) < kr_cap r")
    case True
    then show ?thesis using assms None kid
      by (auto simp: reserve_kid_slot_def registry_reserved_def registry_inv_def evict_oldest_below)
  next
    case False
    have inv: "distinct_keys (kr_inner r)" "distinct (kr_order r)"
        "set (kr_order r) = fst ` set (kr_inner r)" "length (kr_inner r) = kr_cap r" "1 \<le> kr_cap r"
      using assms False by (auto simp: registry_inv_def)
    obtain x xs where order: "kr_order r = x # xs"
      using registry_inv_length [OF assms] inv by (cases "kr_order r") auto
    then have x: "x \<in> fst ` set (kr_inner r)" "x \<notin> set xs" "set xs = fst ` set (kr_inner r) - {x}"
      using inv by auto
    have "Suc (length (AList.delete x (kr_inner r))) = length (kr_inner r)"
      by (rule length_delete_present [OF inv(1) x(1)])
    then show ?thesis using None kid False order x inv evict_oldest_inv [OF assms]
      by (auto simp: reserve_kid_slot_def registry_reserved_def alist_simps)
  qed
qed

lemma registry_inv_update:
  "registry_reserved r kid \<Longrightarrow> registry_inv (r\<lparr>kr_inner := AList.update kid es (kr_inner r)\<rparr>)"
  by (auto simp: registry_reserved_def registry_inv_def alist_simps)

lemma registry_inv_with_cap: "registry_inv (with_cap c)"
  by (simp add: registry_inv_def with_cap_def)

lemma registry_inv_add: "registry_inv r \<Longrightarrow> registry_inv (registry_add r kid alg key)"
  by (simp add: registry_add_def Let_def registry_inv_update reserve_kid_slot_reserved)

lemma registry_inv_rotate:
  "registry_inv r \<Longrightarrow> registry_rotate r now kid alg key grace = Some r' \<Longrightarrow> registry_inv r'"
  by (auto simp: registry_rotate_def Let_def registry_inv_update reserve_kid_slot_reserved
      split: option.splits if_splits)

lemmas registry_inv_ops = registry_inv_with_cap registry_inv_add registry_inv_rotate

section \<open>What a lookup returns after an update\<close>

lemma reserve_other_kid:
  assumes "registry_inv r"
  shows "map_of (kr_inner (reserve_kid_slot r kid)) k =
    (if map_of (kr_inner r) kid = None \<and> kr_cap r \<le> kid_count r \<and> k = hd (kr_order r)
     then None else map_of (kr_inner r) k)"
  using evict_oldest_inv [OF assms] assms
  by (auto simp: reserve_kid_slot_def kid_count_def registry_inv_def Let_def alist_simps)

lemma kid_entries_update:
  "kid_entries (r\<lparr>kr_inner := AList.update kid es (kr_inner r)\<rparr>) k = (if k = kid then es else kid_entries r k)"
  by (simp add: kid_entries_def alist_simps)

lemma hd_order_present:
  "registry_inv r \<Longrightarrow> kr_cap r \<le> kid_count r \<Longrightarrow> map_of (kr_inner r) (hd (kr_order r)) \<noteq> None"
  using registry_inv_length [of r] unfolding map_of_eq_None_iff registry_inv_def kid_count_def
  by (cases "kr_order r") auto

lemma kid_entries_reserve_same:
  "registry_inv r \<Longrightarrow> kid_entries (reserve_kid_slot r kid) kid = kid_entries r kid"
  by (auto simp: kid_entries_def reserve_other_kid)

lemma kid_entries_reserve_other:
  "registry_inv r \<Longrightarrow> kid_entries (reserve_kid_slot r kid) k =
    (if map_of (kr_inner r) kid = None \<and> kr_cap r \<le> kid_count r \<and> k = hd (kr_order r)
     then [] else kid_entries r k)"
  by (auto simp: kid_entries_def reserve_other_kid)

lemma evicted_by_other:
  "registry_inv r \<Longrightarrow> map_of (kr_inner r) kid = None \<Longrightarrow> kr_cap r \<le> kid_count r \<Longrightarrow> kid \<noteq> hd (kr_order r)"
  using hd_order_present by metis

definition evicts :: "key_registry \<Rightarrow> string \<Rightarrow> string \<Rightarrow> bool" where
  "evicts r kid k \<longleftrightarrow> \<not> registry_contains r kid \<and> kr_cap r \<le> kid_count r \<and> k = hd (kr_order r)"

lemma kid_entries_reserve:
  "registry_inv r \<Longrightarrow> kid_entries (reserve_kid_slot r kid) k = (if evicts r kid k then [] else kid_entries r k)"
  by (simp add: kid_entries_reserve_other evicts_def registry_contains_def)

lemma evicts_self: "registry_inv r \<Longrightarrow> \<not> evicts r kid kid"
  using hd_order_present by (auto simp: evicts_def registry_contains_def)

section \<open>Sequences of operations\<close>

datatype registry_op =
    OpAdd string algorithm key_material
  | OpRotate instant string algorithm key_material duration

fun registry_step :: "registry_op \<Rightarrow> key_registry \<Rightarrow> key_registry option" where
  "registry_step (OpAdd kid alg key) r = Some (registry_add r kid alg key)"
| "registry_step (OpRotate now kid alg key grace) r = registry_rotate r now kid alg key grace"

fun registry_run :: "registry_op list \<Rightarrow> key_registry \<Rightarrow> key_registry option" where
  "registry_run [] r = Some r"
| "registry_run (p # ps) r = Option.bind (registry_step p r) (registry_run ps)"

lemma reserve_cap [simp]: "kr_cap (reserve_kid_slot r kid) = kr_cap r"
  by (simp add: reserve_kid_slot_def split: prod.splits)

lemma registry_step_cap: "registry_step p r = Some r' \<Longrightarrow> kr_cap r' = kr_cap r"
  by (cases p) (auto simp: registry_add_def registry_rotate_def Let_def split: option.splits if_splits)

lemma registry_run_inv:
  "registry_run ps r = Some r' \<Longrightarrow> registry_inv r \<Longrightarrow> registry_inv r' \<and> kr_cap r' = kr_cap r"
proof (induction ps arbitrary: r)
  case (Cons p ps)
  then obtain r1 where r1: "registry_step p r = Some r1" "registry_run ps r1 = Some r'"
    by (auto simp: Option.bind_eq_Some_conv)
  then have "registry_inv r1" using Cons.prems(2) by (cases p) (auto intro: registry_inv_ops)
  then show ?case using Cons.IH r1 registry_step_cap by metis
qed simp

section \<open>Properties\<close>

text \<open>
  C39: After any sequence of registrations and rotations on a fresh registry, the number of key
  identifiers never exceeds the cap, and the eviction queue lists each registered identifier
  exactly once and nothing else.
\<close>

theorem registry_bounded:
  assumes "registry_run ops (with_cap c) = Some r"
  shows "kid_count r \<le> max c 1 \<and> distinct (kr_order r) \<and>
    (\<forall>kid. kid \<in> set (kr_order r) \<longleftrightarrow> registry_contains r kid)"
proof -
  have "registry_inv r \<and> kr_cap r = max c 1"
    using registry_run_inv [OF assms registry_inv_with_cap] by (simp add: with_cap_def)
  then show ?thesis
    by (auto simp: registry_inv_def kid_count_def registry_contains_def map_of_eq_None_iff)
qed

theorem registry_bounded_witness:
  "\<exists>r. registry_run [OpAdd ''a'' EdDSA (Ed25519 ''x''), OpAdd ''b'' EdDSA (Ed25519 ''y''),
        OpRotate 5 ''b'' EdDSA (Ed25519 ''z'') 10] (with_cap 1) = Some r \<and>
      kid_count r \<le> 1 \<and> \<not> registry_contains r ''a'' \<and> kr_order r = [''b'']"
proof -
  let ?ops = "[OpAdd ''a'' EdDSA (Ed25519 ''x''), OpAdd ''b'' EdDSA (Ed25519 ''y''),
    OpRotate 5 ''b'' EdDSA (Ed25519 ''z'') 10]"
  obtain r where r: "registry_run ?ops (with_cap 1) = Some r" "kr_order r = [''b'']"
      "\<not> registry_contains r ''a''"
    by (simp add: registry_add_def registry_rotate_def reserve_kid_slot_def with_cap_def kid_entries_def
        instant_add_def instant_limit_def registry_contains_def Let_def)
  then show ?thesis using registry_bounded [OF r(1)] by auto
qed

text \<open>
  What a lookup returns after a key is registered: for the same identifier and algorithm the
  keys still in their grace period followed by the new key; for another algorithm what it
  returned before; for another identifier what it returned before, except that an identifier new
  to a full registry evicts the oldest one.
\<close>

theorem registry_get_after_add:
  assumes "registry_inv r"
  shows "registry_get (registry_add r kid alg key) now k a =
    (if k = kid then
       (if a = alg
        then map ke_key (filter (\<lambda>e. entry_live now e \<and> ke_alg e = alg \<and> grace_expires_at e \<noteq> None)
               (kid_entries r kid)) @ [key]
        else registry_get r now kid a)
     else if evicts r kid k then [] else registry_get r now k a)"
proof -
  have "kid_entries (registry_add r kid alg key) k =
      (if k = kid then filter (\<lambda>e. \<not> (ke_alg e = alg \<and> grace_expires_at e = None)) (kid_entries r kid)
           @ [new_entry kid alg key]
       else if evicts r kid k then [] else kid_entries r k)"
    using assms by (simp add: registry_add_def Let_def kid_entries_update kid_entries_reserve evicts_self)
  then show ?thesis
    by (auto simp: registry_get_def entry_live_def new_entry_def conj_ac intro!: filter_cong arg_cong [where f = "map ke_key"])
qed

theorem registry_get_after_add_witness:
  "registry_get (registry_add (with_cap 2) ''a'' EdDSA (Ed25519 ''x'')) 7 ''a'' EdDSA = [Ed25519 ''x'']"
  using registry_get_after_add [OF registry_inv_with_cap, of 2 "''a''" EdDSA "Ed25519 ''x''" 7 "''a''" EdDSA]
  by (simp add: kid_entries_def with_cap_def)

text \<open>
  What a lookup returns after a rotation: until the grace period ends, every key the
  identifier held before, and always the new key.
\<close>

theorem registry_get_after_rotate:
  assumes "registry_inv r" "registry_rotate r now kid alg key grace = Some r'" "now + grace < instant_limit"
  shows "registry_get r' t kid a =
    (if t < now + grace then map ke_key (filter (\<lambda>e. ke_alg e = a) (kid_entries r kid)) else [])
      @ (if a = alg then [key] else [])"
proof -
  have "kid_entries r' kid =
    map (\<lambda>e. e\<lparr>grace_expires_at := Some (now + grace)\<rparr>) (kid_entries r kid) @ [new_entry kid alg key]"
    using assms by (auto simp: registry_rotate_def instant_add_def Let_def kid_entries_update
        kid_entries_reserve evicts_self)
  moreover have "filter (\<lambda>e. ke_alg e = a) (map (\<lambda>e. e\<lparr>grace_expires_at := Some (now + grace)\<rparr>) es)
    = map (\<lambda>e. e\<lparr>grace_expires_at := Some (now + grace)\<rparr>) (filter (\<lambda>e. ke_alg e = a) es)" for es
    by (simp add: filter_map comp_def)
  ultimately show ?thesis
    by (simp add: registry_get_def entry_live_def new_entry_def filter_map comp_def)
qed

theorem registry_get_after_rotate_witness:
  "\<exists>r'. registry_rotate (registry_add (with_cap 2) ''a'' EdDSA (Ed25519 ''x'')) 5 ''a'' EdDSA (Ed25519 ''y'') 10 = Some r'
    \<and> registry_get r' 14 ''a'' EdDSA = [Ed25519 ''x'', Ed25519 ''y'']
    \<and> registry_get r' 15 ''a'' EdDSA = [Ed25519 ''y'']"
proof -
  let ?r = "registry_add (with_cap 2) ''a'' EdDSA (Ed25519 ''x'')"
  obtain r' where r': "registry_rotate ?r 5 ''a'' EdDSA (Ed25519 ''y'') 10 = Some r'"
    by (auto simp: registry_rotate_def instant_add_def instant_limit_def Let_def)
  have ents: "kid_entries ?r ''a'' = [new_entry ''a'' EdDSA (Ed25519 ''x'')]"
    by (simp add: registry_add_def Let_def kid_entries_def reserve_kid_slot_def with_cap_def)
  have inv: "registry_inv ?r" by (intro registry_inv_ops)
  show ?thesis using r' ents registry_get_after_rotate [OF inv r', of 14 EdDSA]
      registry_get_after_rotate [OF inv r', of 15 EdDSA]
    by (simp add: instant_limit_def new_entry_def)
qed

text \<open>
  Rotation stamps a new grace period on every entry of the identifier, also on one whose grace
  period is over: a key that no longer verifies anything is accepted again after the next
  rotation.
\<close>

theorem rotate_revives_expired_key:
  "\<exists>r1 r2. registry_rotate (registry_add (with_cap 2) ''a'' EdDSA (Ed25519 ''old'')) 0 ''a'' EdDSA (Ed25519 ''mid'') 10 = Some r1
    \<and> registry_get r1 100 ''a'' EdDSA = [Ed25519 ''mid'']
    \<and> registry_rotate r1 100 ''a'' EdDSA (Ed25519 ''new'') 10 = Some r2
    \<and> registry_get r2 105 ''a'' EdDSA = [Ed25519 ''old'', Ed25519 ''mid'', Ed25519 ''new'']"
  by (simp add: registry_add_def registry_rotate_def registry_get_def entry_live_def new_entry_def
      reserve_kid_slot_def with_cap_def kid_entries_def instant_add_def instant_limit_def Let_def)

end
