(* ===== verification/CoreError.thy ===== *)
theory CoreError
  imports Prelude
begin

text \<open>The error values of \<open>agentguard-core/src/error.rs\<close>.\<close>

datatype core_error =
    Io string
  | JsonError string
  | PolicyParse string string
  | Schema string
  | InvalidPrincipal string
  | InvalidResource string
  | InvalidContext string
  | InvalidToken string
  | TokenExpired string
  | TokenRevoked string
  | TokenSignature string
  | TokenNotYetValid string
  | Validation string
  | EntitiesError string
  | Walk string
  | Other string

type_synonym 'a core_result = "core_error + 'a"

end
