(* ===== verification/Delegation.thy ===== *)
theory Delegation
  imports Constraints AuthKeys CoreError
begin

text \<open>
  Delegation grants, \<open>agentguard-core/src/delegation.rs\<close>: minting, attenuation, the compact JWS
  form, verification against the registered keys, and the check of a verified grant against a
  request.

  Base64, the JSON text form, the derived (de)serializer of the claims and Ed25519 come from
  packages, so they are the fields of a parameter record, \<open>jws_env\<close>; \<open>jws_env_ok\<close> names what
  their documentation promises.  A decoder returns the text of its error on the left.
\<close>

section \<open>Data\<close>

datatype act_claim = ActClaim (act_sub: string) (act_iss: "string option") (act_act: "act_claim option")

record delegation_claims =
  iss :: string
  sub :: string
  aud :: string
  iat :: int
  exp :: int
  nbf :: "int option"
  jti :: string
  allowed_actions :: "string list"
  resource_patterns :: "string list"
  act :: "act_claim option"
  constraints :: "constraint_expr list option"
  extra :: "(string \<times> json) list"

record delegation_spec =
  spec_sub :: string
  spec_aud :: string
  spec_allowed_actions :: "string list"
  spec_resource_patterns :: "string list"
  spec_constraints :: "constraint_expr list option"
  spec_ttl_secs :: nat

record delegation_signer =
  ds_key :: string
  ds_key_id :: string

record delegation_token =
  dt_claims :: delegation_claims
  dt_jws :: string

record verified_delegation =
  vd_claims :: delegation_claims
  vd_kid :: string
  vd_alg :: algorithm
  vd_verifying_key :: string

record delegation_verifier =
  dv_keys :: "(string \<times> (algorithm \<times> string)) list"
  dv_clock_skew :: int

text \<open>The packages the module calls.\<close>

record jws_env =
  b64_encode :: "string \<Rightarrow> string"
  b64_decode :: "string \<Rightarrow> string + string"
  json_to_vec :: "json \<Rightarrow> string + string"
  json_from_slice :: "string \<Rightarrow> string + json"
  claims_to_vec :: "delegation_claims \<Rightarrow> string + string"
  claims_from_slice :: "string \<Rightarrow> string + delegation_claims"
  ed_public :: "string \<Rightarrow> string"
  ed_sign :: "string \<Rightarrow> string \<Rightarrow> string"
  ed_verify :: "string \<Rightarrow> string \<Rightarrow> string \<Rightarrow> bool"
  ed_key_parse :: "string \<Rightarrow> string + string"
  ed_sig_parse :: "string \<Rightarrow> string + string"
  debug_str :: "string \<Rightarrow> string"

definition MAX_DELEGATION_TOKEN_BYTES :: nat where
  "MAX_DELEGATION_TOKEN_BYTES = 64 * 1024"

definition delegation_typ :: string where
  "delegation_typ = ''agentguard-delegation+jwt''"

section \<open>Signing\<close>

definition signer_generate :: "string \<Rightarrow> string \<Rightarrow> delegation_signer" where
  "signer_generate key uuid = \<lparr>ds_key = key, ds_key_id = ''agent-'' @ take 8 uuid\<rparr>"

definition signer_from_bytes :: "string \<Rightarrow> delegation_signer core_result" where
  "signer_from_bytes bytes =
    (if length bytes \<noteq> 32 then Inl (InvalidToken ''ed25519 key must be 32 bytes'')
     else Inr \<lparr>ds_key = bytes, ds_key_id = ''imported''\<rparr>)"

definition set_key_id :: "delegation_signer \<Rightarrow> string \<Rightarrow> delegation_signer" where
  "set_key_id s kid = s\<lparr>ds_key_id := kid\<rparr>"

definition jws_header :: "string \<Rightarrow> json" where
  "jws_header kid =
    Object [(''alg'', String ''EdDSA''), (''typ'', String delegation_typ), (''kid'', String kid)]"

definition sign_jws :: "jws_env \<Rightarrow> delegation_signer \<Rightarrow> delegation_claims \<Rightarrow> delegation_token core_result" where
  "sign_jws E s claims =
    and_then (map_err JsonError (json_to_vec E (jws_header (ds_key_id s)))) (\<lambda>header.
    let header_b64 = b64_encode E header in
    and_then (map_err JsonError (claims_to_vec E claims)) (\<lambda>payload.
    let payload_b64 = b64_encode E payload;
        signing_input = header_b64 @ ''.'' @ payload_b64;
        sig = ed_sign E (ds_key s) signing_input;
        sig_b64 = b64_encode E sig
    in Inr \<lparr>dt_claims = claims, dt_jws = signing_input @ ''.'' @ sig_b64\<rparr>))"

text \<open>
  Minting at time \<open>now\<close> with a fresh identifier \<open>uuid\<close>; the sum of the current time and the
  lifetime wraps.
\<close>

definition mint_with ::
  "jws_env \<Rightarrow> delegation_signer \<Rightarrow> int \<Rightarrow> string \<Rightarrow> string \<Rightarrow> string \<Rightarrow> string \<Rightarrow> string list \<Rightarrow> string list
    \<Rightarrow> nat \<Rightarrow> (delegation_claims \<Rightarrow> delegation_claims) \<Rightarrow> delegation_token core_result" where
  "mint_with E s now uuid c_iss c_sub c_aud actions patterns ttl_secs mutate =
    sign_jws E s (mutate
      \<lparr>iss = c_iss, sub = c_sub, aud = c_aud, iat = now,
       exp = wrap_i64 (now + wrap_i64 (int ttl_secs)), nbf = None, jti = uuid,
       allowed_actions = actions, resource_patterns = patterns,
       act = None, constraints = None, extra = []\<rparr>)"

definition mint ::
  "jws_env \<Rightarrow> delegation_signer \<Rightarrow> int \<Rightarrow> string \<Rightarrow> string \<Rightarrow> string \<Rightarrow> string \<Rightarrow> string list \<Rightarrow> string list
    \<Rightarrow> nat \<Rightarrow> delegation_token core_result" where
  "mint E s now uuid c_iss c_sub c_aud actions patterns ttl_secs =
    mint_with E s now uuid c_iss c_sub c_aud actions patterns ttl_secs (\<lambda>c. c)"

definition action_outside :: "string list \<Rightarrow> string list \<Rightarrow> bool" where
  "action_outside child parent = list_ex (\<lambda>a. \<not> list_ex (\<lambda>p. p = a) parent) child"

definition resource_outside :: "string list \<Rightarrow> string list \<Rightarrow> bool" where
  "resource_outside child parent =
    list_ex (\<lambda>c. if CHR ''*'' \<in> set c then \<not> list_ex (\<lambda>p. p = c) parent
                else \<not> list_ex (\<lambda>p. glob_match p c) parent) child"

definition constraint_dropped :: "constraint_expr list \<Rightarrow> constraint_expr list \<Rightarrow> bool" where
  "constraint_dropped child parent =
    list_ex (\<lambda>p. \<not> list_ex (\<lambda>c. json_eq c p) (map expr_to_value child)) (map expr_to_value parent)"

definition mint_attenuated ::
  "jws_env \<Rightarrow> delegation_signer \<Rightarrow> int \<Rightarrow> string \<Rightarrow> verified_delegation \<Rightarrow> delegation_spec
    \<Rightarrow> delegation_token core_result" where
  "mint_attenuated E s now uuid parent spec =
    (let pc = vd_claims parent in
     if ds_key_id s \<noteq> vd_kid parent \<or> ed_public E (ds_key s) \<noteq> vd_verifying_key parent then
       Inl (InvalidToken ''child grant must be signed by the verified parent key'')
     else if exp pc \<le> now then
       Inl (InvalidToken ''cannot delegate from an expired parent grant'')
     else if int (spec_ttl_secs spec) > i64_max then
       Inl (InvalidToken ''child grant TTL exceeds supported timestamp range'')
     else case checked_add now (int (spec_ttl_secs spec)) of
       None \<Rightarrow> Inl (InvalidToken ''child grant expiry overflows timestamp'')
     | Some c_exp \<Rightarrow>
       if c_exp > exp pc then
         Inl (InvalidToken ''child grant TTL exceeds parent grant lifetime'')
       else if action_outside (spec_allowed_actions spec) (allowed_actions pc) then
         Inl (InvalidToken ''child grant contains an action outside the parent scope'')
       else if resource_outside (spec_resource_patterns spec) (resource_patterns pc) then
         Inl (InvalidToken ''child grant contains a resource outside the parent scope'')
       else and_then
         (case constraints pc of
            None \<Rightarrow> Inr ()
          | Some pcs \<Rightarrow>
            (case spec_constraints spec of
               None \<Rightarrow> Inl (InvalidToken ''child grant cannot remove parent constraints'')
             | Some ccs \<Rightarrow>
               if constraint_dropped ccs pcs then
                 Inl (InvalidToken ''child grant cannot remove or change parent constraints'')
               else Inr ())) (\<lambda>_.
       if (case nbf pc of None \<Rightarrow> False | Some n \<Rightarrow> n \<ge> c_exp) then
         Inl (InvalidToken ''child grant expires before its inherited not-before time'')
       else sign_jws E s
         \<lparr>iss = sub pc, sub = spec_sub spec, aud = spec_aud spec, iat = now, exp = c_exp,
          nbf = nbf pc, jti = uuid,
          allowed_actions = spec_allowed_actions spec,
          resource_patterns = spec_resource_patterns spec,
          act = Some (ActClaim (sub pc) (Some (iss pc)) (act pc)),
          constraints = spec_constraints spec, extra = []\<rparr>))"

section \<open>Parsing\<close>

definition token_parse :: "jws_env \<Rightarrow> string \<Rightarrow> delegation_token core_result" where
  "token_parse E s =
    (if length s > MAX_DELEGATION_TOKEN_BYTES then
       Inl (InvalidToken (''delegation token exceeds the '' @ show_nat MAX_DELEGATION_TOKEN_BYTES @ ''-byte limit''))
     else case split_on CHR ''.'' s of
       [header_b64, payload_b64, sig_b64] \<Rightarrow>
         and_then (map_err (\<lambda>e. InvalidToken (''header b64: '' @ e)) (b64_decode E header_b64)) (\<lambda>header_bytes.
         and_then (map_err (\<lambda>e. InvalidToken (''header json: '' @ e)) (json_from_slice E header_bytes)) (\<lambda>header.
         and_then (ok_or (InvalidToken ''missing alg'') (Option.bind (get header ''alg'') as_str)) (\<lambda>_.
         and_then (map_err (\<lambda>e. InvalidToken (''payload b64: '' @ e)) (b64_decode E payload_b64)) (\<lambda>payload_bytes.
         and_then (map_err (\<lambda>e. InvalidToken (''payload json: '' @ e)) (claims_from_slice E payload_bytes)) (\<lambda>claims.
         and_then (map_err (\<lambda>e. InvalidToken (''sig b64: '' @ e)) (b64_decode E sig_b64)) (\<lambda>sig.
         if length sig \<noteq> 64 then
           Inl (TokenSignature (''ed25519 signature must be 64 bytes, got '' @ show_nat (length sig)))
         else Inr \<lparr>dt_claims = claims, dt_jws = s\<rparr>))))))
     | _ \<Rightarrow> Inl (InvalidToken ''JWS must have 3 parts''))"

section \<open>Verified grants\<close>

definition allows :: "verified_delegation \<Rightarrow> string \<Rightarrow> string \<Rightarrow> string \<Rightarrow> json \<Rightarrow> bool" where
  "allows vd subject action resource request_facts \<longleftrightarrow>
    sub (vd_claims vd) = subject \<and>
    list_ex (\<lambda>allowed. allowed = action) (allowed_actions (vd_claims vd)) \<and>
    list_ex (\<lambda>pattern. glob_match pattern resource) (resource_patterns (vd_claims vd)) \<and>
    (case constraints (vd_claims vd) of
       None \<Rightarrow> True
     | Some es \<Rightarrow> list_all (\<lambda>e. has_typed_inputs e request_facts \<and> evaluate e request_facts) es)"

section \<open>The verifier\<close>

definition verifier_new :: delegation_verifier where
  "verifier_new = \<lparr>dv_keys = [], dv_clock_skew = 60\<rparr>"

definition set_clock_skew_seconds :: "delegation_verifier \<Rightarrow> int \<Rightarrow> delegation_verifier" where
  "set_clock_skew_seconds V secs = V\<lparr>dv_clock_skew := max secs 0\<rparr>"

definition verifier_add_key ::
  "jws_env \<Rightarrow> delegation_verifier \<Rightarrow> string \<Rightarrow> algorithm \<Rightarrow> string \<Rightarrow> delegation_verifier core_result" where
  "verifier_add_key E V kid alg raw =
    (case alg of
       EdDSA \<Rightarrow>
         if length raw \<noteq> 32 then
           Inl (Other (''ed25519 pubkey for kid '' @ debug_str E kid @ '' must be 32 bytes, got ''
             @ show_nat (length raw)))
         else and_then (map_err (\<lambda>e. Other (''ed25519 key parse: '' @ e)) (ed_key_parse E raw)) (\<lambda>key.
           Inr (V\<lparr>dv_keys := AList.update kid (alg, key) (dv_keys V)\<rparr>))
     | _ \<Rightarrow> Inl (Other (''alg '' @ show_alg alg @ '' not yet supported for verification'')))"

definition verifier_clear :: "delegation_verifier \<Rightarrow> delegation_verifier" where
  "verifier_clear V = V\<lparr>dv_keys := []\<rparr>"

definition verifier_key_count :: "delegation_verifier \<Rightarrow> nat" where
  "verifier_key_count V = length (dv_keys V)"

definition verify_ed25519 :: "jws_env \<Rightarrow> string \<Rightarrow> string \<Rightarrow> string \<Rightarrow> unit core_result" where
  "verify_ed25519 E verifying_key signing_input signature =
    (if length signature \<noteq> 64 then
       Inl (TokenSignature (''ed25519 signature must be 64 bytes, got '' @ show_nat (length signature)))
     else and_then (map_err (\<lambda>e. TokenSignature (''ed25519 sig parse: '' @ e)) (ed_sig_parse E signature)) (\<lambda>sig.
       if ed_verify E verifying_key signing_input sig then Inr ()
       else Inl (TokenSignature ''ed25519 signature verification failed'')))"

text \<open>Step 2 of \<open>verify\<close>: the header's algorithm and key identifier, with their guards.\<close>

definition check_header :: "json \<Rightarrow> (algorithm \<times> string) core_result" where
  "check_header header =
    and_then (ok_or (InvalidToken ''missing alg'') (Option.bind (get header ''alg'') as_str)) (\<lambda>alg_str.
    and_then (ok_or (InvalidToken ''missing kid in header'') (Option.bind (get header ''kid'') as_str)) (\<lambda>kid.
    if trim kid = [] then Inl (InvalidToken ''empty kid in header'')
    else if Option.bind (get header ''typ'') as_str \<noteq> Some delegation_typ then
      Inl (InvalidToken ''unexpected or missing delegation token typ'')
    else if get header ''crit'' \<noteq> None
         \<or> (case get header ''b64'' of None \<Rightarrow> False | Some v \<Rightarrow> v \<noteq> Bool True) then
      Inl (InvalidToken ''unsupported critical or unencoded JWS header parameter'')
    else and_then (ok_or (InvalidToken (''unsupported alg: '' @ alg_str)) (parse_alg alg_str)) (\<lambda>alg.
      if alg = HS256 then Inl (TokenSignature ''HS256 is not supported for delegation tokens'')
      else Inr (alg, kid))))"

text \<open>Steps 6 and 7 of \<open>verify\<close>: identities, times and audience.\<close>

definition check_delegation_claims :: "delegation_claims \<Rightarrow> int \<Rightarrow> string \<Rightarrow> int \<Rightarrow> unit core_result" where
  "check_delegation_claims claims skew expected_aud now =
    (if trim (iss claims) = [] \<or> trim (sub claims) = [] \<or> trim (aud claims) = [] \<or> trim (jti claims) = [] then
       Inl (InvalidToken ''iss, sub, aud, and jti must be non-empty'')
     else if exp claims \<le> iat claims \<or> (case nbf claims of None \<Rightarrow> False | Some n \<Rightarrow> n \<ge> exp claims) then
       Inl (InvalidToken ''time claims must satisfy iat < exp and nbf < exp'')
     else let latest_issued_at = saturating_add now skew in
     if iat claims > latest_issued_at then Inl (TokenNotYetValid (show_int (iat claims)))
     else if saturating_add (exp claims) skew \<le> now then Inl (TokenExpired (show_int (exp claims)))
     else case (case nbf claims of Some n \<Rightarrow> if n > latest_issued_at then Some n else None | None \<Rightarrow> None) of
       Some n \<Rightarrow> Inl (TokenNotYetValid (show_int n))
     | None \<Rightarrow>
       if aud claims \<noteq> expected_aud then
         Inl (TokenSignature (''audience mismatch: expected '' @ expected_aud @ '', got '' @ aud claims))
       else Inr ())"

definition verify ::
  "jws_env \<Rightarrow> delegation_verifier \<Rightarrow> string \<Rightarrow> string \<Rightarrow> int \<Rightarrow> verified_delegation core_result" where
  "verify E V token expected_aud now =
    and_then (token_parse E token) (\<lambda>parsed.
    let parts = split_on CHR ''.'' token in
    and_then (map_err (\<lambda>e. InvalidToken (''header b64: '' @ e)) (b64_decode E (parts ! 0))) (\<lambda>header_bytes.
    and_then (map_err (\<lambda>e. InvalidToken (''header json: '' @ e)) (json_from_slice E header_bytes)) (\<lambda>header.
    and_then (check_header header) (\<lambda>(alg, kid).
    and_then (ok_or (TokenSignature (''unknown kid: '' @ kid)) (map_of (dv_keys V) kid)) (\<lambda>(registered_alg, verifying_key).
    if alg \<noteq> registered_alg then
      Inl (TokenSignature (''algorithm mismatch for kid '' @ kid @ '': token='' @ show_alg alg
        @ '', registered='' @ show_alg registered_alg))
    else
      let signing_input = parts ! 0 @ ''.'' @ parts ! 1 in
      and_then (map_err (\<lambda>e. TokenSignature (''sig b64: '' @ e)) (b64_decode E (parts ! 2))) (\<lambda>sig_bytes.
      and_then (verify_ed25519 E verifying_key signing_input sig_bytes) (\<lambda>_.
      and_then (check_delegation_claims (dt_claims parsed) (dv_clock_skew V) expected_aud now) (\<lambda>_.
      Inr \<lparr>vd_claims = dt_claims parsed, vd_kid = kid, vd_alg = alg, vd_verifying_key = verifying_key\<rparr>))))))))"

section \<open>Narrowing\<close>

lemma resource_outside_covered:
  "\<not> resource_outside child parent \<longleftrightarrow> (\<forall>c \<in> set child. glob.covered parent c)"
  by (auto simp: resource_outside_def list_ex_iff glob.covered_def)

lemma action_outside_subset: "\<not> action_outside child parent \<longleftrightarrow> set child \<subseteq> set parent"
  by (auto simp: action_outside_def list_ex_iff)

definition constraints_hold :: "constraint_expr list \<Rightarrow> json \<Rightarrow> bool" where
  "constraints_hold es facts = list_all (\<lambda>e. has_typed_inputs e facts \<and> evaluate e facts) es"

lemma constraint_dropped_hold:
  assumes "\<not> constraint_dropped child parent" "constraints_hold child facts"
    and "json_wf facts" "list_all expr_wf child" "list_all expr_wf parent"
  shows "constraints_hold parent facts"
  unfolding constraints_hold_def list_all_iff
proof
  fix p assume p: "p \<in> set parent"
  then obtain c where c: "c \<in> set child" "json_eq (expr_to_value c) (expr_to_value p)"
    using assms(1) by (auto simp: constraint_dropped_def list_ex_iff)
  then have "evaluate c facts = evaluate p facts \<and> has_typed_inputs c facts = has_typed_inputs p facts"
    using assms(3-5) p by (intro expr_to_value_meaning) (auto simp: list_all_iff)
  then show "has_typed_inputs p facts \<and> evaluate p facts"
    using assms(2) c(1) by (auto simp: constraints_hold_def list_all_iff)
qed

text \<open>One set of claims narrows another.\<close>

definition narrows :: "delegation_claims \<Rightarrow> delegation_claims \<Rightarrow> bool" where
  "narrows c p \<longleftrightarrow>
    exp c \<le> exp p \<and> nbf c = nbf p \<and> iss c = sub p \<and>
    act c = Some (ActClaim (sub p) (Some (iss p)) (act p)) \<and>
    set (allowed_actions c) \<subseteq> set (allowed_actions p) \<and>
    (\<forall>r \<in> set (resource_patterns c). glob.covered (resource_patterns p) r) \<and>
    (case constraints p of None \<Rightarrow> True
     | Some pcs \<Rightarrow> (case constraints c of None \<Rightarrow> False | Some ccs \<Rightarrow> \<not> constraint_dropped ccs pcs))"

lemma sign_jws_claims: "sign_jws E s claims = Inr tok \<Longrightarrow> dt_claims tok = claims"
  by (auto simp: sign_jws_def Let_def result_simps)

lemma mint_attenuated_Inr:
  assumes "mint_attenuated E s now uuid parent spec = Inr tok"
  shows "narrows (dt_claims tok) (vd_claims parent)"
    and "ds_key_id s = vd_kid parent" and "ed_public E (ds_key s) = vd_verifying_key parent"
    and "iat (dt_claims tok) = now" and "now < exp (vd_claims parent)"
    and "exp (dt_claims tok) = now + int (spec_ttl_secs spec)"
    and "constraints (dt_claims tok) = spec_constraints spec"
    and "sub (dt_claims tok) = spec_sub spec" and "aud (dt_claims tok) = spec_aud spec"
  using assms unfolding mint_attenuated_def Let_def
  by (auto simp: result_simps narrows_def i64_simps action_outside_subset resource_outside_covered
      split: if_splits option.splits dest!: sign_jws_claims)

lemma mint_attenuated_signed:
  assumes "mint_attenuated E s now uuid parent spec = Inr tok"
  shows "sign_jws E s (dt_claims tok) = Inr tok"
proof -
  obtain c where "sign_jws E s c = Inr tok"
    using assms unfolding mint_attenuated_def Let_def
    by (auto simp: result_simps split: if_splits option.splits)
  then show ?thesis using sign_jws_claims by metis
qed

lemma allows_def_hold:
  "allows vd subject action resource facts \<longleftrightarrow>
    sub (vd_claims vd) = subject \<and> action \<in> set (allowed_actions (vd_claims vd)) \<and>
    (\<exists>p \<in> set (resource_patterns (vd_claims vd)). glob_match p resource) \<and>
    (case constraints (vd_claims vd) of None \<Rightarrow> True | Some es \<Rightarrow> constraints_hold es facts)"
  by (auto simp: allows_def list_ex_iff constraints_hold_def split: option.splits)

definition claims_wf :: "delegation_claims \<Rightarrow> bool" where
  "claims_wf c = (case constraints c of None \<Rightarrow> True | Some es \<Rightarrow> list_all expr_wf es)"

lemma narrows_allows:
  assumes "narrows (vd_claims c) (vd_claims p)" "allows c subject action resource facts"
    and "json_wf facts" "claims_wf (vd_claims c)" "claims_wf (vd_claims p)"
  shows "allows p (sub (vd_claims p)) action resource facts"
proof -
  have a: "action \<in> set (allowed_actions (vd_claims p))"
    using assms(1,2) by (auto simp: narrows_def allows_def_hold)
  obtain q where "q \<in> set (resource_patterns (vd_claims c))" "glob_match q resource"
    using assms(2) by (auto simp: allows_def_hold)
  then have r: "\<exists>q \<in> set (resource_patterns (vd_claims p)). glob_match q resource"
    using glob.narrowed_patterns assms(1) unfolding narrows_def by blast
  have "constraints_hold pcs facts" if pcs: "constraints (vd_claims p) = Some pcs" for pcs
  proof -
    obtain ccs where ccs: "constraints (vd_claims c) = Some ccs" "\<not> constraint_dropped ccs pcs"
      using assms(1) pcs by (auto simp: narrows_def split: option.splits)
    then show ?thesis using assms pcs
      by (intro constraint_dropped_hold [OF ccs(2)]) (auto simp: allows_def_hold claims_wf_def)
  qed
  then show ?thesis using a r by (auto simp: allows_def_hold split: option.splits)
qed

section \<open>What a successful verification establishes\<close>

lemma check_header_Inr:
  "check_header header = Inr (alg, kid) \<longleftrightarrow>
    (\<exists>alg_str. Option.bind (get header ''alg'') as_str = Some alg_str \<and> parse_alg alg_str = Some alg) \<and>
    alg \<noteq> HS256 \<and> Option.bind (get header ''kid'') as_str = Some kid \<and> trim kid \<noteq> [] \<and>
    Option.bind (get header ''typ'') as_str = Some delegation_typ \<and>
    get header ''crit'' = None \<and> (get header ''b64'' = None \<or> get header ''b64'' = Some (Bool True))"
  unfolding check_header_def
  by (auto simp: result_simps split: if_splits option.splits)

definition claims_valid_at :: "delegation_claims \<Rightarrow> int \<Rightarrow> string \<Rightarrow> int \<Rightarrow> bool" where
  "claims_valid_at c skew expected_aud now \<longleftrightarrow>
    trim (iss c) \<noteq> [] \<and> trim (sub c) \<noteq> [] \<and> trim (aud c) \<noteq> [] \<and> trim (jti c) \<noteq> [] \<and>
    iat c < exp c \<and> (\<forall>n. nbf c = Some n \<longrightarrow> n < exp c \<and> n \<le> saturating_add now skew) \<and>
    iat c \<le> saturating_add now skew \<and> now < saturating_add (exp c) skew \<and> aud c = expected_aud"

lemma check_delegation_claims_Inr:
  "check_delegation_claims c skew expected_aud now = Inr u \<longleftrightarrow> claims_valid_at c skew expected_aud now"
  unfolding check_delegation_claims_def claims_valid_at_def Let_def
  by (auto split: option.splits if_splits)

lemma split_on_three:
  "split_on CHR ''.'' s = [h, p, g] \<longleftrightarrow>
    s = h @ ''.'' @ p @ ''.'' @ g \<and> CHR ''.'' \<notin> set h \<and> CHR ''.'' \<notin> set p \<and> CHR ''.'' \<notin> set g"
proof
  assume r: "split_on CHR ''.'' s = [h, p, g]"
  then have "s = join_with CHR ''.'' [h, p, g]" by (metis join_with_split_on)
  moreover have "CHR ''.'' \<notin> set h" "CHR ''.'' \<notin> set p" "CHR ''.'' \<notin> set g"
    using split_on_parts_no_sep [of _ "CHR ''.''" s] r by simp_all
  ultimately show "s = h @ ''.'' @ p @ ''.'' @ g \<and> CHR ''.'' \<notin> set h \<and> CHR ''.'' \<notin> set p \<and> CHR ''.'' \<notin> set g"
    by simp
qed (simp add: split_on_append_sep split_on_no_sep)

text \<open>The structure of an accepted token: three segments and what they decode to.\<close>

definition token_decodes ::
  "jws_env \<Rightarrow> string \<Rightarrow> string \<Rightarrow> string \<Rightarrow> string \<Rightarrow> json \<Rightarrow> delegation_claims \<Rightarrow> string \<Rightarrow> bool" where
  "token_decodes E token h p g header claims sig \<longleftrightarrow>
    split_on CHR ''.'' token = [h, p, g] \<and> length token \<le> MAX_DELEGATION_TOKEN_BYTES \<and>
    (\<exists>hb. b64_decode E h = Inr hb \<and> json_from_slice E hb = Inr header) \<and>
    (\<exists>pb. b64_decode E p = Inr pb \<and> claims_from_slice E pb = Inr claims) \<and>
    b64_decode E g = Inr sig \<and> length sig = 64"

lemma token_parse_Inr:
  "token_parse E token = Inr t \<longleftrightarrow>
    (\<exists>h p g header claims sig. token_decodes E token h p g header claims sig \<and>
      Option.bind (get header ''alg'') as_str \<noteq> None \<and> t = \<lparr>dt_claims = claims, dt_jws = token\<rparr>)"
proof (cases "\<exists>h p g. split_on CHR ''.'' token = [h, p, g]")
  case True
  then obtain h p g where "split_on CHR ''.'' token = [h, p, g]" by blast
  then show ?thesis
    by (auto simp: token_parse_def token_decodes_def result_simps not_less split: if_splits)
next
  case False
  then have "token_parse E token \<noteq> Inr t"
    by (auto simp: token_parse_def split: list.splits if_splits)
  then show ?thesis using False by (auto simp: token_decodes_def)
qed

lemma verify_ed25519_Inr:
  "verify_ed25519 E vk m sig = Inr u \<longleftrightarrow>
    length sig = 64 \<and> (\<exists>g. ed_sig_parse E sig = Inr g \<and> ed_verify E vk m g)"
  by (auto simp: verify_ed25519_def result_simps split: if_splits)

lemma verify_Inr:
  "verify E V token expected_aud now = Inr vd \<longleftrightarrow>
    (\<exists>h p g header claims sig sg alg kid vk.
      token_decodes E token h p g header claims sig \<and>
      check_header header = Inr (alg, kid) \<and>
      map_of (dv_keys V) kid = Some (alg, vk) \<and>
      ed_sig_parse E sig = Inr sg \<and> ed_verify E vk (h @ ''.'' @ p) sg \<and>
      claims_valid_at claims (dv_clock_skew V) expected_aud now \<and>
      vd = \<lparr>vd_claims = claims, vd_kid = kid, vd_alg = alg, vd_verifying_key = vk\<rparr>)"
    (is "?L \<longleftrightarrow> ?R")
proof
  assume ?L
  then obtain t where t: "token_parse E token = Inr t"
    by (auto simp: verify_def result_simps)
  then obtain h p g header claims sig where d: "token_decodes E token h p g header claims sig"
    "t = \<lparr>dt_claims = claims, dt_jws = token\<rparr>" by (auto simp: token_parse_Inr)
  show ?R using \<open>?L\<close> t d unfolding verify_def
    by (fastforce simp: result_simps Let_def token_decodes_def verify_ed25519_Inr
        check_delegation_claims_Inr split: if_splits)
next
  assume ?R
  then obtain h p g header claims sig sg alg kid vk where
    d: "token_decodes E token h p g header claims sig" and
    h: "check_header header = Inr (alg, kid)" and
    k: "map_of (dv_keys V) kid = Some (alg, vk)" and
    s: "ed_sig_parse E sig = Inr sg" "ed_verify E vk (h @ ''.'' @ p) sg" and
    c: "claims_valid_at claims (dv_clock_skew V) expected_aud now" and
    vd: "vd = \<lparr>vd_claims = claims, vd_kid = kid, vd_alg = alg, vd_verifying_key = vk\<rparr>" by blast
  have "Option.bind (get header ''alg'') as_str \<noteq> None" using h by (auto simp: check_header_Inr)
  then have "token_parse E token = Inr \<lparr>dt_claims = claims, dt_jws = token\<rparr>"
    using d unfolding token_parse_Inr by blast
  moreover have "check_delegation_claims claims (dv_clock_skew V) expected_aud now = Inr ()"
    using c by (simp add: check_delegation_claims_Inr)
  moreover have "verify_ed25519 E vk (h @ ''.'' @ p) sig = Inr ()"
    using d s by (simp add: verify_ed25519_Inr token_decodes_def)
  ultimately show ?L using d h k vd by (auto simp: verify_def token_decodes_def Let_def)
qed

section \<open>Minted grants verify\<close>

text \<open>
  What the packages promise: base64url decodes what it encodes and never prints a dot, the
  header object survives the JSON text form, and an Ed25519 signature has 64 bytes and verifies
  under the public key of its signing key.
\<close>

definition jws_env_ok :: "jws_env \<Rightarrow> bool" where
  "jws_env_ok E \<longleftrightarrow>
    (\<forall>x. b64_decode E (b64_encode E x) = Inr x \<and> CHR ''.'' \<notin> set (b64_encode E x)) \<and>
    (\<forall>kid b. json_to_vec E (jws_header kid) = Inr b \<longrightarrow> json_from_slice E b = Inr (jws_header kid)) \<and>
    (\<forall>k m. length (ed_sign E k m) = 64 \<and> ed_verify E (ed_public E k) m (ed_sign E k m)) \<and>
    (\<forall>s. length s = 64 \<longrightarrow> ed_sig_parse E s = Inr s)"

text \<open>The derived deserializer reads back what the derived serializer wrote for these claims.\<close>

definition claims_round_trip :: "jws_env \<Rightarrow> delegation_claims \<Rightarrow> bool" where
  "claims_round_trip E c \<longleftrightarrow> (\<forall>b. claims_to_vec E c = Inr b \<longrightarrow> claims_from_slice E b = Inr c)"

lemma sign_jws_decodes:
  assumes "jws_env_ok E" "claims_round_trip E c" "sign_jws E s c = Inr tok"
    and "length (dt_jws tok) \<le> MAX_DELEGATION_TOKEN_BYTES"
  obtains h p g where
    "token_decodes E (dt_jws tok) h p g (jws_header (ds_key_id s)) c (ed_sign E (ds_key s) (h @ ''.'' @ p))"
proof -
  obtain hb pb where hb: "json_to_vec E (jws_header (ds_key_id s)) = Inr hb" and pb: "claims_to_vec E c = Inr pb"
    and tok: "dt_jws tok = b64_encode E hb @ ''.'' @ b64_encode E pb @ ''.'' @
      b64_encode E (ed_sign E (ds_key s) (b64_encode E hb @ ''.'' @ b64_encode E pb))"
    using assms(3) by (auto simp: sign_jws_def Let_def result_simps)
  have enc: "\<And>x. b64_decode E (b64_encode E x) = Inr x" "\<And>x. CHR ''.'' \<notin> set (b64_encode E x)"
    and "json_from_slice E hb = Inr (jws_header (ds_key_id s))"
    and "\<And>k m. length (ed_sign E k m) = 64"
    using assms(1) hb by (simp_all add: jws_env_ok_def)
  moreover have "claims_from_slice E pb = Inr c" using assms(2) pb by (simp add: claims_round_trip_def)
  ultimately have "token_decodes E (dt_jws tok) (b64_encode E hb) (b64_encode E pb)
      (b64_encode E (ed_sign E (ds_key s) (b64_encode E hb @ ''.'' @ b64_encode E pb)))
      (jws_header (ds_key_id s)) c (ed_sign E (ds_key s) (b64_encode E hb @ ''.'' @ b64_encode E pb))"
    using assms(4) unfolding token_decodes_def split_on_three tok [symmetric] by simp
  then show ?thesis by (rule that)
qed

lemma check_header_jws:
  "trim kid \<noteq> [] \<Longrightarrow> check_header (jws_header kid) = Inr (EdDSA, kid)"
  unfolding check_header_Inr by (simp add: jws_header_def parse_alg_def)

lemma sign_verify:
  assumes ok: "jws_env_ok E" "claims_round_trip E c" "sign_jws E s c = Inr tok"
      "length (dt_jws tok) \<le> MAX_DELEGATION_TOKEN_BYTES"
    and key: "map_of (dv_keys V) (ds_key_id s) = Some (EdDSA, ed_public E (ds_key s))" "trim (ds_key_id s) \<noteq> []"
    and valid: "claims_valid_at c (dv_clock_skew V) expected_aud now"
  shows "verify E V (dt_jws tok) expected_aud now =
    Inr \<lparr>vd_claims = c, vd_kid = ds_key_id s, vd_alg = EdDSA, vd_verifying_key = ed_public E (ds_key s)\<rparr>"
proof -
  obtain h p g where
    d: "token_decodes E (dt_jws tok) h p g (jws_header (ds_key_id s)) c (ed_sign E (ds_key s) (h @ ''.'' @ p))"
    by (rule sign_jws_decodes [OF ok])
  have "ed_sig_parse E (ed_sign E (ds_key s) (h @ ''.'' @ p)) = Inr (ed_sign E (ds_key s) (h @ ''.'' @ p))"
    "ed_verify E (ed_public E (ds_key s)) (h @ ''.'' @ p) (ed_sign E (ds_key s) (h @ ''.'' @ p))"
    using ok(1) by (simp_all add: jws_env_ok_def)
  then show ?thesis unfolding verify_Inr using d key valid check_header_jws by blast
qed

text \<open>The other way round, verifying a token this code signed yields the claims it signed.\<close>

lemma verify_signed_claims:
  assumes "jws_env_ok E" "claims_round_trip E c" "sign_jws E s c = Inr tok"
    and "verify E V (dt_jws tok) expected_aud now = Inr vd"
  shows "vd_claims vd = c"
proof -
  obtain h p g header claims sig where
    v: "token_decodes E (dt_jws tok) h p g header claims sig" "vd_claims vd = claims"
    using assms(4) unfolding verify_Inr by auto
  then have "length (dt_jws tok) \<le> MAX_DELEGATION_TOKEN_BYTES" by (simp add: token_decodes_def)
  then obtain h' p' g' where
    d: "token_decodes E (dt_jws tok) h' p' g' (jws_header (ds_key_id s)) c (ed_sign E (ds_key s) (h' @ ''.'' @ p'))"
    by (rule sign_jws_decodes [OF assms(1-3)])
  have "p = p'" using v(1) d by (simp add: token_decodes_def)
  then have "claims = c" using v(1) d by (auto simp: token_decodes_def)
  then show ?thesis using v(2) by simp
qed

lemma minted_exp:
  assumes "is_i64 now" "0 \<le> now" "ttl \<le> u64_max"
  shows "wrap_i64 (now + wrap_i64 (int ttl)) =
    (if now + int ttl \<le> i64_max then now + int ttl else now + int ttl - 2 ^ 64)"
proof -
  have t: "int ttl < 2 ^ 64" using assms(3) by (simp add: u64_max_def)
  show ?thesis
  proof (cases "int ttl \<le> i64_max")
    case True
    then have w: "wrap_i64 (int ttl) = int ttl"
      by (intro wrap_i64_id) (simp add: is_i64_def i64_min_def i64_max_def)
    show ?thesis
    proof (cases "now + int ttl \<le> i64_max")
      case True
      then have "is_i64 (now + int ttl)" using assms(2) by (simp add: is_i64_def i64_min_def)
      then show ?thesis using True w by (simp add: wrap_i64_id)
    next
      case False
      then have "is_i64 (now + int ttl - 2 ^ 64)"
        using \<open>int ttl \<le> i64_max\<close> assms(1) by (simp add: is_i64_def i64_min_def i64_max_def)
      then show ?thesis using False w by (simp only: wrap_i64_above if_False)
    qed
  next
    case False
    then have "is_i64 (int ttl - 2 ^ 64)" using t by (simp add: is_i64_def i64_min_def i64_max_def)
    then have w: "wrap_i64 (int ttl) = int ttl - 2 ^ 64" by (rule wrap_i64_above)
    have "is_i64 (now + (int ttl - 2 ^ 64))"
      using False t assms(1,2) by (simp add: is_i64_def i64_min_def i64_max_def)
    then have "wrap_i64 (now + (int ttl - 2 ^ 64)) = now + (int ttl - 2 ^ 64)" by (rule wrap_i64_id)
    then show ?thesis using w False assms(2) by (simp add: i64_max_def)
  qed
qed

section \<open>Chains of delegation\<close>

fun act_depth :: "act_claim option \<Rightarrow> nat" where
  "act_depth None = 0"
| "act_depth (Some (ActClaim s i a)) = Suc (act_depth a)"

text \<open>
  The grants reachable from a verified root: each link attenuates the verified parent and the
  resulting token is itself verified, by any verifier, for any audience and at any time.
\<close>

inductive delegation_chain :: "jws_env \<Rightarrow> verified_delegation \<Rightarrow> nat \<Rightarrow> verified_delegation \<Rightarrow> bool"
  for E root where
  chain_root: "delegation_chain E root 0 root"
| chain_link: "delegation_chain E root n parent \<Longrightarrow>
    mint_attenuated E s now uuid parent spec = Inr tok \<Longrightarrow>
    claims_round_trip E (dt_claims tok) \<Longrightarrow> claims_wf (dt_claims tok) \<Longrightarrow>
    verify E V (dt_jws tok) expected_aud t = Inr child \<Longrightarrow>
    delegation_chain E root (Suc n) child"

lemma chain_link_claims:
  assumes "jws_env_ok E" "mint_attenuated E s now uuid parent spec = Inr tok"
    and "claims_round_trip E (dt_claims tok)" "verify E V (dt_jws tok) expected_aud t = Inr child"
  shows "vd_claims child = dt_claims tok"
  using verify_signed_claims [OF assms(1,3) mint_attenuated_signed [OF assms(2)] assms(4)] .

lemma delegation_chain_narrows:
  assumes "delegation_chain E root n leaf" "jws_env_ok E" "claims_wf (vd_claims root)" "json_wf facts"
  shows "claims_wf (vd_claims leaf) \<and> exp (vd_claims leaf) \<le> exp (vd_claims root) \<and>
    nbf (vd_claims leaf) = nbf (vd_claims root) \<and>
    act_depth (act (vd_claims leaf)) = act_depth (act (vd_claims root)) + n \<and>
    (\<forall>subject. allows leaf subject action resource facts \<longrightarrow>
      allows root (sub (vd_claims root)) action resource facts)"
  using assms
proof (induction rule: delegation_chain.induct)
  case chain_root
  then show ?case by (auto simp: allows_def_hold)
next
  case (chain_link n parent s now uuid spec tok V expected_aud t child)
  note IH = chain_link.IH [OF chain_link.prems]
  have c: "vd_claims child = dt_claims tok"
    using chain_link.prems(1) chain_link.hyps by (intro chain_link_claims)
  have nar: "narrows (vd_claims child) (vd_claims parent)"
    unfolding c by (rule mint_attenuated_Inr(1) [OF chain_link.hyps(2)])
  have wf: "claims_wf (vd_claims child)" using chain_link.hyps(4) c by simp
  have "allows root (sub (vd_claims root)) action resource facts"
    if "allows child subject action resource facts" for subject
    using narrows_allows [OF nar that chain_link.prems(3) wf] IH by blast
  then show ?case using IH nar wf by (auto simp: narrows_def)
qed

section \<open>An instance of the packages\<close>

fun tilde_encode :: "string \<Rightarrow> string" where
  "tilde_encode [] = []"
| "tilde_encode (c # cs) =
    (if c = CHR ''.'' then ''~1'' else if c = CHR ''~'' then ''~0'' else [c]) @ tilde_encode cs"

fun tilde_decode :: "string \<Rightarrow> string" where
  "tilde_decode [] = []"
| "tilde_decode [c] = [c]"
| "tilde_decode (c # d # cs) =
    (if c = CHR ''~'' then (if d = CHR ''1'' then CHR ''.'' else CHR ''~'') # tilde_decode cs
     else c # tilde_decode (d # cs))"

lemma tilde_decode_plain: "c \<noteq> CHR ''~'' \<Longrightarrow> tilde_decode (c # cs) = c # tilde_decode cs"
  by (cases cs) auto

lemma tilde_decode_encode: "tilde_decode (tilde_encode s) = s"
  by (induction s) (auto simp: tilde_decode_plain)

lemma tilde_encode_no_dot: "CHR ''.'' \<notin> set (tilde_encode s)"
  by (induction s) auto

definition demo_public :: "string \<Rightarrow> string" where
  "demo_public k = take 32 (k @ replicate 32 CHR ''p'')"

definition demo_sig :: "string \<Rightarrow> string \<Rightarrow> string" where
  "demo_sig pk m = take 64 (pk @ m @ replicate 64 CHR ''x'')"

definition demo_env :: "delegation_claims \<Rightarrow> jws_env" where
  "demo_env c =
    \<lparr>b64_encode = tilde_encode, b64_decode = (\<lambda>s. Inr (tilde_decode s)),
     json_to_vec = (\<lambda>v. case Option.bind (get v ''kid'') as_str of Some k \<Rightarrow> Inr k | None \<Rightarrow> Inl ''no kid''),
     json_from_slice = (\<lambda>k. Inr (jws_header k)),
     claims_to_vec = (\<lambda>_. Inr ''claims''), claims_from_slice = (\<lambda>_. Inr c),
     ed_public = demo_public, ed_sign = (\<lambda>k m. demo_sig (demo_public k) m),
     ed_verify = (\<lambda>pk m s. s = demo_sig pk m),
     ed_key_parse = Inr, ed_sig_parse = Inr, debug_str = (\<lambda>s. s)\<rparr>"

lemma length_demo_sig: "length (demo_sig pk m) = 64"
  by (simp add: demo_sig_def)

lemma demo_env_ok: "jws_env_ok (demo_env c)"
  by (simp add: jws_env_ok_def demo_env_def tilde_decode_encode tilde_encode_no_dot length_demo_sig jws_header_def)

lemma length_tilde_encode: "length (tilde_encode s) \<le> 2 * length s"
  by (induction s) auto

lemma demo_sign:
  assumes "length (ds_key_id s) \<le> 1000"
  obtains tok where "sign_jws (demo_env c0) s c = Inr tok"
    "length (dt_jws tok) \<le> MAX_DELEGATION_TOKEN_BYTES" "dt_claims tok = c"
proof -
  have "length (tilde_encode (ds_key_id s)) \<le> 2000"
    using length_tilde_encode [of "ds_key_id s"] assms by simp
  moreover have "length (tilde_encode (demo_sig (demo_public (ds_key s))
      (tilde_encode (ds_key_id s) @ ''.claims''))) \<le> 128"
    using length_tilde_encode [of "demo_sig (demo_public (ds_key s)) (tilde_encode (ds_key_id s) @ ''.claims'')"]
    by (simp add: length_demo_sig)
  ultimately show ?thesis
    using that by (simp add: sign_jws_def demo_env_def jws_header_def Let_def MAX_DELEGATION_TOKEN_BYTES_def)
qed

definition demo_claims :: delegation_claims where
  "demo_claims =
    \<lparr>iss = ''alice'', sub = ''bot'', aud = ''api'', iat = 100, exp = 1000, nbf = None, jti = ''t1'',
     allowed_actions = [''read'', ''send''], resource_patterns = [''Mailbox::*''], act = None,
     constraints = Some [LessThan ''amount'' 10], extra = []\<rparr>"

definition demo_signer :: delegation_signer where
  "demo_signer = \<lparr>ds_key = ''secret'', ds_key_id = ''k1''\<rparr>"

definition demo_verifier :: delegation_verifier where
  "demo_verifier = verifier_new\<lparr>dv_keys := [(''k1'', (EdDSA, demo_public ''secret''))]\<rparr>"

definition demo_parent :: verified_delegation where
  "demo_parent = \<lparr>vd_claims = demo_claims, vd_kid = ''k1'', vd_alg = EdDSA, vd_verifying_key = demo_public ''secret''\<rparr>"

definition demo_spec :: delegation_spec where
  "demo_spec = \<lparr>spec_sub = ''helper'', spec_aud = ''api'', spec_allowed_actions = [''read''],
    spec_resource_patterns = [''Mailbox::bob''], spec_constraints = Some [LessThan ''amount'' 10], spec_ttl_secs = 300\<rparr>"

definition demo_child :: delegation_claims where
  "demo_child =
    \<lparr>iss = ''bot'', sub = ''helper'', aud = ''api'', iat = 200, exp = 500, nbf = None, jti = ''t2'',
     allowed_actions = [''read''], resource_patterns = [''Mailbox::bob''],
     act = Some (ActClaim ''bot'' (Some ''alice'') None),
     constraints = Some [LessThan ''amount'' 10], extra = []\<rparr>"

lemma demo_trims [simp]:
  "trim ''k1'' \<noteq> []" "trim ''alice'' \<noteq> []" "trim ''bot'' \<noteq> []" "trim ''api'' \<noteq> []" "trim ''t1'' \<noteq> []"
  "trim ''helper'' \<noteq> []" "trim ''t2'' \<noteq> []"
  by (simp_all add: trim_def trim_start_def trim_end_def white_space_seqs_def)

lemma demo_claims_valid: "claims_valid_at demo_claims 60 ''api'' 150"
  by (simp add: claims_valid_at_def demo_claims_def saturating_add_def i64_max_def i64_min_def)

lemma demo_child_valid: "claims_valid_at demo_child 60 ''api'' 250"
  by (simp add: claims_valid_at_def demo_child_def saturating_add_def i64_max_def i64_min_def)

lemma demo_mint_attenuated:
  "mint_attenuated (demo_env c) demo_signer 200 ''t2'' demo_parent demo_spec = sign_jws (demo_env c) demo_signer demo_child"
proof -
  have "glob_match ''Mailbox::*'' ''Mailbox::bob''"
    unfolding glob_match_iff_spec by (simp add: glob_spec.simps)
  then have "\<not> resource_outside [''Mailbox::bob''] [''Mailbox::*'']" by (simp add: resource_outside_def)
  moreover have "\<not> action_outside [''read''] [''read'', ''send'']" by (simp add: action_outside_def)
  moreover have "\<not> constraint_dropped [LessThan ''amount'' 10] [LessThan ''amount'' 10]"
    by (simp add: constraint_dropped_def json_of_i64_def)
  ultimately show ?thesis
    by (simp add: mint_attenuated_def demo_parent_def demo_spec_def demo_claims_def demo_child_def demo_signer_def
        demo_env_def checked_add_def is_i64_def i64_max_def i64_min_def)
qed

lemma demo_verify:
  "\<exists>tok. sign_jws (demo_env demo_claims) demo_signer demo_claims = Inr tok \<and>
    verify (demo_env demo_claims) demo_verifier (dt_jws tok) ''api'' 150 = Inr demo_parent"
proof -
  obtain tok where tok: "sign_jws (demo_env demo_claims) demo_signer demo_claims = Inr tok"
      "length (dt_jws tok) \<le> MAX_DELEGATION_TOKEN_BYTES"
    by (rule demo_sign [of demo_signer demo_claims demo_claims]) (simp_all add: demo_signer_def)
  have "verify (demo_env demo_claims) demo_verifier (dt_jws tok) ''api'' 150 = Inr demo_parent"
    using demo_claims_valid
    by (subst sign_verify [OF demo_env_ok _ tok])
      (simp_all add: claims_round_trip_def demo_env_def demo_verifier_def demo_signer_def demo_parent_def verifier_new_def)
  then show ?thesis using tok by blast
qed

section \<open>Properties\<close>



text \<open>
  C24: A grant minted by a signer whose public key is registered verifies, with exactly the
  claims minted, at every time of its lifetime widened by the clock tolerance.
\<close>

theorem minted_grant_verifies:
  assumes env: "jws_env_ok E" "claims_round_trip E (dt_claims tok)"
    and mint: "mint E s t0 uuid c_iss c_sub c_aud actions patterns ttl = Inr tok"
    and size: "length (dt_jws tok) \<le> MAX_DELEGATION_TOKEN_BYTES"
    and key: "map_of (dv_keys V) (ds_key_id s) = Some (EdDSA, ed_public E (ds_key s))" "trim (ds_key_id s) \<noteq> []"
    and names: "trim c_iss \<noteq> []" "trim c_sub \<noteq> []" "trim c_aud \<noteq> []" "trim uuid \<noteq> []"
    and time: "is_i64 t0" "0 \<le> t0" "0 < ttl" "ttl \<le> u64_max" "t0 + int ttl \<le> i64_max"
    and now: "t0 \<le> saturating_add now (dv_clock_skew V)" "now < saturating_add (t0 + int ttl) (dv_clock_skew V)"
  shows "\<exists>vd. verify E V (dt_jws tok) c_aud now = Inr vd \<and> vd_claims vd = dt_claims tok \<and>
    sub (vd_claims vd) = c_sub \<and> exp (vd_claims vd) = t0 + int ttl \<and>
    allowed_actions (vd_claims vd) = actions \<and> resource_patterns (vd_claims vd) = patterns"
proof -
  let ?c = "\<lparr>iss = c_iss, sub = c_sub, aud = c_aud, iat = t0, exp = t0 + int ttl, nbf = None, jti = uuid,
    allowed_actions = actions, resource_patterns = patterns, act = None, constraints = None, extra = []\<rparr>"
  have s: "sign_jws E s ?c = Inr tok"
    using mint minted_exp [OF time(1,2,4)] time(5) by (simp add: mint_def mint_with_def)
  then have c: "dt_claims tok = ?c" by (rule sign_jws_claims)
  have "claims_valid_at ?c (dv_clock_skew V) c_aud now"
    using names time now by (simp add: claims_valid_at_def)
  from sign_verify [OF env(1) _ s size key this] show ?thesis using env(2) c by simp
qed

theorem minted_grant_verifies_witness:
  "\<exists>tok vd. mint (demo_env (demo_claims\<lparr>constraints := None\<rparr>)) demo_signer 100 ''t1'' ''alice'' ''bot'' ''api''
      [''read'', ''send''] [''Mailbox::*''] 900 = Inr tok \<and>
    verify (demo_env (demo_claims\<lparr>constraints := None\<rparr>)) demo_verifier (dt_jws tok) ''api'' 150 = Inr vd \<and>
    exp (vd_claims vd) = 1000"
proof -
  let ?c = "demo_claims\<lparr>constraints := None\<rparr>"
  obtain tok where tok: "sign_jws (demo_env ?c) demo_signer ?c = Inr tok"
      "length (dt_jws tok) \<le> MAX_DELEGATION_TOKEN_BYTES" "dt_claims tok = ?c"
    by (rule demo_sign [of demo_signer ?c ?c]) (simp_all add: demo_signer_def)
  have exp: "wrap_i64 (100 + wrap_i64 900) = 1000" by (simp add: wrap_i64_def)
  have mint: "mint (demo_env ?c) demo_signer 100 ''t1'' ''alice'' ''bot'' ''api''
      [''read'', ''send''] [''Mailbox::*''] 900 = Inr tok"
    using tok(1) exp by (simp add: mint_def mint_with_def demo_claims_def)
  from minted_grant_verifies [OF demo_env_ok _ mint tok(2), where V = demo_verifier and now = 150]
  show ?thesis using mint tok(3)
    by (simp add: claims_round_trip_def demo_env_def demo_verifier_def demo_signer_def verifier_new_def
        is_i64_def i64_max_def i64_min_def u64_max_def saturating_add_def) blast
qed

text \<open>
  Attenuation never broadens.  A child grant minted from a verified parent expires no later
  than the parent, keeps its not-before time, names the parent in its actor chain, and allows no
  request, whatever the acting subject, that the parent does not allow to its own subject:
  actions, resource patterns and constraints are all at least as strict.
\<close>

theorem attenuated_grant_never_broadens:
  assumes "mint_attenuated E s now uuid parent spec = Inr tok"
    and "vd_claims child = dt_claims tok" "allows child subject action resource facts"
    and "json_wf facts" "claims_wf (dt_claims tok)" "claims_wf (vd_claims parent)"
  shows "allows parent (sub (vd_claims parent)) action resource facts \<and>
    exp (vd_claims child) \<le> exp (vd_claims parent) \<and> nbf (vd_claims child) = nbf (vd_claims parent) \<and>
    act (vd_claims child) = Some (ActClaim (sub (vd_claims parent)) (Some (iss (vd_claims parent))) (act (vd_claims parent))) \<and>
    vd_kid parent = ds_key_id s \<and> vd_verifying_key parent = ed_public E (ds_key s)"
proof -
  note m = mint_attenuated_Inr [OF assms(1)]
  have n: "narrows (vd_claims child) (vd_claims parent)" using m(1) assms(2) by simp
  have "allows parent (sub (vd_claims parent)) action resource facts"
    by (rule narrows_allows [OF n assms(3,4) _ assms(6)]) (simp add: assms(2,5))
  then show ?thesis using n m(2,3) by (simp add: narrows_def)
qed

theorem attenuated_grant_never_broadens_witness:
  "\<exists>tok child. mint_attenuated (demo_env demo_child) demo_signer 200 ''t2'' demo_parent demo_spec = Inr tok \<and>
    vd_claims child = dt_claims tok \<and>
    allows child ''helper'' ''read'' ''Mailbox::bob'' (Object [(''amount'', Number (PosInt 3))]) \<and>
    allows demo_parent ''bot'' ''read'' ''Mailbox::bob'' (Object [(''amount'', Number (PosInt 3))])"
proof -
  let ?facts = "Object [(''amount'', Number (PosInt 3))]"
  obtain tok where tok: "sign_jws (demo_env demo_child) demo_signer demo_child = Inr tok" "dt_claims tok = demo_child"
    by (rule demo_sign [of demo_signer demo_child demo_child]) (simp_all add: demo_signer_def)
  then have m: "mint_attenuated (demo_env demo_child) demo_signer 200 ''t2'' demo_parent demo_spec = Inr tok"
    by (simp add: demo_mint_attenuated)
  let ?child = "demo_parent\<lparr>vd_claims := demo_child\<rparr>"
  have a: "allows ?child ''helper'' ''read'' ''Mailbox::bob'' ?facts"
    by (simp add: allows_def demo_child_def glob_match_def lookup_segments i64_max_def)
  have wf: "vd_claims ?child = dt_claims tok" "json_wf ?facts" "claims_wf (dt_claims tok)"
      "claims_wf (vd_claims demo_parent)"
    by (simp_all add: tok(2) claims_wf_def demo_child_def demo_parent_def demo_claims_def)
  have "allows demo_parent (sub (vd_claims demo_parent)) ''read'' ''Mailbox::bob'' ?facts"
    using attenuated_grant_never_broadens [OF m wf(1) a wf(2-4)] by simp
  then have "allows demo_parent ''bot'' ''read'' ''Mailbox::bob'' ?facts"
    by (simp add: demo_parent_def demo_claims_def)
  then show ?thesis using m a tok(2) by (intro exI [of _ tok] exI [of _ ?child]) simp
qed

text \<open>
  C3: The same holds along a whole chain of delegations, each link attenuating the verified
  grant before it: the last grant of a chain of any length allows no request that the first one
  does not allow, expires no later, and records one more actor per link.
\<close>

theorem delegation_chain_never_broadens:
  assumes "delegation_chain E root n leaf" "jws_env_ok E" "claims_wf (vd_claims root)" "json_wf facts"
    and "allows leaf subject action resource facts"
  shows "allows root (sub (vd_claims root)) action resource facts \<and>
    exp (vd_claims leaf) \<le> exp (vd_claims root) \<and>
    act_depth (act (vd_claims leaf)) = act_depth (act (vd_claims root)) + n"
  using delegation_chain_narrows [OF assms(1-4)] assms(5) by blast

theorem delegation_chain_never_broadens_witness:
  "\<exists>leaf. delegation_chain (demo_env demo_child) demo_parent 1 leaf \<and>
    allows leaf ''helper'' ''read'' ''Mailbox::bob'' (Object [(''amount'', Number (PosInt 3))]) \<and>
    allows demo_parent ''bot'' ''read'' ''Mailbox::bob'' (Object [(''amount'', Number (PosInt 3))]) \<and>
    act_depth (act (vd_claims leaf)) = 1"
proof -
  let ?facts = "Object [(''amount'', Number (PosInt 3))]"
  let ?leaf = "demo_parent\<lparr>vd_claims := demo_child\<rparr>"
  obtain tok where tok: "sign_jws (demo_env demo_child) demo_signer demo_child = Inr tok"
      "length (dt_jws tok) \<le> MAX_DELEGATION_TOKEN_BYTES" "dt_claims tok = demo_child"
    by (rule demo_sign [of demo_signer demo_child demo_child]) (simp_all add: demo_signer_def)
  have v: "verify (demo_env demo_child) demo_verifier (dt_jws tok) ''api'' 250 = Inr ?leaf"
    using demo_child_valid
    by (subst sign_verify [OF demo_env_ok _ tok(1,2)])
      (simp_all add: claims_round_trip_def demo_env_def demo_verifier_def demo_signer_def demo_parent_def verifier_new_def)
  have m: "mint_attenuated (demo_env demo_child) demo_signer 200 ''t2'' demo_parent demo_spec = Inr tok"
    using tok(1) by (simp add: demo_mint_attenuated)
  have wf: "claims_wf (dt_claims tok)" "claims_wf (vd_claims demo_parent)"
    by (simp_all add: tok(3) claims_wf_def demo_child_def demo_parent_def demo_claims_def)
  have rt: "claims_round_trip (demo_env demo_child) (dt_claims tok)"
    by (simp add: claims_round_trip_def demo_env_def tok(3))
  have chain: "delegation_chain (demo_env demo_child) demo_parent (Suc 0) ?leaf"
    by (rule chain_link [OF chain_root m rt wf(1) v])
  have a: "allows ?leaf ''helper'' ''read'' ''Mailbox::bob'' ?facts"
    by (simp add: allows_def demo_child_def glob_match_def lookup_segments i64_max_def)
  have "json_wf ?facts" by simp
  from delegation_chain_never_broadens [OF chain demo_env_ok wf(2) this a]
  show ?thesis using chain a
    by (intro exI [of _ ?leaf]) (simp add: demo_parent_def demo_claims_def demo_child_def)
qed

text \<open>
  A lifetime that would push the expiry past the range of 64-bit timestamps is not
  dangerous although the sum wraps: the minted claims expire before they are issued, and no
  verifier accepts them at any time.
\<close>

theorem overflowing_lifetime_never_verifies:
  assumes "jws_env_ok E" "claims_round_trip E (dt_claims tok)"
    and "mint E s t0 uuid c_iss c_sub c_aud actions patterns ttl = Inr tok"
    and "is_i64 t0" "0 \<le> t0" "ttl \<le> u64_max" "i64_max < t0 + int ttl"
  shows "exp (dt_claims tok) < iat (dt_claims tok) \<and> verify E V (dt_jws tok) expected_aud now \<noteq> Inr vd"
proof -
  obtain c where s: "sign_jws E s c = Inr tok" and c: "iat c = t0" "exp c = wrap_i64 (t0 + wrap_i64 (int ttl))"
    using assms(3) by (auto simp: mint_def mint_with_def)
  have lt: "exp c < iat c"
    using minted_exp [OF assms(4-6)] assms(6,7) by (simp add: c u64_max_def)
  have tok: "dt_claims tok = c" using s by (rule sign_jws_claims)
  have "verify E V (dt_jws tok) expected_aud now \<noteq> Inr vd"
  proof
    assume v: "verify E V (dt_jws tok) expected_aud now = Inr vd"
    have "vd_claims vd = c" using verify_signed_claims [OF assms(1) _ s v] assms(2) tok by simp
    moreover have "iat (vd_claims vd) < exp (vd_claims vd)"
      using v unfolding verify_Inr by (auto simp: claims_valid_at_def)
    ultimately show False using lt by simp
  qed
  then show ?thesis using lt tok by simp
qed

theorem overflowing_lifetime_never_verifies_witness:
  "\<exists>c tok. mint (demo_env c) demo_signer 100 ''t1'' ''alice'' ''bot'' ''api'' [] [] u64_max = Inr tok \<and>
    verify (demo_env c) demo_verifier (dt_jws tok) ''api'' 100 \<noteq> Inr demo_parent"
proof -
  let ?c = "\<lparr>iss = ''alice'', sub = ''bot'', aud = ''api'', iat = 100, exp = 99, nbf = None, jti = ''t1'',
     allowed_actions = [], resource_patterns = [], act = None, constraints = None, extra = []\<rparr>"
  obtain tok where tok: "sign_jws (demo_env ?c) demo_signer ?c = Inr tok" "dt_claims tok = ?c"
    by (rule demo_sign [of demo_signer ?c ?c]) (simp_all add: demo_signer_def)
  have e: "wrap_i64 (100 + wrap_i64 (int u64_max)) = 99" by (simp add: wrap_i64_def u64_max_def)
  have m: "mint (demo_env ?c) demo_signer 100 ''t1'' ''alice'' ''bot'' ''api'' [] [] u64_max = Inr tok"
    using tok(1) by (simp add: mint_def mint_with_def e)
  have "verify (demo_env ?c) demo_verifier (dt_jws tok) ''api'' 100 \<noteq> Inr demo_parent"
    using overflowing_lifetime_never_verifies [OF demo_env_ok _ m, of demo_verifier "''api''" 100 demo_parent] tok(2)
    by (simp add: claims_round_trip_def demo_env_def is_i64_def i64_max_def i64_min_def u64_max_def)
  then show ?thesis using m by blast
qed

end
