(* ===== verification/HashChain.thy ===== *)
theory HashChain
  imports CoreError Json
begin

text \<open>
  The HMAC hash chain of the audit log, \<open>agentguard-core/src/decision/chain.rs\<close>.  The keyed
  hash comes from the \<open>hmac\<close> and \<open>sha2\<close> packages and is the parameter \<open>hmac\<close>, a function of the
  key and the message; hexadecimal text from the \<open>hex\<close> package is the parameter \<open>hex\<close>.  Nothing
  is assumed of either: tamper evidence is stated as \<open>equal records, or a collision\<close>.
\<close>

section \<open>State and operations\<close>

definition HASH_LEN :: nat where
  "HASH_LEN = 32"

definition zero_hash :: string where
  "zero_hash = replicate HASH_LEN CHR 0x00"

record hash_chain =
  hc_root :: string
  hc_head :: string
  hc_id :: "string option"

type_synonym keyed_hash = "string \<Rightarrow> string \<Rightarrow> string"
type_synonym chain_entry = "string \<times> string \<times> string"

definition chain_new :: "string \<Rightarrow> hash_chain" where
  "chain_new root_key = \<lparr>hc_root = root_key, hc_head = zero_hash, hc_id = None\<rparr>"

definition chain_resume :: "string \<Rightarrow> string \<Rightarrow> string \<Rightarrow> hash_chain" where
  "chain_resume root_key h ident = \<lparr>hc_root = root_key, hc_head = h, hc_id = Some ident\<rparr>"

text \<open>The lazily generated identity: \<open>fresh\<close> is the identifier a first call would draw.\<close>

definition chain_id :: "hash_chain \<Rightarrow> string \<Rightarrow> string \<times> hash_chain" where
  "chain_id c fresh =
    (case hc_id c of Some ident \<Rightarrow> (ident, c) | None \<Rightarrow> (fresh, c\<lparr>hc_id := Some fresh\<rparr>))"

definition adopt_id :: "hash_chain \<Rightarrow> string \<Rightarrow> hash_chain" where
  "adopt_id c ident = (case hc_id c of None \<Rightarrow> c\<lparr>hc_id := Some ident\<rparr> | Some _ \<Rightarrow> c)"

definition set_head :: "hash_chain \<Rightarrow> string \<Rightarrow> hash_chain" where
  "set_head c h = c\<lparr>hc_head := h\<rparr>"

definition chain_compute :: "keyed_hash \<Rightarrow> hash_chain \<Rightarrow> string \<Rightarrow> string \<Rightarrow> string" where
  "chain_compute hmac c prev canonical_record = hmac (hc_root c) (prev @ canonical_record)"

definition chain_append :: "keyed_hash \<Rightarrow> hash_chain \<Rightarrow> string \<Rightarrow> (string \<times> string) \<times> hash_chain" where
  "chain_append hmac c canonical_record =
    (let prev = hc_head c;
         new_hash = chain_compute hmac c prev canonical_record
     in ((prev, new_hash), c\<lparr>hc_head := new_hash\<rparr>))"

text \<open>The head moves only when the caller's persistence step succeeds.\<close>

definition try_append_with_io ::
  "keyed_hash \<Rightarrow> hash_chain \<Rightarrow> string \<Rightarrow> (string \<Rightarrow> string \<Rightarrow> 'e + 'a) \<Rightarrow> ('e + 'a) \<times> hash_chain" where
  "try_append_with_io hmac c canonical_record persist =
    (let prev = hc_head c;
         new_hash = chain_compute hmac c prev canonical_record;
         result = persist prev new_hash
     in (result, if is_ok result then c\<lparr>hc_head := new_hash\<rparr> else c))"

definition chain_verify ::
  "keyed_hash \<Rightarrow> (string \<Rightarrow> string) \<Rightarrow> hash_chain \<Rightarrow> string \<Rightarrow> string \<Rightarrow> string \<Rightarrow> unit core_result" where
  "chain_verify hmac hex c canonical_record claimed_prev claimed_hash =
    (let expected = hmac (hc_root c) (claimed_prev @ canonical_record) in
     if expected \<noteq> claimed_hash then
       Inl (Other (''hash mismatch: expected '' @ hex expected @ '', got '' @ hex claimed_hash))
     else Inr ())"

fun show_core_error :: "core_error \<Rightarrow> string" where
  "show_core_error (Io m) = ''io error: '' @ m"
| "show_core_error (JsonError m) = ''json error: '' @ m"
| "show_core_error (PolicyParse m f) = ''policy parse error in '' @ f @ '': '' @ m"
| "show_core_error (Schema m) = ''schema error: '' @ m"
| "show_core_error (InvalidPrincipal m) = ''invalid principal: '' @ m"
| "show_core_error (InvalidResource m) = ''invalid resource: '' @ m"
| "show_core_error (InvalidContext m) = ''invalid context: '' @ m"
| "show_core_error (InvalidToken m) = ''invalid delegation token: '' @ m"
| "show_core_error (TokenExpired m) = ''token expired at '' @ m"
| "show_core_error (TokenRevoked m) = ''delegation token revoked: '' @ m"
| "show_core_error (TokenSignature m) = ''token signature invalid: '' @ m"
| "show_core_error (TokenNotYetValid m) = ''token not yet valid (nbf='' @ m @ '')''"
| "show_core_error (Validation m) = ''policy validation failed: '' @ m"
| "show_core_error (EntitiesError m) = ''entities: '' @ m"
| "show_core_error (Walk m) = ''walk: '' @ m"
| "show_core_error (Other m) = ''other: '' @ m"

text \<open>The loop of \<open>verify_chain\<close> over the records, from record number \<open>i\<close> on.\<close>

fun verify_records ::
  "keyed_hash \<Rightarrow> (string \<Rightarrow> string) \<Rightarrow> hash_chain \<Rightarrow> nat \<Rightarrow> string \<Rightarrow> chain_entry list \<Rightarrow> string core_result" where
  "verify_records hmac hex c i expected_prev [] = Inr expected_prev"
| "verify_records hmac hex c i expected_prev ((canonical, prev, hash) # records) =
    (if prev \<noteq> expected_prev then
       Inl (Other (''record '' @ show_nat i @ '': prev_hash mismatch: expected '' @ hex expected_prev
         @ '', got '' @ hex prev))
     else and_then (map_err (\<lambda>e. Other (''record '' @ show_nat i @ '': '' @ show_core_error e))
         (chain_verify hmac hex c canonical prev hash)) (\<lambda>_.
       verify_records hmac hex c (i + 1) hash records))"

definition chain_verify_chain ::
  "keyed_hash \<Rightarrow> (string \<Rightarrow> string) \<Rightarrow> hash_chain \<Rightarrow> chain_entry list \<Rightarrow> unit core_result" where
  "chain_verify_chain hmac hex c records =
    and_then (verify_records hmac hex c 0 zero_hash records) (\<lambda>expected_prev.
     if hc_head c \<noteq> expected_prev then
       Inl (Other (''chain head mismatch: expected '' @ hex expected_prev @ '', got '' @ hex (hc_head c)))
     else Inr ())"

text \<open>Appending a list of records, with the entries a log would keep of them.\<close>

fun append_all :: "keyed_hash \<Rightarrow> hash_chain \<Rightarrow> string list \<Rightarrow> chain_entry list \<times> hash_chain" where
  "append_all hmac c [] = ([], c)"
| "append_all hmac c (r # rs) =
    (let ((prev, new_hash), c1) = chain_append hmac c r;
         (es, c2) = append_all hmac c1 rs
     in ((r, prev, new_hash) # es, c2))"

section \<open>The chain predicate\<close>

text \<open>The entries form a chain from \<open>prev\<close> to \<open>fin\<close> under the root key.\<close>

fun linked :: "keyed_hash \<Rightarrow> string \<Rightarrow> string \<Rightarrow> chain_entry list \<Rightarrow> string \<Rightarrow> bool" where
  "linked hmac root prev [] fin \<longleftrightarrow> fin = prev"
| "linked hmac root prev ((r, p, h) # es) fin \<longleftrightarrow>
    p = prev \<and> h = hmac root (prev @ r) \<and> linked hmac root h es fin"

lemma verify_records_linked:
  "verify_records hmac hex c i prev es = Inr fin \<longleftrightarrow> linked hmac (hc_root c) prev es fin"
  by (induction es arbitrary: i prev)
    (auto simp: chain_verify_def Let_def result_simps split: if_splits)

lemma verify_records_total:
  "(\<exists>fin. verify_records hmac hex c i prev es = Inr fin) \<or> (\<exists>e. verify_records hmac hex c i prev es = Inl e)"
  by (cases "verify_records hmac hex c i prev es") auto

lemma chain_verify_chain_linked:
  "chain_verify_chain hmac hex c es = Inr u \<longleftrightarrow> linked hmac (hc_root c) zero_hash es (hc_head c)"
  by (auto simp: chain_verify_chain_def result_simps verify_records_linked split: if_splits)

lemma linked_append:
  "linked hmac root prev (xs @ ys) fin \<longleftrightarrow> (\<exists>mid. linked hmac root prev xs mid \<and> linked hmac root mid ys fin)"
  by (induction xs arbitrary: prev) auto

lemma linked_last_unique: "linked hmac root prev es a \<Longrightarrow> linked hmac root prev es b \<Longrightarrow> a = b"
  by (induction es arbitrary: prev) auto

lemma append_all_linked:
  "append_all hmac c rs = (es, c') \<Longrightarrow>
    linked hmac (hc_root c) (hc_head c) es (hc_head c') \<and> map fst es = rs \<and> hc_root c' = hc_root c"
proof (induction rs arbitrary: c es)
  case (Cons r rs)
  let ?c1 = "c\<lparr>hc_head := hmac (hc_root c) (hc_head c @ r)\<rparr>"
  obtain es1 where es1: "append_all hmac ?c1 rs = (es1, c')"
      "es = (r, hc_head c, hmac (hc_root c) (hc_head c @ r)) # es1"
    using Cons.prems by (auto simp: chain_append_def chain_compute_def Let_def split: prod.splits)
  then show ?case using Cons.IH [OF es1(1)] by simp
qed simp

lemma linked_length:
  "linked hmac root prev es fin \<Longrightarrow> length prev = HASH_LEN \<Longrightarrow> \<forall>m. length (hmac root m) = HASH_LEN \<Longrightarrow>
    length fin = HASH_LEN"
  by (induction es arbitrary: prev) auto

section \<open>Tamper evidence\<close>

text \<open>The messages hashed along a chain.\<close>

definition chain_messages :: "chain_entry list \<Rightarrow> string set" where
  "chain_messages es = (\<lambda>(r, p, h). p @ r) ` set es"

text \<open>
  The hash separates the messages of the two chains, has a fixed length, and does not hit the
  genesis value on them.
\<close>

definition collision_free :: "(string \<Rightarrow> string) \<Rightarrow> string set \<Rightarrow> bool" where
  "collision_free h ms \<longleftrightarrow> inj_on h ms \<and> zero_hash \<notin> h ` ms \<and> (\<forall>m. length (h m) = HASH_LEN)"

lemma linked_snoc:
  "linked hmac root prev (es @ [(r, p, h)]) fin \<longleftrightarrow>
    linked hmac root prev es p \<and> h = hmac root (p @ r) \<and> fin = h"
  by (auto simp: linked_append)

lemma linked_unique:
  assumes "linked hmac root zero_hash es fin" "linked hmac root zero_hash es' fin"
    and "collision_free (hmac root) (chain_messages es \<union> chain_messages es')"
  shows "es = es'"
  using assms
proof (induction es arbitrary: es' fin rule: rev_induct)
  case Nil
  show ?case
  proof (cases es' rule: rev_cases)
    case (snoc ys y)
    obtain r p h where y: "y = (r, p, h)" by (cases y)
    then have "zero_hash = hmac root (p @ r)" using Nil.prems(1,2) snoc by (auto simp: linked_snoc)
    moreover have "p @ r \<in> chain_messages es'" using snoc y by (force simp: chain_messages_def)
    ultimately show ?thesis using Nil.prems(3) by (auto simp: collision_free_def)
  qed simp
next
  case (snoc x xs)
  obtain r p h where x: "x = (r, p, h)" by (cases x)
  have hx: "linked hmac root zero_hash xs p" "fin = hmac root (p @ r)" "h = fin"
    using snoc.prems(1) by (simp_all add: x linked_snoc)
  have mx: "p @ r \<in> chain_messages (xs @ [x])" by (force simp: chain_messages_def x)
  have cf: "inj_on (hmac root) (chain_messages (xs @ [x]) \<union> chain_messages es')"
      "zero_hash \<notin> hmac root ` chain_messages (xs @ [x])" "\<forall>m. length (hmac root m) = HASH_LEN"
    using snoc.prems(3) by (auto simp: collision_free_def)
  show ?case
  proof (cases es' rule: rev_cases)
    case Nil
    then have "zero_hash = hmac root (p @ r)" using snoc.prems(2) hx by simp
    then show ?thesis using cf(2) mx by auto
  next
    case (snoc ys y)
    obtain r' p' h' where y: "y = (r', p', h')" by (cases y)
    have hy: "linked hmac root zero_hash ys p'" "fin = hmac root (p' @ r')" "h' = fin"
      using snoc.prems(2) by (simp_all add: snoc y linked_snoc)
    have my: "p' @ r' \<in> chain_messages es'" by (force simp: chain_messages_def snoc y)
    have "p @ r = p' @ r'" using inj_onD [OF cf(1)] hx(2) hy(2) mx my by blast
    moreover have "length p = length p'"
      using linked_length [OF hx(1)] linked_length [OF hy(1)] cf(3) by (simp add: zero_hash_def)
    ultimately have same: "p = p'" "r = r'" by simp_all
    have "collision_free (hmac root) (chain_messages xs \<union> chain_messages ys)"
      using snoc.prems(3) by (auto simp: collision_free_def chain_messages_def snoc intro: inj_on_subset)
    then have "xs = ys" using snoc.IH [OF hx(1)] hy(1) same(1) by simp
    then show ?thesis using same hx(3) hy(3) x y snoc by simp
  qed
qed

section \<open>Properties\<close>


definition sample_hmac :: keyed_hash where
  "sample_hmac k m = take 32 (rev m @ replicate 32 CHR ''x'')"


text \<open>
  Appending any records to a fresh chain and then verifying the entries kept of them
  succeeds, and the records are kept in order.
\<close>

theorem chain_append_then_verify:
  assumes "append_all hmac (chain_new root) rs = (es, c)"
  shows "chain_verify_chain hmac hex c es = Inr () \<and> map fst es = rs"
  using append_all_linked [OF assms] by (simp add: chain_verify_chain_linked chain_new_def)

theorem chain_append_then_verify_witness:
  "\<exists>es c. append_all sample_hmac (chain_new ''key'') [''a'', ''b''] = (es, c) \<and>
    chain_verify_chain sample_hmac (\<lambda>s. s) c es = Inr () \<and> map fst es = [''a'', ''b'']"
  using chain_append_then_verify [of sample_hmac "''key''" "[''a'', ''b'']"]
  by (cases "append_all sample_hmac (chain_new ''key'') [''a'', ''b'']") blast

text \<open>
  Appending with a persistence step is atomic: when the step fails the chain is unchanged,
  so a retry computes the same hash; when it succeeds the head is the hash that was handed to
  the step.
\<close>

theorem try_append_atomic:
  "try_append_with_io hmac c r persist =
    (case persist (hc_head c) (hmac (hc_root c) (hc_head c @ r)) of
       Inl e \<Rightarrow> (Inl e, c)
     | Inr a \<Rightarrow> (Inr a, c\<lparr>hc_head := hmac (hc_root c) (hc_head c @ r)\<rparr>))"
  by (simp add: try_append_with_io_def chain_compute_def Let_def split: sum.splits)

end
