(* ===== verification/Trace.thy ===== *)
theory Trace
  imports CoreError
begin

text \<open>
  W3C trace context, \<open>agentguard-core/src/observability/span.rs\<close>: identifiers, the
  \<open>traceparent\<close> text form and its parser.  Hexadecimal text comes from the \<open>hex\<close> package and is
  the parameter record \<open>hex_codec\<close>; the two flag digits and \<open>u8::from_str_radix\<close> belong to the
  standard library and are defined here.
\<close>

record hex_codec =
  hex_encode :: "string \<Rightarrow> string"
  hex_decode :: "string \<Rightarrow> string + string"

definition TRACE_ID_LEN :: nat where "TRACE_ID_LEN = 16"
definition SPAN_ID_LEN :: nat where "SPAN_ID_LEN = 8"

record trace_context =
  tc_trace_id :: string
  tc_span_id :: string
  tc_flags :: nat

definition trace_new :: "string \<Rightarrow> string \<Rightarrow> trace_context" where
  "trace_new trace_id span_id = \<lparr>tc_trace_id = trace_id, tc_span_id = span_id, tc_flags = 1\<rparr>"

text \<open>A child keeps the trace and the flags and takes a fresh span.\<close>

definition trace_child :: "trace_context \<Rightarrow> string \<Rightarrow> trace_context" where
  "trace_child t fresh_span = t\<lparr>tc_span_id := fresh_span\<rparr>"

definition parse_trace_id :: "hex_codec \<Rightarrow> string \<Rightarrow> string core_result" where
  "parse_trace_id H s =
    and_then (map_err (\<lambda>e. Other (''trace_id hex: '' @ e)) (hex_decode H s)) (\<lambda>bytes.
     if length bytes \<noteq> TRACE_ID_LEN then
       Inl (Other (''trace_id must be '' @ show_nat TRACE_ID_LEN @ '' bytes, got '' @ show_nat (length bytes)))
     else Inr bytes)"

definition parse_span_id :: "hex_codec \<Rightarrow> string \<Rightarrow> string core_result" where
  "parse_span_id H s =
    and_then (map_err (\<lambda>e. Other (''span_id hex: '' @ e)) (hex_decode H s)) (\<lambda>bytes.
     if length bytes \<noteq> SPAN_ID_LEN then
       Inl (Other (''span_id must be '' @ show_nat SPAN_ID_LEN @ '' bytes, got '' @ show_nat (length bytes)))
     else Inr bytes)"

definition hex_digit :: "nat \<Rightarrow> char" where
  "hex_digit d = (if d < 10 then char_of (48 + d) else char_of (87 + d))"

definition hex_value :: "char \<Rightarrow> nat option" where
  "hex_value c =
    (let n = of_char c in
     if 48 \<le> n \<and> n \<le> 57 then Some (n - 48)
     else if 97 \<le> n \<and> n \<le> 102 then Some (n - 87)
     else if 65 \<le> n \<and> n \<le> 70 then Some (n - 55)
     else None)"

text \<open>The format \<open>02x\<close> of a byte, and \<open>u8::from_str_radix\<close> in base 16 with its error texts.\<close>

definition show_hex2 :: "nat \<Rightarrow> string" where
  "show_hex2 b = [hex_digit (b div 16), hex_digit (b mod 16)]"

fun hex_digits_value :: "nat \<Rightarrow> string \<Rightarrow> string + nat" where
  "hex_digits_value acc [] = Inr acc"
| "hex_digits_value acc (c # cs) =
    (case hex_value c of
       None \<Rightarrow> Inl ''invalid digit found in string''
     | Some d \<Rightarrow>
         if acc * 16 + d > 255 then Inl ''number too large to fit in target type''
         else hex_digits_value (acc * 16 + d) cs)"

definition parse_u8_hex :: "string \<Rightarrow> string + nat" where
  "parse_u8_hex s =
    (case s of
       [] \<Rightarrow> Inl ''cannot parse integer from empty string''
     | [c] \<Rightarrow> if c = CHR ''+'' \<or> c = CHR ''-'' then Inl ''invalid digit found in string''
              else hex_digits_value 0 [c]
     | c # cs \<Rightarrow> if c = CHR ''+'' then hex_digits_value 0 cs else hex_digits_value 0 s)"

definition show_trace :: "hex_codec \<Rightarrow> trace_context \<Rightarrow> string" where
  "show_trace H t =
    ''00-'' @ hex_encode H (tc_trace_id t) @ ''-'' @ hex_encode H (tc_span_id t) @ ''-'' @ show_hex2 (tc_flags t)"

definition parse_trace :: "hex_codec \<Rightarrow> string \<Rightarrow> trace_context core_result" where
  "parse_trace H s =
    (case split_on CHR ''-'' s of
       [version, t, p, f] \<Rightarrow>
         if \<not> starts_with version ''00'' then Inl (Other (''unsupported traceparent version: '' @ version))
         else and_then (parse_trace_id H t) (\<lambda>trace_id.
              and_then (parse_span_id H p) (\<lambda>span_id.
              and_then (map_err (\<lambda>e. Other (''flags hex: '' @ e)) (parse_u8_hex f)) (\<lambda>flags.
              Inr \<lparr>tc_trace_id = trace_id, tc_span_id = span_id, tc_flags = flags\<rparr>)))
     | parts \<Rightarrow> Inl (Other (''traceparent must have 4 dash-separated parts, got '' @ show_nat (length parts))))"

definition trace_wf :: "trace_context \<Rightarrow> bool" where
  "trace_wf t \<longleftrightarrow> length (tc_trace_id t) = TRACE_ID_LEN \<and> length (tc_span_id t) = SPAN_ID_LEN \<and> tc_flags t < 256"

text \<open>What the package promises: decoding inverts encoding, and hexadecimal text has no dash.\<close>

definition hex_codec_ok :: "hex_codec \<Rightarrow> bool" where
  "hex_codec_ok H \<longleftrightarrow> (\<forall>b. hex_decode H (hex_encode H b) = Inr b \<and> CHR ''-'' \<notin> set (hex_encode H b))"

section \<open>Lemmas\<close>

lemma hex_value_digit: "d < 16 \<Longrightarrow> hex_value (hex_digit d) = Some d"
  by (auto simp: hex_value_def hex_digit_def Let_def of_char_of)

lemma hex_digit_not_sign: "d < 16 \<Longrightarrow> hex_digit d \<noteq> CHR ''+'' \<and> hex_digit d \<noteq> CHR ''-''"
  using hex_value_digit [of d] by (auto simp: hex_value_def)

lemma parse_show_hex2: "b < 256 \<Longrightarrow> parse_u8_hex (show_hex2 b) = Inr b"
  using hex_digit_not_sign [of "b div 16"]
  by (simp add: show_hex2_def parse_u8_hex_def hex_value_digit)

lemma parse_trace_wf:
  assumes "parse_trace H s = Inr t"
  shows "trace_wf t"
proof -
  have "hex_digits_value a cs = Inr f \<Longrightarrow> a < 256 \<Longrightarrow> f < 256" for a cs f
    by (induction a cs rule: hex_digits_value.induct) (auto split: option.splits if_splits)
  then have "parse_u8_hex cs = Inr f \<Longrightarrow> f < 256" for cs f
    by (auto simp: parse_u8_hex_def simp del: hex_digits_value.simps(2) split: list.splits if_splits)
  then show ?thesis using assms
    by (auto simp: parse_trace_def parse_trace_id_def parse_span_id_def trace_wf_def result_simps
        split: list.splits if_splits)
qed

section \<open>An instance of the codec\<close>

fun pairs_decode :: "string \<Rightarrow> string + string" where
  "pairs_decode [] = Inr []"
| "pairs_decode [c] = Inl ''Odd number of digits''"
| "pairs_decode (a # b # cs) =
    (case (hex_value a, hex_value b) of
       (Some x, Some y) \<Rightarrow> and_then (pairs_decode cs) (\<lambda>r. Inr (char_of (x * 16 + y) # r))
     | _ \<Rightarrow> Inl ''Invalid character'')"

definition plain_hex :: hex_codec where
  "plain_hex = \<lparr>hex_encode = (\<lambda>b. concat (map (\<lambda>c. show_hex2 (of_char c)) b)), hex_decode = pairs_decode\<rparr>"

lemma of_char_div: "(of_char c :: nat) div 16 < 16"
  using nat_of_char_less_256 [of c] by (simp add: div_less_iff_less_mult)

lemma plain_hex_ok: "hex_codec_ok plain_hex"
  unfolding hex_codec_ok_def
proof (intro allI conjI)
  fix b
  show "hex_decode plain_hex (hex_encode plain_hex b) = Inr b"
    by (induction b) (simp_all add: plain_hex_def show_hex2_def hex_value_digit of_char_div)
  show "CHR ''-'' \<notin> set (hex_encode plain_hex b)"
    using hex_digit_not_sign of_char_div
    by (induction b) (auto simp: plain_hex_def show_hex2_def dest: sym)
qed

section \<open>Properties\<close>

text \<open>
  Parsing the text form of a trace context gives back the context, and whatever parses is a
  well-formed context: identifiers of the right size and flags of one byte.
\<close>

theorem trace_round_trip:
  assumes "hex_codec_ok H" "trace_wf t"
  shows "parse_trace H (show_trace H t) = Inr t \<and> (\<forall>s u. parse_trace H s = Inr u \<longrightarrow> trace_wf u)"
proof -
  have nd: "\<And>b. hex_decode H (hex_encode H b) = Inr b" "\<And>b. CHR ''-'' \<notin> set (hex_encode H b)"
    using assms(1) by (simp_all add: hex_codec_ok_def)
  have f: "tc_flags t < 256" "tc_flags t div 16 < 16" "tc_flags t mod 16 < 16"
    using assms(2) by (simp_all add: trace_wf_def div_less_iff_less_mult)
  have "CHR ''-'' \<notin> set (show_hex2 (tc_flags t))"
    using hex_digit_not_sign [OF f(2)] hex_digit_not_sign [OF f(3)] by (auto simp: show_hex2_def)
  then have "split_on CHR ''-'' (show_trace H t) =
    [''00'', hex_encode H (tc_trace_id t), hex_encode H (tc_span_id t), show_hex2 (tc_flags t)]"
    using split_on_join_with [of "[''00'', hex_encode H (tc_trace_id t), hex_encode H (tc_span_id t),
      show_hex2 (tc_flags t)]" "CHR ''-''"] nd(2) by (simp add: show_trace_def)
  then have "parse_trace H (show_trace H t) = Inr t"
    using assms(2) f(1) nd(1)
    by (simp add: parse_trace_def starts_with_iff parse_trace_id_def parse_span_id_def parse_show_hex2 trace_wf_def)
  then show ?thesis using parse_trace_wf by blast
qed

theorem trace_round_trip_witness:
  "parse_trace plain_hex (show_trace plain_hex (trace_new (replicate 16 CHR ''t'') (replicate 8 CHR ''s'')))
    = Inr (trace_new (replicate 16 CHR ''t'') (replicate 8 CHR ''s''))"
  using trace_round_trip [OF plain_hex_ok, of "trace_new (replicate 16 CHR ''t'') (replicate 8 CHR ''s'')"]
  by (simp add: trace_wf_def trace_new_def TRACE_ID_LEN_def SPAN_ID_LEN_def)

end
