(* ===== verification/Request.thy ===== *)
theory Request
  imports Trace Json
begin

text \<open>
  Authorization requests, \<open>agentguard-core/src/\<close>\<open>principal.rs\<close>, \<open>action.rs\<close>, \<open>resource.rs\<close>,
  \<open>context.rs\<close> and \<open>request.rs\<close>: their data, builders, JSON form (as the derived serializers
  write it) and conversion to a request of the Cedar policy engine.

  The engine is the \<open>cedar-policy\<close> package, a parameter record \<open>cedar_env\<close> over its opaque
  types: \<open>'s\<close> schemas, \<open>'c\<close> contexts, \<open>'p\<close> policy sets and \<open>'e\<close> entity sets.
\<close>

section \<open>Data\<close>

datatype principal =
    User (principal_uid: string) (principal_attrs: "(string \<times> json) list")
  | Agent (principal_uid: string) (principal_parent: "string option") (principal_attrs: "(string \<times> json) list")

record agent_action =
  aa_tool :: string
  aa_operation :: "string option"

record resource =
  res_entity_type :: string
  res_uid :: string
  res_attrs :: "(string \<times> json) list"

record agent_context =
  ctx_args :: json
  ctx_session :: "(string \<times> json) list"

record agent_request =
  rq_principal :: principal
  rq_action :: agent_action
  rq_resource :: resource
  rq_context :: agent_context
  rq_request_id :: "string option"
  rq_trace :: "trace_context option"
  rq_tenant_id :: "string option"

section \<open>Principals, actions and resources\<close>

definition principal_user :: "string \<Rightarrow> principal" where
  "principal_user uid = User uid []"

definition principal_agent :: "string \<Rightarrow> principal" where
  "principal_agent uid = Agent uid None []"

definition principal_subagent :: "string \<Rightarrow> string \<Rightarrow> principal" where
  "principal_subagent uid parent = Agent uid (Some parent) []"

fun principal_with_attr :: "principal \<Rightarrow> string \<Rightarrow> json \<Rightarrow> principal" where
  "principal_with_attr (User uid attrs) k v = User uid (AList.update k v attrs)"
| "principal_with_attr (Agent uid parent attrs) k v = Agent uid parent (AList.update k v attrs)"

fun principal_entity_type :: "principal \<Rightarrow> string" where
  "principal_entity_type (User _ _) = ''User''"
| "principal_entity_type (Agent _ _ _) = ''Agent''"

definition show_principal :: "principal \<Rightarrow> string" where
  "show_principal p = principal_entity_type p @ ''::'' @ [CHR 0x22] @ principal_uid p @ [CHR 0x22]"

definition action_tool :: "string \<Rightarrow> agent_action" where
  "action_tool name = \<lparr>aa_tool = name, aa_operation = None\<rparr>"

definition action_tool_op :: "string \<Rightarrow> string \<Rightarrow> agent_action" where
  "action_tool_op name opn = \<lparr>aa_tool = name, aa_operation = Some opn\<rparr>"

definition action_id :: "agent_action \<Rightarrow> string" where
  "action_id a =
    (case aa_operation a of
       Some opn \<Rightarrow> ''ToolCall::'' @ aa_tool a @ ''::'' @ opn
     | None \<Rightarrow> ''ToolCall::'' @ aa_tool a)"

definition show_action :: "agent_action \<Rightarrow> string" where
  "show_action a = ''Action::'' @ [CHR 0x22] @ action_id a @ [CHR 0x22]"

definition resource_new :: "string \<Rightarrow> string \<Rightarrow> resource" where
  "resource_new ty uid = \<lparr>res_entity_type = ty, res_uid = uid, res_attrs = []\<rparr>"

definition resource_with_attr :: "resource \<Rightarrow> string \<Rightarrow> json \<Rightarrow> resource" where
  "resource_with_attr r k v = r\<lparr>res_attrs := AList.update k v (res_attrs r)\<rparr>"

definition show_resource :: "resource \<Rightarrow> string" where
  "show_resource r = res_entity_type r @ ''::'' @ [CHR 0x22] @ res_uid r @ [CHR 0x22]"

section \<open>Context\<close>

definition context_new :: agent_context where
  "context_new = \<lparr>ctx_args = Null, ctx_session = []\<rparr>"

definition context_with_arg :: "agent_context \<Rightarrow> string \<Rightarrow> json \<Rightarrow> agent_context" where
  "context_with_arg c k v =
    c\<lparr>ctx_args := Object (AList.update k v (case as_object (ctx_args c) of Some m \<Rightarrow> m | None \<Rightarrow> []))\<rparr>"

definition context_with_session :: "agent_context \<Rightarrow> string \<Rightarrow> json \<Rightarrow> agent_context" where
  "context_with_session c k v = c\<lparr>ctx_session := AList.update k v (ctx_session c)\<rparr>"

definition to_json_object :: "agent_context \<Rightarrow> (string \<times> json) list" where
  "to_json_object c =
    (let m = (case ctx_args c of Object args \<Rightarrow> fold (\<lambda>(k, v) m. AList.update k v m) args [] | _ \<Rightarrow> []) in
     if ctx_session c \<noteq> [] then AList.update ''session'' (Object (ctx_session c)) m else m)"

section \<open>Requests\<close>

definition request_new :: "string \<Rightarrow> principal \<Rightarrow> agent_action \<Rightarrow> resource \<Rightarrow> agent_context \<Rightarrow> agent_request" where
  "request_new uuid p a r c =
    \<lparr>rq_principal = p, rq_action = a, rq_resource = r, rq_context = c,
     rq_request_id = Some uuid, rq_trace = None, rq_tenant_id = None\<rparr>"

definition with_request_id :: "agent_request \<Rightarrow> string \<Rightarrow> agent_request" where
  "with_request_id q ident = q\<lparr>rq_request_id := Some ident\<rparr>"

definition with_trace :: "agent_request \<Rightarrow> trace_context \<Rightarrow> agent_request" where
  "with_trace q t = q\<lparr>rq_trace := Some t\<rparr>"

definition with_tenant_id :: "agent_request \<Rightarrow> string \<Rightarrow> agent_request" where
  "with_tenant_id q s = q\<lparr>rq_tenant_id := (if trim s = [] then None else Some (trim s))\<rparr>"

record request_builder =
  rb_principal :: principal
  rb_action :: "agent_action option"
  rb_resource :: "resource option"
  rb_context :: agent_context
  rb_request_id :: "string option"
  rb_trace :: "trace_context option"
  rb_tenant_id :: "string option"

definition builder_new :: "principal \<Rightarrow> request_builder" where
  "builder_new p =
    \<lparr>rb_principal = p, rb_action = None, rb_resource = None, rb_context = context_new,
     rb_request_id = None, rb_trace = None, rb_tenant_id = None\<rparr>"

definition builder_traceparent :: "hex_codec \<Rightarrow> request_builder \<Rightarrow> string \<Rightarrow> request_builder core_result" where
  "builder_traceparent H b tp = and_then (parse_trace H tp) (\<lambda>t. Inr (b\<lparr>rb_trace := Some t\<rparr>))"

definition builder_tenant_id :: "request_builder \<Rightarrow> string \<Rightarrow> request_builder" where
  "builder_tenant_id b s = b\<lparr>rb_tenant_id := (if trim s = [] then None else Some (trim s))\<rparr>"

definition build :: "string \<Rightarrow> request_builder \<Rightarrow> agent_request core_result" where
  "build uuid b =
    and_then (ok_or (InvalidPrincipal ''action is required'') (rb_action b)) (\<lambda>a.
    and_then (ok_or (InvalidResource ''resource is required'') (rb_resource b)) (\<lambda>r.
    let q = request_new uuid (rb_principal b) a r (rb_context b);
        q = (case rb_request_id b of Some ident \<Rightarrow> q\<lparr>rq_request_id := Some ident\<rparr> | None \<Rightarrow> q)
    in Inr (q\<lparr>rq_trace := rb_trace b, rq_tenant_id := rb_tenant_id b\<rparr>)))"

section \<open>JSON forms\<close>

definition opt_field :: "string \<Rightarrow> json option \<Rightarrow> (string \<times> json) list" where
  "opt_field k v = (case v of None \<Rightarrow> [] | Some j \<Rightarrow> [(k, j)])"

fun principal_to_value :: "principal \<Rightarrow> json" where
  "principal_to_value (User uid attrs) =
    Object [(''type'', String ''user''), (''uid'', String uid), (''attrs'', Object attrs)]"
| "principal_to_value (Agent uid parent attrs) =
    Object ([(''type'', String ''agent''), (''uid'', String uid)]
      @ opt_field ''parent_uid'' (map_option String parent) @ [(''attrs'', Object attrs)])"

definition action_to_value :: "agent_action \<Rightarrow> json" where
  "action_to_value a =
    Object ([(''tool'', String (aa_tool a))] @ opt_field ''operation'' (map_option String (aa_operation a)))"

definition resource_to_value :: "resource \<Rightarrow> json" where
  "resource_to_value r =
    Object [(''entity_type'', String (res_entity_type r)), (''uid'', String (res_uid r)), (''attrs'', Object (res_attrs r))]"

definition context_to_value :: "agent_context \<Rightarrow> json" where
  "context_to_value c = Object [(''args'', ctx_args c), (''session'', Object (ctx_session c))]"

definition request_to_value :: "hex_codec \<Rightarrow> agent_request \<Rightarrow> json" where
  "request_to_value H q =
    Object ([(''principal'', principal_to_value (rq_principal q)), (''action'', action_to_value (rq_action q)),
       (''resource'', resource_to_value (rq_resource q)), (''context'', context_to_value (rq_context q))]
      @ opt_field ''request_id'' (map_option String (rq_request_id q))
      @ opt_field ''trace'' (map_option (\<lambda>t. String (show_trace H t)) (rq_trace q))
      @ opt_field ''tenant_id'' (map_option String (rq_tenant_id q)))"

section \<open>Requests of the policy engine\<close>

type_synonym entity_uid = "string \<times> string"
type_synonym 'c cedar_request = "entity_uid \<times> entity_uid \<times> entity_uid \<times> 'c"

datatype cedar_decision = CedarAllow | CedarDeny

record cedar_response =
  cr_decision :: cedar_decision
  cr_reason :: "string list"
  cr_errors :: "string list"

record ('s, 'c, 'p, 'e) cedar_env =
  entity_type_name :: "string \<Rightarrow> string + unit"
  context_from_json :: "json \<Rightarrow> ('s \<times> entity_uid) option \<Rightarrow> string + 'c"
  cedar_request_new :: "entity_uid \<Rightarrow> entity_uid \<Rightarrow> entity_uid \<Rightarrow> 'c \<Rightarrow> 's option \<Rightarrow> string + unit"
  is_authorized :: "'c cedar_request \<Rightarrow> 'p \<Rightarrow> 'e \<Rightarrow> cedar_response"
  entity_values :: "'e \<Rightarrow> json list"

definition to_cedar_request ::
  "('s, 'c, 'p, 'e) cedar_env \<Rightarrow> agent_request \<Rightarrow> 's option \<Rightarrow> 'c cedar_request core_result" where
  "to_cedar_request C q schema =
    (let ptype = principal_entity_type (rq_principal q) in
     and_then (map_err (\<lambda>e. InvalidPrincipal (ptype @ '': '' @ e)) (entity_type_name C ptype)) (\<lambda>_.
     let principal_uid = (ptype, principal_uid (rq_principal q)) in
     and_then (map_err (\<lambda>e. InvalidPrincipal (''Action: '' @ e)) (entity_type_name C ''Action'')) (\<lambda>_.
     let action_uid = (''Action'', action_id (rq_action q));
         rtype = res_entity_type (rq_resource q) in
     and_then (map_err (\<lambda>e. InvalidResource (rtype @ '': '' @ e)) (entity_type_name C rtype)) (\<lambda>_.
     let resource_uid = (rtype, res_uid (rq_resource q));
         ctx_json = Object (to_json_object (rq_context q)) in
     and_then (map_err InvalidContext
         (context_from_json C ctx_json (map_option (\<lambda>s. (s, action_uid)) schema))) (\<lambda>context.
     and_then (map_err InvalidContext
         (cedar_request_new C principal_uid action_uid resource_uid context schema)) (\<lambda>_.
     Inr (principal_uid, action_uid, resource_uid, context)))))))"

section \<open>Lemmas\<close>

lemma fold_update_self:
  "distinct_keys (m @ args) \<Longrightarrow> fold (\<lambda>(k, v) m. AList.update k v m) args m = m @ args"
proof (induction args arbitrary: m)
  case (Cons kv args)
  obtain k v where kv: "kv = (k, v)" by fastforce
  have "k \<notin> fst ` set m" using Cons.prems kv by auto
  then have "AList.update k v m = m @ [(k, v)]" by (induction m) auto
  then show ?case using Cons.IH [of "m @ [(k, v)]"] Cons.prems kv by simp
qed simp

lemma to_json_object_args:
  "distinct_keys args \<Longrightarrow> ctx_args c = Object args \<Longrightarrow>
    to_json_object c = (if ctx_session c \<noteq> [] then AList.update ''session'' (Object (ctx_session c)) args else args)"
  using fold_update_self [of "[]" args] by (simp add: to_json_object_def)

definition context_wf :: "agent_context \<Rightarrow> bool" where
  "context_wf c \<longleftrightarrow> json_wf (ctx_args c) \<and> json_wf (Object (ctx_session c))"

definition request_wf :: "agent_request \<Rightarrow> bool" where
  "request_wf q \<longleftrightarrow> json_wf (Object (principal_attrs (rq_principal q))) \<and>
    json_wf (Object (res_attrs (rq_resource q))) \<and> context_wf (rq_context q)"

lemma json_wf_principal: "json_wf (Object (principal_attrs p)) \<Longrightarrow> json_wf (principal_to_value p)"
  by (cases p) (auto simp: opt_field_def split: option.splits)

lemma json_wf_action: "json_wf (action_to_value a)"
  by (auto simp: action_to_value_def opt_field_def split: option.splits)

lemma json_wf_resource: "json_wf (Object (res_attrs r)) \<Longrightarrow> json_wf (resource_to_value r)"
  by (simp add: resource_to_value_def)

lemma json_wf_context: "context_wf c \<Longrightarrow> json_wf (context_to_value c)"
  by (simp add: context_to_value_def context_wf_def)

lemmas request_value_wf = json_wf_principal json_wf_action json_wf_resource json_wf_context

section \<open>Properties\<close>

text \<open>
  The context handed to the policy engine holds every tool argument under its own name and,
  when the request carries session metadata, that metadata and nothing else under the name
  \<open>session\<close>: an argument of that name cannot replace it.
\<close>

theorem context_object_fields:
  assumes "ctx_args c = Object args" "distinct_keys args" "ctx_session c \<noteq> []"
  shows "map_of (to_json_object c) ''session'' = Some (Object (ctx_session c)) \<and>
    (\<forall>k. k \<noteq> ''session'' \<longrightarrow> map_of (to_json_object c) k = map_of args k)"
  using assms by (simp add: to_json_object_args alist_simps)

theorem context_object_fields_witness:
  "map_of (to_json_object (context_with_session (context_with_arg context_new ''session'' (Bool True)) ''mfa'' (Bool False))) ''session''
    = Some (Object [(''mfa'', Bool False)])"
  using context_object_fields
    [of "context_with_session (context_with_arg context_new ''session'' (Bool True)) ''mfa'' (Bool False)" "[(''session'', Bool True)]"]
  by (simp add: context_with_session_def context_with_arg_def context_new_def)

text \<open>
  Without session metadata the same argument does pass as session metadata: a caller that sends
  no session but an argument named \<open>session\<close> chooses what policies read there.
\<close>

theorem argument_poses_as_session:
  "to_json_object (context_with_arg context_new ''session'' (Object [(''mfa'', Bool True)]))
    = [(''session'', Object [(''mfa'', Bool True)])]"
  by (simp add: to_json_object_def context_with_arg_def context_new_def)

text \<open>
  Two different actions can have the same identifier in the policy engine: a tool name that
  contains the separator reads like a tool with an operation.
\<close>

theorem action_id_ambiguous:
  "action_tool ''s3::PutObject'' \<noteq> action_tool_op ''s3'' ''PutObject'' \<and>
    action_id (action_tool ''s3::PutObject'') = action_id (action_tool_op ''s3'' ''PutObject'')"
  by (simp add: action_tool_def action_tool_op_def action_id_def)

end
