(* ===== verification/Cache.thy ===== *)
theory Cache
  imports Request
begin

text \<open>
  The decision cache, \<open>agentguard-core/src/decision/cache.rs\<close>: the key a request hashes to, and
  the cache with time-to-live, policy versions and counters on top of a least-recently-used map.

  SHA-256 (\<open>sha\<close>) and the map (the \<open>lru\<close> package, a parameter record of its operations) come
  from packages.  The locale \<open>lru_laws\<close> states what the documentation of the map promises.
\<close>

section \<open>Cache keys\<close>

fun be_bytes :: "nat \<Rightarrow> nat \<Rightarrow> string" where
  "be_bytes 0 n = []"
| "be_bytes (Suc k) n = be_bytes k (n div 256) @ [char_of (n mod 256)]"

text \<open>A field as it is fed to the hash: its length in four bytes (cut to 32 bits), then its bytes.\<close>

definition hash_chunk :: "string \<Rightarrow> string" where
  "hash_chunk s = be_bytes 4 (length s mod 2 ^ 32) @ s"

definition key_fields ::
  "json_text \<Rightarrow> hex_codec \<Rightarrow> ('s, 'c, 'p, 'e) cedar_env \<Rightarrow> agent_request \<Rightarrow> 'e \<Rightarrow> string list" where
  "key_fields T H C q entities =
    [write_canonical_value T (principal_to_value (rq_principal q)),
     write_canonical_value T (action_to_value (rq_action q)),
     write_canonical_value T (resource_to_value (rq_resource q)),
     write_canonical_value T (context_to_value (rq_context q))]
    @ sort (map (write_canonical_value T) (entity_values C entities))
    @ (case rq_trace q of None \<Rightarrow> [] | Some t \<Rightarrow> [show_trace H t])"

definition key_preimage ::
  "json_text \<Rightarrow> hex_codec \<Rightarrow> ('s, 'c, 'p, 'e) cedar_env \<Rightarrow> agent_request \<Rightarrow> 'e \<Rightarrow> nat \<Rightarrow> string" where
  "key_preimage T H C q entities policy_version =
    concat (map hash_chunk (key_fields T H C q entities)) @ be_bytes 8 policy_version"

definition cache_key ::
  "(string \<Rightarrow> string) \<Rightarrow> json_text \<Rightarrow> hex_codec \<Rightarrow> ('s, 'c, 'p, 'e) cedar_env \<Rightarrow> agent_request \<Rightarrow> 'e \<Rightarrow> nat \<Rightarrow> string" where
  "cache_key sha T H C q entities policy_version = sha (key_preimage T H C q entities policy_version)"

section \<open>The cache\<close>

record cached_decision =
  cd_effect :: string
  cd_policies :: "string list"
  cd_reasons :: "string list"
  cd_version :: nat

record cache_config =
  cc_capacity :: nat
  cc_allow_ttl :: duration
  cc_deny_ttl :: duration
  cc_cache_denies :: bool

type_synonym cache_slot = "cached_decision \<times> instant"

record 'l lru_ops =
  lru_new :: "nat \<Rightarrow> 'l"
  lru_peek :: "'l \<Rightarrow> string \<Rightarrow> cache_slot option"
  lru_push :: "'l \<Rightarrow> string \<Rightarrow> cache_slot \<Rightarrow> (string \<times> cache_slot) option \<times> 'l"
  lru_pop :: "'l \<Rightarrow> string \<Rightarrow> 'l"
  lru_iter :: "'l \<Rightarrow> (string \<times> cache_slot) list"
  lru_len :: "'l \<Rightarrow> nat"

record 'l decision_cache =
  dc_config :: cache_config
  dc_policy_version :: nat
  dc_inner :: 'l
  dc_hits :: nat
  dc_misses :: nat
  dc_evictions :: nat

definition default_config :: cache_config where
  "default_config =
    \<lparr>cc_capacity = 10000, cc_allow_ttl = 60 * 10 ^ 9, cc_deny_ttl = 5 * 10 ^ 9, cc_cache_denies = True\<rparr>"

definition u64_incr :: "nat \<Rightarrow> nat" where
  "u64_incr n = (n + 1) mod 2 ^ 64"

definition cache_try_new :: "'l lru_ops \<Rightarrow> instant \<Rightarrow> cache_config \<Rightarrow> string + 'l decision_cache" where
  "cache_try_new L now config =
    (if cc_capacity config = 0 then Inl ''cache capacity must be greater than zero''
     else if instant_add now (cc_allow_ttl config) = None then
       Inl ''allow cache TTL exceeds the monotonic clock range''
     else if instant_add now (cc_deny_ttl config) = None then
       Inl ''deny cache TTL exceeds the monotonic clock range''
     else Inr \<lparr>dc_config = config, dc_policy_version = 0, dc_inner = lru_new L (cc_capacity config),
       dc_hits = 0, dc_misses = 0, dc_evictions = 0\<rparr>)"

definition cache_disabled :: "'l lru_ops \<Rightarrow> 'l decision_cache" where
  "cache_disabled L =
    \<lparr>dc_config = default_config\<lparr>cc_capacity := 1\<rparr>, dc_policy_version = 0, dc_inner = lru_new L 1,
     dc_hits = 0, dc_misses = 0, dc_evictions = 0\<rparr>"

definition invalidate_all :: "'l decision_cache \<Rightarrow> 'l decision_cache" where
  "invalidate_all c = c\<lparr>dc_policy_version := u64_incr (dc_policy_version c)\<rparr>"

definition set_policy_version :: "'l decision_cache \<Rightarrow> nat \<Rightarrow> 'l decision_cache" where
  "set_policy_version c v = c\<lparr>dc_policy_version := v\<rparr>"

definition cache_get ::
  "'l lru_ops \<Rightarrow> 'l decision_cache \<Rightarrow> instant \<Rightarrow> string \<Rightarrow> cached_decision option \<times> 'l decision_cache" where
  "cache_get L c now key =
    (let miss = (None, c\<lparr>dc_misses := u64_incr (dc_misses c)\<rparr>) in
     case lru_peek L (dc_inner c) key of
       Some (cached, expires_at) \<Rightarrow>
         if cd_version cached \<noteq> dc_policy_version c then miss
         else if now \<ge> expires_at then miss
         else (Some cached, c\<lparr>dc_hits := u64_incr (dc_hits c)\<rparr>)
     | None \<Rightarrow> miss)"

definition slot_stale :: "instant \<Rightarrow> nat \<Rightarrow> cache_slot \<Rightarrow> bool" where
  "slot_stale now v slot = (cd_version (fst slot) \<noteq> v \<or> now \<ge> snd slot)"

definition sweep_stale :: "'l lru_ops \<Rightarrow> 'l decision_cache \<Rightarrow> instant \<Rightarrow> nat \<times> 'l decision_cache" where
  "sweep_stale L c now =
    (let before = lru_len L (dc_inner c);
         stale = map fst (filter (\<lambda>(k, slot). slot_stale now (dc_policy_version c) slot) (lru_iter L (dc_inner c)));
         inner = fold (\<lambda>k l. lru_pop L l k) stale (dc_inner c)
     in (before - lru_len L inner, c\<lparr>dc_inner := inner\<rparr>))"

definition put_ttl :: "cache_config \<Rightarrow> string \<Rightarrow> duration option" where
  "put_ttl cfg effect =
    (if effect = ''allow'' then Some (cc_allow_ttl cfg)
     else if effect = ''deny'' \<and> cc_cache_denies cfg then Some (cc_deny_ttl cfg)
     else None)"

text \<open>\<open>None\<close> is the panic of a deadline past the range of the clock.\<close>

definition cache_put ::
  "'l lru_ops \<Rightarrow> 'l decision_cache \<Rightarrow> instant \<Rightarrow> string \<Rightarrow> cached_decision \<Rightarrow> 'l decision_cache option" where
  "cache_put L c now key decision =
    (case put_ttl (dc_config c) (cd_effect decision) of
       None \<Rightarrow> Some c
     | Some ttl \<Rightarrow>
       (case instant_add now ttl of
          None \<Rightarrow> None
        | Some deadline \<Rightarrow>
          (let (prev, inner) = lru_push L (dc_inner c) key (decision, deadline);
               c = c\<lparr>dc_inner := inner\<rparr>
           in Some (case prev of
                Some (evicted_key, _) \<Rightarrow>
                  if evicted_key \<noteq> key then c\<lparr>dc_evictions := u64_incr (dc_evictions c)\<rparr> else c
              | None \<Rightarrow> c))))"

definition try_config_from_overrides ::
  "(string \<Rightarrow> string + duration) \<Rightarrow> string option \<Rightarrow> string option \<Rightarrow> string option \<Rightarrow> string + cache_config" where
  "try_config_from_overrides parse_duration cache_ttl deny_ttl capacity =
    and_then (case cache_ttl of
        None \<Rightarrow> Inr default_config
      | Some t \<Rightarrow> and_then (map_err (\<lambda>e. ''AGENTGUARD_CACHE_TTL: '' @ e) (parse_duration t))
          (\<lambda>d. Inr (default_config\<lparr>cc_allow_ttl := d\<rparr>))) (\<lambda>cfg.
    and_then (case deny_ttl of
        None \<Rightarrow> Inr cfg
      | Some t \<Rightarrow> and_then (map_err (\<lambda>e. ''AGENTGUARD_DENY_CACHE_TTL: '' @ e) (parse_duration t))
          (\<lambda>d. Inr (cfg\<lparr>cc_deny_ttl := d\<rparr>))) (\<lambda>cfg.
    case capacity of
        None \<Rightarrow> Inr cfg
      | Some s \<Rightarrow>
        (case parse_uint u64_max s of
           Some n \<Rightarrow> if n > 0 then Inr (cfg\<lparr>cc_capacity := n\<rparr>)
                     else Inl ''AGENTGUARD_CACHE_CAPACITY must be a positive integer when set''
         | None \<Rightarrow> Inl ''AGENTGUARD_CACHE_CAPACITY must be a positive integer when set'')))"

section \<open>The hashed bytes determine the fields\<close>

lemma length_be_bytes [simp]: "length (be_bytes k n) = k"
  by (induction k arbitrary: n) auto

lemma be_bytes_inj: "m < 256 ^ k \<Longrightarrow> n < 256 ^ k \<Longrightarrow> be_bytes k m = be_bytes k n \<Longrightarrow> m = n"
proof (induction k arbitrary: m n)
  case (Suc k)
  have "m div 256 = n div 256"
    using Suc.prems by (intro Suc.IH) (simp_all add: div_less_iff_less_mult mult.commute)
  moreover have "m mod 256 = n mod 256" using Suc.prems(3) by (simp add: char_of_eq_iff take_bit_eq_mod)
  ultimately show ?case by (metis div_mod_decomp)
qed simp

definition field_fits :: "string \<Rightarrow> bool" where
  "field_fits s \<longleftrightarrow> length s < 2 ^ 32"

lemma hash_chunk_inj:
  assumes "hash_chunk s @ r = hash_chunk t @ r'" "field_fits s" "field_fits t"
  shows "s = t \<and> r = r'"
proof -
  have "be_bytes 4 (length s mod 2 ^ 32) = be_bytes 4 (length t mod 2 ^ 32)" "s @ r = t @ r'"
    using assms(1) by (simp_all add: hash_chunk_def)
  moreover have "length s < 256 ^ 4" "length t < 256 ^ 4" using assms(2,3) by (simp_all add: field_fits_def)
  ultimately have "length s = length t" "s @ r = t @ r'"
    using assms(2,3) be_bytes_inj [of "length s" 4 "length t"] by (simp_all add: field_fits_def)
  then show ?thesis by simp
qed

lemma chunks_inj:
  "concat (map hash_chunk xs) @ be_bytes 8 v = concat (map hash_chunk ys) @ be_bytes 8 w \<Longrightarrow>
    list_all field_fits xs \<Longrightarrow> list_all field_fits ys \<Longrightarrow> xs = ys \<and> be_bytes 8 v = be_bytes 8 w"
proof (induction xs arbitrary: ys)
  case Nil
  show ?case
  proof (cases ys)
    case (Cons y ys')
    have "length (hash_chunk y) \<ge> 4" by (simp add: hash_chunk_def)
    moreover have "8 = length (hash_chunk y) + length (concat (map hash_chunk ys')) + 8"
      using arg_cong [OF Nil.prems(1), of length] Cons by simp
    ultimately show ?thesis by simp
  qed (use Nil.prems in simp)
next
  case (Cons x xs)
  show ?case
  proof (cases ys)
    case Nil
    have "length (hash_chunk x) \<ge> 4" by (simp add: hash_chunk_def)
    moreover have "length (hash_chunk x) + length (concat (map hash_chunk xs)) + 8 = 8"
      using arg_cong [OF Cons.prems(1), of length] Nil by simp
    ultimately show ?thesis by simp
  next
    case (Cons y ys')
    have e: "hash_chunk x @ concat (map hash_chunk xs) @ be_bytes 8 v
        = hash_chunk y @ concat (map hash_chunk ys') @ be_bytes 8 w"
      using Cons.prems(1) Cons by simp
    have "x = y \<and> concat (map hash_chunk xs) @ be_bytes 8 v = concat (map hash_chunk ys') @ be_bytes 8 w"
      by (rule hash_chunk_inj [OF e]) (use Cons.prems Cons in simp_all)
    then show ?thesis using Cons.IH [of ys'] Cons.prems Cons by simp
  qed
qed

lemma tagged_suffix:
  assumes "xs @ xo = ys @ yo" "list_all P xs" "list_all P ys"
    and "xo = [] \<or> (\<exists>s. xo = [s] \<and> \<not> P s)" "yo = [] \<or> (\<exists>s. yo = [s] \<and> \<not> P s)"
  shows "xs = ys \<and> xo = yo"
proof -
  have f: "filter P (xs @ xo) = xs" "filter P (ys @ yo) = ys"
    using assms(2-5) by (auto simp: list_all_iff)
  then have "xs = ys" using assms(1) by metis
  then show ?thesis using assms(1) by simp
qed

definition entity_objects :: "('s, 'c, 'p, 'e) cedar_env \<Rightarrow> 'e \<Rightarrow> bool" where
  "entity_objects C es \<longleftrightarrow> (\<forall>v \<in> set (entity_values C es). json_wf v \<and> (\<exists>m. v = Object m))"

lemma key_fields_inj:
  assumes eq: "key_fields T H C q es = key_fields T H C q' es'"
    and obj: "entity_objects C es" "entity_objects C es'"
  shows "write_canonical_value T (principal_to_value (rq_principal q)) = write_canonical_value T (principal_to_value (rq_principal q'))
    \<and> write_canonical_value T (action_to_value (rq_action q)) = write_canonical_value T (action_to_value (rq_action q'))
    \<and> write_canonical_value T (resource_to_value (rq_resource q)) = write_canonical_value T (resource_to_value (rq_resource q'))
    \<and> write_canonical_value T (context_to_value (rq_context q)) = write_canonical_value T (context_to_value (rq_context q'))
    \<and> mset (map (write_canonical_value T) (entity_values C es)) = mset (map (write_canonical_value T) (entity_values C es'))
    \<and> map_option (show_trace H) (rq_trace q) = map_option (show_trace H) (rq_trace q')"
proof -
  let ?tr = "\<lambda>q. case rq_trace q of None \<Rightarrow> [] | Some t \<Rightarrow> [show_trace H t]"
  let ?es = "\<lambda>es. sort (map (write_canonical_value T) (entity_values C es))"
  have tail: "?es es @ ?tr q = ?es es' @ ?tr q'" using eq by (simp add: key_fields_def)
  have P: "list_all (\<lambda>s. starts_with s ''{'') (?es es)" if "entity_objects C es" for es
    using that by (auto simp: list_all_iff entity_objects_def starts_with_iff)
  have N: "?tr q = [] \<or> (\<exists>s. ?tr q = [s] \<and> \<not> starts_with s ''{'')" for q
    by (auto simp: show_trace_def starts_with_iff split: option.splits)
  from tagged_suffix [OF tail P [OF obj(1)] P [OF obj(2)] N N]
  have "?es es = ?es es'" "?tr q = ?tr q'" by simp_all
  moreover from this(1) have "mset (map (write_canonical_value T) (entity_values C es))
      = mset (map (write_canonical_value T) (entity_values C es'))"
    by (metis mset_sort)
  ultimately show ?thesis using eq by (auto simp: key_fields_def split: option.splits)
qed

text \<open>What a cache key identifies: the request up to key order and to the fields it leaves out.\<close>

definition same_question ::
  "json_text \<Rightarrow> ('s, 'c, 'p, 'e) cedar_env \<Rightarrow> agent_request \<Rightarrow> 'e \<Rightarrow> agent_request \<Rightarrow> 'e \<Rightarrow> bool" where
  "same_question T C q es q' es' \<longleftrightarrow>
    json_norm (\<lambda>n. n) (principal_to_value (rq_principal q)) = json_norm (\<lambda>n. n) (principal_to_value (rq_principal q')) \<and>
    rq_action q = rq_action q' \<and>
    json_norm (\<lambda>n. n) (resource_to_value (rq_resource q)) = json_norm (\<lambda>n. n) (resource_to_value (rq_resource q')) \<and>
    json_norm (\<lambda>n. n) (context_to_value (rq_context q)) = json_norm (\<lambda>n. n) (context_to_value (rq_context q')) \<and>
    mset (map (json_norm (\<lambda>n. n)) (entity_values C es)) = mset (map (json_norm (\<lambda>n. n)) (entity_values C es'))"

lemma canonical_mset:
  assumes "json_text_ok T" "\<forall>v \<in> set vs. json_wf v" "\<forall>v \<in> set ws. json_wf v"
    and "mset (map (write_canonical_value T) vs) = mset (map (write_canonical_value T) ws)"
  shows "mset (map (json_norm (\<lambda>n. n)) vs) = mset (map (json_norm (\<lambda>n. n)) ws)"
proof -
  let ?g = "\<lambda>s. SOME n. \<exists>v. json_wf v \<and> write_canonical_value T v = s \<and> n = json_norm (\<lambda>n. n) v"
  have g: "?g (write_canonical_value T v) = json_norm (\<lambda>n. n) v" if wf: "json_wf v" for v
  proof (rule some_equality)
    show "\<exists>w. json_wf w \<and> write_canonical_value T w = write_canonical_value T v \<and>
        json_norm (\<lambda>n. n) v = json_norm (\<lambda>n. n) w" using wf by (intro exI [of _ v]) simp
    show "n = json_norm (\<lambda>n. n) v"
      if n: "\<exists>w. json_wf w \<and> write_canonical_value T w = write_canonical_value T v \<and> n = json_norm (\<lambda>n. n) w" for n
    proof -
      obtain w where "json_wf w" "write_canonical_value T w = write_canonical_value T v" "n = json_norm (\<lambda>n. n) w"
        using n by blast
      then show ?thesis using canonical_eq_iff [OF assms(1), of w v] wf by simp
    qed
  qed
  have m: "image_mset ?g (mset (map (write_canonical_value T) xs)) = mset (map (json_norm (\<lambda>n. n)) xs)"
    if "\<forall>v \<in> set xs. json_wf v" for xs
    using that by (induction xs) (simp_all add: g)
  show ?thesis using m [OF assms(2)] m [OF assms(3)] assms(4) by simp
qed

lemma action_value_inj:
  "json_norm (\<lambda>n. n) (action_to_value a) = json_norm (\<lambda>n. n) (action_to_value b) \<Longrightarrow> a = (b :: agent_action)"
  by (cases "aa_operation a"; cases "aa_operation b")
    (auto simp: action_to_value_def opt_field_def intro: agent_action.equality split: if_splits)

lemma key_preimage_inj:
  assumes T: "json_text_ok T" and wf: "request_wf q" "request_wf q'" "entity_objects C es" "entity_objects C es'"
    and fit: "list_all field_fits (key_fields T H C q es)" "list_all field_fits (key_fields T H C q' es')"
    and v: "v < 2 ^ 64" "v' < 2 ^ 64"
    and eq: "key_preimage T H C q es v = key_preimage T H C q' es' v'"
  shows "same_question T C q es q' es' \<and> map_option (show_trace H) (rq_trace q) = map_option (show_trace H) (rq_trace q') \<and> v = v'"
proof -
  have f: "key_fields T H C q es = key_fields T H C q' es'" "be_bytes 8 v = be_bytes 8 v'"
    using chunks_inj [OF eq [unfolded key_preimage_def] fit] by simp_all
  have "v = v'" using be_bytes_inj [of v 8 v'] v f(2) by simp
  moreover have W: "json_wf (principal_to_value (rq_principal q))" "json_wf (principal_to_value (rq_principal q'))"
      "json_wf (resource_to_value (rq_resource q))" "json_wf (resource_to_value (rq_resource q'))"
      "json_wf (context_to_value (rq_context q))" "json_wf (context_to_value (rq_context q'))"
    using wf(1,2) by (auto simp: request_wf_def intro: request_value_wf)
  note k = key_fields_inj [OF f(1) wf(3,4)]
  have "rq_action q = rq_action q'"
    using k canonical_eq_iff [OF T json_wf_action json_wf_action] by (auto intro: action_value_inj)
  moreover have "mset (map (json_norm (\<lambda>n. n)) (entity_values C es)) = mset (map (json_norm (\<lambda>n. n)) (entity_values C es'))"
    by (rule canonical_mset [OF T]) (use k wf(3,4) in \<open>simp_all add: entity_objects_def\<close>)
  ultimately show ?thesis
    using k canonical_eq_iff [OF T W(1,2)] canonical_eq_iff [OF T W(3,4)] canonical_eq_iff [OF T W(5,6)]
    by (simp add: same_question_def)
qed

lemma cache_put_cases:
  assumes "cache_put L c now key d = Some c'"
  obtains "put_ttl (dc_config c) (cd_effect d) = None" "c' = c"
  | ttl r l' where "put_ttl (dc_config c) (cd_effect d) = Some ttl" "now + ttl < instant_limit"
      "lru_push L (dc_inner c) key (d, now + ttl) = (r, l')" "dc_inner c' = l'"
      "dc_policy_version c' = dc_policy_version c" "dc_config c' = dc_config c"
  using assms
  by (auto simp: cache_put_def instant_add_def Let_def split: option.splits prod.splits if_splits)

section \<open>Sequences of operations\<close>

datatype cache_op =
    OpGet instant string
  | OpPut instant string cached_decision
  | OpSweep instant
  | OpInvalidate
  | OpSetVersion nat

fun cache_step :: "'l lru_ops \<Rightarrow> cache_op \<Rightarrow> 'l decision_cache \<Rightarrow> 'l decision_cache option" where
  "cache_step L (OpGet now key) c = Some (snd (cache_get L c now key))"
| "cache_step L (OpPut now key d) c = cache_put L c now key d"
| "cache_step L (OpSweep now) c = Some (snd (sweep_stale L c now))"
| "cache_step L OpInvalidate c = Some (invalidate_all c)"
| "cache_step L (OpSetVersion v) c = Some (set_policy_version c v)"

fun cache_run :: "'l lru_ops \<Rightarrow> cache_op list \<Rightarrow> 'l decision_cache \<Rightarrow> 'l decision_cache option" where
  "cache_run L [] c = Some c"
| "cache_run L (p # ps) c = Option.bind (cache_step L p c) (cache_run L ps)"

text \<open>Every binding was put, for its key, by one of the operations, with the deadline of its effect.\<close>

definition slots_from ::
  "'l lru_ops \<Rightarrow> cache_config \<Rightarrow> cache_op set \<Rightarrow> 'l decision_cache \<Rightarrow> bool" where
  "slots_from L cfg ops c \<longleftrightarrow>
    (\<forall>k x. lru_peek L (dc_inner c) k = Some x \<longrightarrow>
      (\<exists>t ttl. OpPut t k (fst x) \<in> ops \<and> put_ttl cfg (cd_effect (fst x)) = Some ttl \<and> snd x = t + ttl))"

lemma u64_incr_neq: "u64_incr v \<noteq> v"
proof (cases "v + 1 < 2 ^ 64")
  case False
  have "u64_incr v < 2 ^ 64" by (simp add: u64_incr_def)
  then show ?thesis using False by (cases "v + 1 = 2 ^ 64") (auto simp: u64_incr_def)
qed (simp add: u64_incr_def)

lemma slots_from_mono: "slots_from L cfg A c \<Longrightarrow> A \<subseteq> B \<Longrightarrow> slots_from L cfg B c"
  unfolding slots_from_def by blast

lemma cache_get_unchanged:
  "dc_inner (snd (cache_get L c now key)) = dc_inner c \<and> dc_config (snd (cache_get L c now key)) = dc_config c \<and>
    dc_policy_version (snd (cache_get L c now key)) = dc_policy_version c"
  by (simp add: cache_get_def Let_def split: option.splits prod.splits)

lemma cache_get_Some:
  "fst (cache_get L c now key) = Some d \<longleftrightarrow>
    (\<exists>deadline. lru_peek L (dc_inner c) key = Some (d, deadline) \<and> cd_version d = dc_policy_version c \<and> now < deadline)"
  by (auto simp: cache_get_def Let_def split: option.splits prod.splits)

section \<open>The map underneath\<close>

text \<open>
  What the documentation of the least-recently-used map promises: \<open>push\<close> binds the key and
  returns the old binding of that key, or the binding it evicted to stay within the capacity, or
  nothing; \<open>pop\<close> unbinds; iteration yields every binding once.
\<close>

locale lru_laws =
  fixes L :: "'l lru_ops" and inv :: "nat \<Rightarrow> 'l \<Rightarrow> bool"
  assumes new_inv: "0 < cap \<Longrightarrow> inv cap (lru_new L cap)"
    and new_peek: "0 < cap \<Longrightarrow> lru_peek L (lru_new L cap) k = None"
    and push_inv: "inv cap l \<Longrightarrow> lru_push L l k x = (r, l') \<Longrightarrow> inv cap l'"
    and push_peek: "inv cap l \<Longrightarrow> lru_push L l k x = (r, l') \<Longrightarrow> lru_peek L l' k = Some x"
    and push_other: "inv cap l \<Longrightarrow> lru_push L l k x = (r, l') \<Longrightarrow> k' \<noteq> k \<Longrightarrow>
      lru_peek L l' k' = (if map_option fst r = Some k' then None else lru_peek L l k')"
    and push_result: "inv cap l \<Longrightarrow> lru_push L l k x = (Some (k', y), l') \<Longrightarrow> lru_peek L l k' = Some y"
    and push_room: "inv cap l \<Longrightarrow> lru_push L l k x = (r, l') \<Longrightarrow> lru_len L l < cap \<Longrightarrow> k' \<noteq> k \<Longrightarrow>
      map_option fst r \<noteq> Some k'"
    and pop_inv: "inv cap l \<Longrightarrow> inv cap (lru_pop L l k)"
    and pop_peek: "inv cap l \<Longrightarrow> lru_peek L (lru_pop L l k) k' = (if k' = k then None else lru_peek L l k')"
    and iter_peek: "inv cap l \<Longrightarrow> (k, x) \<in> set (lru_iter L l) \<longleftrightarrow> lru_peek L l k = Some x"
    and len_cap: "inv cap l \<Longrightarrow> lru_len L l \<le> cap"
    and len_card: "inv cap l \<Longrightarrow> lru_len L l = card {k. lru_peek L l k \<noteq> None}"
begin

lemma pop_all_inv: "inv cap l \<Longrightarrow> inv cap (fold (\<lambda>k l. lru_pop L l k) ks l)"
  by (induction ks arbitrary: l) (auto intro: pop_inv)

lemma pop_all_peek:
  "inv cap l \<Longrightarrow> lru_peek L (fold (\<lambda>k l. lru_pop L l k) ks l) k = (if k \<in> set ks then None else lru_peek L l k)"
  by (induction ks arbitrary: l) (auto simp: pop_inv pop_peek)

lemma sweep_inner:
  assumes "inv cap (dc_inner c)" "sweep_stale L c now = (n, c')"
  shows "inv cap (dc_inner c')"
    and "lru_peek L (dc_inner c') k =
      (case lru_peek L (dc_inner c) k of
         None \<Rightarrow> None
       | Some x \<Rightarrow> if slot_stale now (dc_policy_version c) x then None else Some x)"
  using assms iter_peek [OF assms(1)]
  by (auto simp: sweep_stale_def Let_def pop_all_inv pop_all_peek image_iff split: option.splits)

lemma put_inner:
  assumes "inv cap (dc_inner c)" "cache_put L c now key d = Some c'"
  shows "inv cap (dc_inner c') \<and> dc_policy_version c' = dc_policy_version c \<and> dc_config c' = dc_config c"
  by (rule cache_put_cases [OF assms(2)]) (use assms(1) push_inv in \<open>simp, metis\<close>)

lemma put_peek:
  assumes "inv cap (dc_inner c)" "cache_put L c now key d = Some c'" "lru_peek L (dc_inner c') k = Some x"
  shows "lru_peek L (dc_inner c) k = Some x \<or>
    (\<exists>ttl. k = key \<and> put_ttl (dc_config c) (cd_effect d) = Some ttl \<and> x = (d, now + ttl))"
proof (rule cache_put_cases [OF assms(2)])
  fix ttl r l'
  assume p: "put_ttl (dc_config c) (cd_effect d) = Some ttl"
    "lru_push L (dc_inner c) key (d, now + ttl) = (r, l')" "dc_inner c' = l'"
  show ?thesis
  proof (cases "k = key")
    case True
    then show ?thesis using push_peek [OF assms(1) p(2)] p assms(3) by simp
  next
    case False
    then show ?thesis using push_other [OF assms(1) p(2), of k] p(3) assms(3) by (simp split: if_splits)
  qed
qed (use assms(3) in simp)

lemma put_get:
  assumes "inv cap (dc_inner c)" "cache_put L c now key d = Some c'"
    and "put_ttl (dc_config c) (cd_effect d) = Some ttl" "cd_version d = dc_policy_version c" "t < now + ttl"
  shows "fst (cache_get L c' t key) = Some d"
proof (rule cache_put_cases [OF assms(2)])
  fix ttl' r l'
  assume "put_ttl (dc_config c) (cd_effect d) = Some ttl'"
    "lru_push L (dc_inner c) key (d, now + ttl') = (r, l')" "dc_inner c' = l'"
    "dc_policy_version c' = dc_policy_version c"
  then show ?thesis using push_peek [OF assms(1)] assms(3-5) by (simp add: cache_get_def Let_def)
qed (use assms(3) in simp)

lemma step_keeps:
  assumes "cache_step L p c = Some c'" "inv cap (dc_inner c)" "slots_from L (dc_config c) A c"
  shows "inv cap (dc_inner c') \<and> dc_config c' = dc_config c \<and> slots_from L (dc_config c) (insert p A) c'"
proof (cases p)
  case (OpGet now key)
  then show ?thesis using assms cache_get_unchanged [of L c now key] by (auto simp: slots_from_def)
next
  case (OpPut now key d)
  then have p: "cache_put L c now key d = Some c'" using assms(1) by simp
  have "slots_from L (dc_config c) (insert p A) c'"
    unfolding slots_from_def
  proof (intro allI impI)
    fix k x assume "lru_peek L (dc_inner c') k = Some x"
    from put_peek [OF assms(2) p this]
    show "\<exists>t ttl. OpPut t k (fst x) \<in> insert p A \<and> put_ttl (dc_config c) (cd_effect (fst x)) = Some ttl \<and> snd x = t + ttl"
    proof
      assume "lru_peek L (dc_inner c) k = Some x"
      then show ?thesis using assms(3) unfolding slots_from_def by blast
    qed (use OpPut in auto)
  qed
  then show ?thesis using put_inner [OF assms(2) p] by simp
next
  case (OpSweep now)
  obtain n where s: "sweep_stale L c now = (n, c')" using assms(1) OpSweep by (cases "sweep_stale L c now") simp
  have "dc_config c' = dc_config c" using s by (auto simp: sweep_stale_def Let_def)
  then show ?thesis using sweep_inner [OF assms(2) s] assms(3) OpSweep
    by (auto simp: slots_from_def split: option.splits if_splits)
next
  case OpInvalidate
  then show ?thesis using assms by (auto simp: slots_from_def invalidate_all_def)
next
  case (OpSetVersion v)
  then show ?thesis using assms by (auto simp: slots_from_def set_policy_version_def)
qed

lemma run_keeps:
  "cache_run L ps c = Some c' \<Longrightarrow> inv cap (dc_inner c) \<Longrightarrow> slots_from L (dc_config c) A c \<Longrightarrow>
    inv cap (dc_inner c') \<and> dc_config c' = dc_config c \<and> slots_from L (dc_config c) (A \<union> set ps) c'"
proof (induction ps arbitrary: c A)
  case (Cons p ps)
  then obtain c1 where c1: "cache_step L p c = Some c1" "cache_run L ps c1 = Some c'"
    by (auto simp: Option.bind_eq_Some_conv)
  then show ?case using Cons.IH [OF c1(2), of "insert p A"] step_keeps [OF c1(1) Cons.prems(2,3)] by simp
qed simp

lemma fresh_run:
  assumes "cache_try_new L t0 cfg = Inr c0" "cache_run L ops c0 = Some c"
  shows "inv (cc_capacity cfg) (dc_inner c) \<and> dc_config c = cfg \<and> slots_from L cfg (set ops) c"
proof -
  have cap: "0 < cc_capacity cfg" and c0: "dc_inner c0 = lru_new L (cc_capacity cfg)" "dc_config c0 = cfg"
    using assms(1) by (auto simp: cache_try_new_def split: if_splits)
  have "slots_from L cfg {} c0" using c0 new_peek [OF cap] by (simp add: slots_from_def)
  then show ?thesis using run_keeps [OF assms(2), of "cc_capacity cfg" "{}"] c0 new_inv [OF cap] by simp
qed

lemma served_from_put:
  assumes "cache_try_new L t0 cfg = Inr c0" "cache_run L ops c0 = Some c" "fst (cache_get L c now key) = Some d"
  shows "\<exists>t ttl. OpPut t key d \<in> set ops \<and> put_ttl cfg (cd_effect d) = Some ttl \<and> now < t + ttl \<and>
    cd_version d = dc_policy_version c"
proof -
  obtain deadline where "lru_peek L (dc_inner c) key = Some (d, deadline)" "cd_version d = dc_policy_version c"
    "now < deadline" using assms(3) by (auto simp: cache_get_Some)
  then show ?thesis using fresh_run [OF assms(1,2)] unfolding slots_from_def by fastforce
qed

lemma bounded:
  assumes "cache_try_new L t0 cfg = Inr c0" "cache_run L ops c0 = Some c"
  shows "lru_len L (dc_inner c) \<le> cc_capacity cfg"
  using fresh_run [OF assms] len_cap by blast

end

section \<open>A list implementation of the map\<close>

text \<open>Most recent binding first; a push beyond the capacity drops the last one.\<close>

type_synonym list_lru = "nat \<times> (string \<times> cache_slot) list"

fun list_push :: "list_lru \<Rightarrow> string \<Rightarrow> cache_slot \<Rightarrow> (string \<times> cache_slot) option \<times> list_lru" where
  "list_push (c, m) k x =
    (case map_of m k of
       Some old \<Rightarrow> (Some (k, old), (c, (k, x) # AList.delete k m))
     | None \<Rightarrow> if length m < c then (None, (c, (k, x) # m)) else (Some (last m), (c, (k, x) # butlast m)))"

definition list_lru_ops :: "list_lru lru_ops" where
  "list_lru_ops =
    \<lparr>lru_new = (\<lambda>c. (c, [])), lru_peek = (\<lambda>l k. map_of (snd l) k), lru_push = list_push,
     lru_pop = (\<lambda>l k. (fst l, AList.delete k (snd l))), lru_iter = snd, lru_len = (\<lambda>l. length (snd l))\<rparr>"

definition list_lru_inv :: "nat \<Rightarrow> list_lru \<Rightarrow> bool" where
  "list_lru_inv cap l \<longleftrightarrow> 0 < cap \<and> fst l = cap \<and> distinct_keys (snd l) \<and> length (snd l) \<le> cap"

lemma list_push_cases:
  assumes "list_lru_inv cap l" "list_push l k x = (r, l')"
  obtains (refresh) old where "map_of (snd l) k = Some old" "r = Some (k, old)" "l' = (cap, (k, x) # AList.delete k (snd l))"
  | (room) "map_of (snd l) k = None" "length (snd l) < cap" "r = None" "l' = (cap, (k, x) # snd l)"
  | (evict) m k' y where "map_of (snd l) k = None" "snd l = m @ [(k', y)]" "k' \<noteq> k" "map_of m k' = None"
      "Suc (length m) = cap" "r = Some (k', y)" "l' = (cap, (k, x) # m)"
proof (cases "map_of (snd l) k")
  case (Some old)
  then show ?thesis using assms that(1) by (cases l) (simp add: list_lru_inv_def)
next
  case None
  show ?thesis
  proof (cases "length (snd l) < cap")
    case True
    then show ?thesis using None assms that(2) by (cases l) (simp add: list_lru_inv_def)
  next
    case False
    then have "snd l \<noteq> []" "length (snd l) = cap" using assms(1) by (auto simp: list_lru_inv_def)
    then obtain m k' y where m: "snd l = m @ [(k', y)]" by (metis rev_exhaust surj_pair)
    then have "k' \<noteq> k" "map_of m k' = None"
      using None assms(1) by (auto simp: list_lru_inv_def map_of_eq_None_iff map_add_def split: option.splits)
    moreover have "list_push l k x = (Some (last (snd l)), (cap, (k, x) # butlast (snd l)))"
      using None False assms(1) by (cases l) (simp add: list_lru_inv_def)
    ultimately show ?thesis using None m assms(2) that(3) \<open>length (snd l) = cap\<close> by simp
  qed
qed

interpretation list_lru: lru_laws list_lru_ops list_lru_inv
proof (unfold_locales, goal_cases)
  case (3 cap l k x r l')
  then have p: "list_push l k x = (r, l')" by (simp add: list_lru_ops_def)
  from 3(1) p show ?case
  proof (cases rule: list_push_cases)
    case (refresh old)
    then have "k \<in> fst ` set (snd l)" by (force dest: map_of_SomeD)
    then show ?thesis using refresh 3(1) length_delete_present [of "snd l" k]
      by (auto simp: list_lru_inv_def alist_simps)
  next
    case room
    then show ?thesis using 3(1) by (auto simp: list_lru_inv_def map_of_eq_None_iff)
  next
    case (evict m k' y)
    then show ?thesis using 3(1) by (auto simp: list_lru_inv_def map_of_eq_None_iff)
  qed
next
  case (4 cap l k x r l')
  then have p: "list_push l k x = (r, l')" by (simp add: list_lru_ops_def)
  from 4(1) p show ?case by (cases rule: list_push_cases) (auto simp: list_lru_ops_def)
next
  case (5 cap l k x r l' k')
  then have p: "list_push l k x = (r, l')" by (simp add: list_lru_ops_def)
  from 5(1) p show ?case
    by (cases rule: list_push_cases)
      (use 5(3) in \<open>auto simp: list_lru_ops_def alist_simps map_add_def split: option.splits\<close>)
next
  case (6 cap l k x k' y l')
  then have p: "list_push l k x = (Some (k', y), l')" by (simp add: list_lru_ops_def)
  from 6(1) p show ?case
    by (cases rule: list_push_cases) (auto simp: list_lru_ops_def map_add_def split: option.splits)
next
  case (7 cap l k x r l' k')
  then have p: "list_push l k x = (r, l')" by (simp add: list_lru_ops_def)
  from 7(1) p show ?case
    by (cases rule: list_push_cases) (use 7(1,3,4) in \<open>auto simp: list_lru_ops_def list_lru_inv_def\<close>)
next
  case (8 cap l k)
  then show ?case
    by (auto simp: list_lru_ops_def list_lru_inv_def distinct_keys_delete intro: le_trans [OF length_delete])
next
  case (12 cap l)
  then have "{k. map_of (snd l) k \<noteq> None} = fst ` set (snd l)"
    by (auto simp: map_of_eq_None_iff)
  then show ?case using 12 by (simp add: list_lru_ops_def list_lru_inv_def length_distinct_keys)
qed (auto simp: list_lru_ops_def list_lru_inv_def alist_simps)

section \<open>Properties\<close>

text \<open>
  C22: Two requests with the same cache-key bytes ask the same question: the same principal,
  resource and context up to the order of object keys, the same action, the same entities in any
  order, the same trace text, under the same policy version.  So, short of a collision of the
  hash, a cached decision is never returned for a different request.
\<close>

theorem cache_key_identifies_question:
  assumes "json_text_ok T" "request_wf q" "request_wf q'" "entity_objects C es" "entity_objects C es'"
    and "list_all field_fits (key_fields T H C q es)" "list_all field_fits (key_fields T H C q' es')"
    and "v < 2 ^ 64" "v' < 2 ^ 64"
    and "key_preimage T H C q es v = key_preimage T H C q' es' v'"
  shows "same_question T C q es q' es' \<and>
    map_option (show_trace H) (rq_trace q) = map_option (show_trace H) (rq_trace q') \<and> v = v'"
  using assms by (rule key_preimage_inj)

definition sample_request :: "string \<Rightarrow> agent_request" where
  "sample_request uid =
    request_new ''id'' (principal_user uid) (action_tool ''send'') (resource_new ''Mailbox'' ''m'') context_new"

definition sample_cedar :: "(unit, unit, unit, unit) cedar_env" where
  "sample_cedar =
    \<lparr>entity_type_name = (\<lambda>_. Inr ()), context_from_json = (\<lambda>_ _. Inr ()), cedar_request_new = (\<lambda>_ _ _ _ _. Inr ()),
     is_authorized = (\<lambda>_ _ _. \<lparr>cr_decision = CedarAllow, cr_reason = [''p0''], cr_errors = []\<rparr>),
     entity_values = (\<lambda>_. [])\<rparr>"

theorem cache_key_identifies_question_witness:
  "key_preimage plain_text plain_hex sample_cedar (sample_request ''alice'') () 3
    \<noteq> key_preimage plain_text plain_hex sample_cedar (sample_request ''mallory'') () 3"
proof
  let ?q = "sample_request ''alice''" and ?q' = "sample_request ''mallory''"
  assume eq: "key_preimage plain_text plain_hex sample_cedar ?q () 3 = key_preimage plain_text plain_hex sample_cedar ?q' () 3"
  have wf: "request_wf ?q" "request_wf ?q'" "entity_objects sample_cedar ()"
    by (simp_all add: request_wf_def sample_request_def request_new_def principal_user_def resource_new_def
        context_new_def context_wf_def entity_objects_def sample_cedar_def)
  have fits: "list_all field_fits (key_fields plain_text plain_hex sample_cedar q ())" if "q = ?q \<or> q = ?q'" for q
    using that by (auto simp: key_fields_def sample_request_def request_new_def principal_user_def resource_new_def
        context_new_def sample_cedar_def field_fits_def action_tool_def action_to_value_def resource_to_value_def
        context_to_value_def opt_field_def plain_text_def)
  have v: "(3 :: nat) < 2 ^ 64" by simp
  have "same_question plain_text sample_cedar ?q () ?q' ()"
    using cache_key_identifies_question [OF json_text_ok_plain wf(1,2,3,3) fits fits v v eq] by simp
  then show False
    by (simp add: same_question_def sample_request_def request_new_def principal_user_def)
qed

text \<open>
  C29: The cache serves only what was put there.  After any sequence of operations on a fresh
  cache, a hit returns a decision that was put under exactly this key, recorded under the current
  policy version, with its time to live not over; and the number of entries never exceeds the
  configured capacity.
\<close>

theorem cache_serves_only_fresh_puts:
  assumes "lru_laws L linv" "cache_try_new L t0 cfg = Inr c0" "cache_run L ops c0 = Some c"
    and "fst (cache_get L c now key) = Some d"
  shows "(\<exists>t ttl. OpPut t key d \<in> set ops \<and> put_ttl cfg (cd_effect d) = Some ttl \<and> now < t + ttl) \<and>
    cd_version d = dc_policy_version c \<and> lru_len L (dc_inner c) \<le> cc_capacity cfg"
  using lru_laws.served_from_put [OF assms] lru_laws.bounded [OF assms(1-3)] by blast

definition sample_allow :: cached_decision where
  "sample_allow = \<lparr>cd_effect = ''allow'', cd_policies = [''p0''], cd_reasons = [], cd_version = 0\<rparr>"

theorem cache_serves_only_fresh_puts_witness:
  "\<exists>c0 c. cache_try_new list_lru_ops 0 default_config = Inr c0 \<and>
    cache_run list_lru_ops [OpPut 5 ''k'' sample_allow, OpSweep 7, OpGet 8 ''j''] c0 = Some c \<and>
    fst (cache_get list_lru_ops c 9 ''k'') = Some sample_allow \<and> lru_len list_lru_ops (dc_inner c) \<le> 10000"
proof -
  let ?ops = "[OpPut 5 ''k'' sample_allow, OpSweep 7, OpGet 8 ''j'']"
  obtain c0 c where r: "cache_try_new list_lru_ops 0 default_config = Inr c0" "cache_run list_lru_ops ?ops c0 = Some c"
      "fst (cache_get list_lru_ops c 9 ''k'') = Some sample_allow"
    by (simp add: cache_try_new_def default_config_def instant_add_def instant_limit_def cache_put_def put_ttl_def
        sample_allow_def list_lru_ops_def sweep_stale_def slot_stale_def cache_get_def Let_def)
  then show ?thesis
    using cache_serves_only_fresh_puts [OF list_lru.lru_laws_axioms r] by (auto simp: default_config_def)
qed

text \<open>
  A decision that was just put is found again until its time to live is over or the policy
  version changes, and one bump of the version makes every decision of the current version
  unreachable.
\<close>

theorem cache_put_then_get:
  assumes "lru_laws L linv" "linv cap (dc_inner c)" "cache_put L c now key d = Some c'"
    and "put_ttl (dc_config c) (cd_effect d) = Some ttl" "cd_version d = dc_policy_version c"
  shows "(t < now + ttl \<longrightarrow> fst (cache_get L c' t key) = Some d) \<and>
    fst (cache_get L (invalidate_all c') t key) \<noteq> Some d"
proof -
  have "dc_policy_version c' = dc_policy_version c" using lru_laws.put_inner [OF assms(1-3)] by simp
  then have "fst (cache_get L (invalidate_all c') t key) \<noteq> Some d"
    using assms(5) u64_incr_neq [of "dc_policy_version c"]
    by (auto simp: cache_get_Some invalidate_all_def)
  then show ?thesis using lru_laws.put_get [OF assms] by blast
qed

theorem cache_put_then_get_witness:
  "\<exists>c'. cache_put list_lru_ops (cache_disabled list_lru_ops) 5 ''k'' sample_allow = Some c' \<and>
    fst (cache_get list_lru_ops c' 6 ''k'') = Some sample_allow \<and>
    fst (cache_get list_lru_ops (invalidate_all c') 6 ''k'') \<noteq> Some sample_allow"
proof -
  have inv: "list_lru_inv 1 (dc_inner (cache_disabled list_lru_ops))"
    by (simp add: cache_disabled_def list_lru_ops_def list_lru_inv_def)
  obtain c' where c': "cache_put list_lru_ops (cache_disabled list_lru_ops) 5 ''k'' sample_allow = Some c'"
    by (simp add: cache_put_def cache_disabled_def put_ttl_def sample_allow_def default_config_def instant_add_def
        instant_limit_def list_lru_ops_def Let_def)
  have ttl: "put_ttl (dc_config (cache_disabled list_lru_ops)) (cd_effect sample_allow) = Some (60 * 10 ^ 9)"
    "cd_version sample_allow = dc_policy_version (cache_disabled list_lru_ops)"
    by (simp_all add: cache_disabled_def put_ttl_def sample_allow_def default_config_def)
  show ?thesis
    using c' cache_put_then_get [OF list_lru.lru_laws_axioms inv c' ttl, of 6] by auto
qed

text \<open>
  The cache built by \<open>disabled\<close> is a working cache of capacity one: a decision put there is served
  from memory.
\<close>

theorem disabled_cache_hits:
  "\<exists>c'. cache_put list_lru_ops (cache_disabled list_lru_ops) 5 ''k'' sample_allow = Some c' \<and>
    fst (cache_get list_lru_ops c' 6 ''k'') = Some sample_allow"
  by (simp add: cache_put_def cache_disabled_def put_ttl_def sample_allow_def default_config_def instant_add_def
      instant_limit_def list_lru_ops_def cache_get_def Let_def)

end
