(* ===== verification/Engine.thy ===== *)
theory Engine
  imports Cache
begin

text \<open>
  The authorization engine, \<open>agentguard-core/src/authorize/engine.rs\<close>: a request is answered from
  the decision cache when possible, and otherwise by the Cedar engine, whose answer is cached.
  \<open>direct\<close> is the specification, the answer of the engine without any cache.
\<close>

section \<open>Data\<close>

datatype effect = Allow | Deny

fun show_effect :: "effect \<Rightarrow> string" where
  "show_effect Allow = ''allow''"
| "show_effect Deny = ''deny''"

fun effect_of :: "cedar_decision \<Rightarrow> effect" where
  "effect_of CedarAllow = Allow"
| "effect_of CedarDeny = Deny"

record decision =
  dn_effect :: effect
  dn_policies :: "string list"
  dn_reasons :: "string list"
  dn_request :: json
  dn_trace :: "json option"
  dn_from_cache :: bool

record ('s, 'p, 'l) authorizer =
  az_schema :: "'s option"
  az_policies :: 'p
  az_cache :: "'l decision_cache option"

text \<open>The packages the engine calls, and the printer of debug strings.\<close>

record ('s, 'c, 'p, 'e, 'l) engine_env =
  ev_sha :: "string \<Rightarrow> string"
  ev_text :: json_text
  ev_hex :: hex_codec
  ev_cedar :: "('s, 'c, 'p, 'e) cedar_env"
  ev_lru :: "'l lru_ops"
  ev_debug :: "string \<Rightarrow> string"

section \<open>Operations\<close>

fun show_cedar_decision :: "cedar_decision \<Rightarrow> string" where
  "show_cedar_decision CedarAllow = ''Allow''"
| "show_cedar_decision CedarDeny = ''Deny''"

definition build_trace :: "cedar_response \<Rightarrow> string list \<Rightarrow> string list \<Rightarrow> json" where
  "build_trace resp matched errors =
    Object ([(''decision'', String (show_cedar_decision (cr_decision resp))),
             (''matched_policies'', Array (map String matched))]
      @ (if errors \<noteq> [] then [(''errors'', Array (map String errors))] else []))"

definition request_key ::
  "('s, 'c, 'p, 'e, 'l) engine_env \<Rightarrow> agent_request \<Rightarrow> 'e \<Rightarrow> nat \<Rightarrow> string" where
  "request_key E q es v = cache_key (ev_sha E) (ev_text E) (ev_hex E) (ev_cedar E) q es v"

definition try_with_cache ::
  "('s, 'c, 'p, 'e, 'l) engine_env \<Rightarrow> ('s, 'p, 'l) authorizer \<Rightarrow> instant \<Rightarrow> cache_config
    \<Rightarrow> string + ('s, 'p, 'l) authorizer" where
  "try_with_cache E A now config =
    and_then (cache_try_new (ev_lru E) now config) (\<lambda>c. Inr (A\<lparr>az_cache := Some c\<rparr>))"

text \<open>\<open>None\<close> is the panic of \<open>DecisionCache::new\<close> on an invalid configuration.\<close>

definition with_cache ::
  "('s, 'c, 'p, 'e, 'l) engine_env \<Rightarrow> ('s, 'p, 'l) authorizer \<Rightarrow> instant \<Rightarrow> cache_config
    \<Rightarrow> ('s, 'p, 'l) authorizer option" where
  "with_cache E A now config =
    (case cache_try_new (ev_lru E) now config of
       Inl _ \<Rightarrow> None
     | Inr c \<Rightarrow> Some (A\<lparr>az_cache := Some c\<rparr>))"

definition invalidate_cache :: "('s, 'p, 'l) authorizer \<Rightarrow> ('s, 'p, 'l) authorizer" where
  "invalidate_cache A = A\<lparr>az_cache := map_option invalidate_all (az_cache A)\<rparr>"

definition sweep_stale_cache ::
  "('s, 'c, 'p, 'e, 'l) engine_env \<Rightarrow> ('s, 'p, 'l) authorizer \<Rightarrow> instant \<Rightarrow> nat \<times> ('s, 'p, 'l) authorizer" where
  "sweep_stale_cache E A now =
    (case az_cache A of
       None \<Rightarrow> (0, A)
     | Some c \<Rightarrow> (let (n, c') = sweep_stale (ev_lru E) c now in (n, A\<lparr>az_cache := Some c'\<rparr>)))"

text \<open>The first half of \<open>authorize\<close>: the cache lookup.\<close>

definition cache_lookup ::
  "('s, 'c, 'p, 'e, 'l) engine_env \<Rightarrow> ('s, 'p, 'l) authorizer \<Rightarrow> instant \<Rightarrow> agent_request \<Rightarrow> 'e
    \<Rightarrow> cached_decision option \<times> ('s, 'p, 'l) authorizer" where
  "cache_lookup E A now q es =
    (case az_cache A of
       None \<Rightarrow> (None, A)
     | Some c \<Rightarrow>
       (let (hit, c') = cache_get (ev_lru E) c now (request_key E q es (dc_policy_version c))
        in (hit, A\<lparr>az_cache := Some c'\<rparr>)))"

text \<open>
  \<open>authorize\<close>, with the clock readings of the lookup and of the insertion; \<open>None\<close> is the panic
  of an insertion past the range of the clock.
\<close>

definition authorize ::
  "('s, 'c, 'p, 'e, 'l) engine_env \<Rightarrow> ('s, 'p, 'l) authorizer \<Rightarrow> instant \<Rightarrow> instant \<Rightarrow> agent_request \<Rightarrow> 'e
    \<Rightarrow> (decision core_result \<times> ('s, 'p, 'l) authorizer) option" where
  "authorize E A t_get t_put q es =
    (let (hit, A) = cache_lookup E A t_get q es in
     case hit of
       Some cached \<Rightarrow>
         Some (and_then
           (if cd_effect cached = ''allow'' then Inr Allow
            else if cd_effect cached = ''deny'' then Inr Deny
            else Inl (Other (''corrupt cache entry: bad effect '' @ ev_debug E (cd_effect cached))))
           (\<lambda>eff. Inr \<lparr>dn_effect = eff, dn_policies = cd_policies cached, dn_reasons = cd_reasons cached,
              dn_request = request_to_value (ev_hex E) q, dn_trace = None, dn_from_cache = True\<rparr>), A)
     | None \<Rightarrow>
       (case to_cedar_request (ev_cedar E) q (az_schema A) of
          Inl e \<Rightarrow> Some (Inl e, A)
        | Inr cedar_req \<Rightarrow>
          (let resp = is_authorized (ev_cedar E) cedar_req (az_policies A) es;
               eff = effect_of (cr_decision resp);
               policies = cr_reason resp;
               reasons = cr_errors resp;
               d = \<lparr>dn_effect = eff, dn_policies = policies, dn_reasons = reasons,
                    dn_request = request_to_value (ev_hex E) q,
                    dn_trace = Some (build_trace resp policies reasons), dn_from_cache = False\<rparr>
           in case az_cache A of
                None \<Rightarrow> Some (Inr d, A)
              | Some c \<Rightarrow>
                (let key = request_key E q es (dc_policy_version c);
                     cached = \<lparr>cd_effect = show_effect eff, cd_policies = policies, cd_reasons = reasons,
                       cd_version = dc_policy_version c\<rparr>
                 in map_option (\<lambda>c'. (Inr d, A\<lparr>az_cache := Some c'\<rparr>))
                      (cache_put (ev_lru E) c t_put key cached)))))"

section \<open>Specification\<close>

text \<open>The effect, determining policies and errors the Cedar engine gives for a request.\<close>

definition direct ::
  "('s, 'c, 'p, 'e, 'l) engine_env \<Rightarrow> 's option \<Rightarrow> 'p \<Rightarrow> agent_request \<Rightarrow> 'e
    \<Rightarrow> (effect \<times> string list \<times> string list) core_result" where
  "direct E schema policies q es =
    and_then (to_cedar_request (ev_cedar E) q schema) (\<lambda>r.
      let resp = is_authorized (ev_cedar E) r policies es
      in Inr (effect_of (cr_decision resp), cr_reason resp, cr_errors resp))"

definition outcome :: "decision core_result \<Rightarrow> (effect \<times> string list \<times> string list) core_result" where
  "outcome r = (case r of Inl e \<Rightarrow> Inl e | Inr d \<Rightarrow> Inr (dn_effect d, dn_policies d, dn_reasons d))"

text \<open>
  What the documentation of the policy engine says of its input: a context is read from a JSON
  object whatever the order of its keys, and an entity set is a set.
\<close>

definition cedar_reads_content :: "('s, 'c, 'p, 'e) cedar_env \<Rightarrow> bool" where
  "cedar_reads_content C \<longleftrightarrow>
    (\<forall>v w s. json_wf v \<longrightarrow> json_wf w \<longrightarrow> json_norm (\<lambda>n. n) v = json_norm (\<lambda>n. n) w \<longrightarrow>
      context_from_json C v s = context_from_json C w s) \<and>
    (\<forall>r p es es'. mset (map (json_norm (\<lambda>n. n)) (entity_values C es)) = mset (map (json_norm (\<lambda>n. n)) (entity_values C es'))
      \<longrightarrow> is_authorized C r p es = is_authorized C r p es')"

section \<open>The same question has the same answer\<close>

lemma norm_principal:
  "json_norm (\<lambda>n. n) (principal_to_value p) = json_norm (\<lambda>n. n) (principal_to_value p') \<Longrightarrow>
    principal_entity_type p = principal_entity_type p' \<and> principal_uid p = principal_uid p'"
  by (cases p; cases p') (auto simp: opt_field_def split: option.splits)

lemma norm_resource:
  "json_norm (\<lambda>n. n) (resource_to_value r) = json_norm (\<lambda>n. n) (resource_to_value r') \<Longrightarrow>
    res_entity_type r = res_entity_type r' \<and> res_uid r = res_uid r'"
  by (auto simp: resource_to_value_def)

lemma norm_context_parts:
  "json_norm f (context_to_value c) = json_norm f (context_to_value c') \<Longrightarrow>
    json_norm f (ctx_args c) = json_norm f (ctx_args c') \<and>
    json_norm f (Object (ctx_session c)) = json_norm f (Object (ctx_session c'))"
  by (simp add: context_to_value_def)

text \<open>The object handed to Cedar depends on the content of the context only.\<close>

definition context_args :: "agent_context \<Rightarrow> (string \<times> json) list" where
  "context_args c = (case ctx_args c of Object args \<Rightarrow> args | _ \<Rightarrow> [])"

lemma to_json_object_alt:
  "context_wf c \<Longrightarrow> distinct_keys (context_args c) \<and>
    to_json_object c = (if ctx_session c \<noteq> [] then AList.update ''session'' (Object (ctx_session c)) (context_args c)
      else context_args c)"
  using fold_update_self [of "[]" "context_args c"]
  by (cases "ctx_args c") (simp_all add: to_json_object_def context_args_def context_wf_def)

lemma norm_args:
  "json_norm f (ctx_args c) = json_norm f (ctx_args c') \<Longrightarrow>
    json_norm f (Object (context_args c)) = json_norm f (Object (context_args c'))"
  by (cases "ctx_args c"; cases "ctx_args c'") (simp_all add: context_args_def)

lemma norm_object_Nil: "json_norm f (Object xs) = json_norm f (Object ys) \<Longrightarrow> xs = [] \<longleftrightarrow> ys = []"
  by (auto dest: arg_cong [of _ _ length])

lemma distinct_keys_to_json_object: "context_wf c \<Longrightarrow> distinct_keys (to_json_object c)"
  using to_json_object_alt [of c] by (simp add: distinct_keys_update)

lemma norm_to_json_object:
  assumes wf: "context_wf c" "context_wf c'"
    and eq: "json_norm f (context_to_value c) = json_norm f (context_to_value c')"
  shows "json_norm f (Object (to_json_object c)) = json_norm f (Object (to_json_object c'))"
proof -
  note p = norm_context_parts [OF eq]
  have m: "map_option (json_norm f) \<circ> map_of (context_args c) = map_option (json_norm f) \<circ> map_of (context_args c')"
    using norm_args [OF conjunct1 [OF p]] json_norm_object_eq_iff [of "context_args c" "context_args c'" f]
      to_json_object_alt [OF wf(1)] to_json_object_alt [OF wf(2)] by blast
  have e: "ctx_session c = [] \<longleftrightarrow> ctx_session c' = []" using norm_object_Nil [OF conjunct2 [OF p]] .
  have "map_option (json_norm f) \<circ> map_of (to_json_object c) = map_option (json_norm f) \<circ> map_of (to_json_object c')"
  proof
    fix k
    show "(map_option (json_norm f) \<circ> map_of (to_json_object c)) k = (map_option (json_norm f) \<circ> map_of (to_json_object c')) k"
      using fun_cong [OF m, of k] e conjunct2 [OF p] conjunct2 [OF to_json_object_alt [OF wf(1)]]
        conjunct2 [OF to_json_object_alt [OF wf(2)]]
      by (simp add: map_of_update del: json_norm.simps)
  qed
  then show ?thesis
    using json_norm_object_eq_iff [of "to_json_object c" "to_json_object c'" f] wf
    by (simp add: distinct_keys_to_json_object del: json_norm.simps)
qed

lemma list_all_update:
  "list_all (\<lambda>(k, v). P v) m \<Longrightarrow> P x \<Longrightarrow> list_all (\<lambda>(k, v). P v) (AList.update key x m)"
  by (induction m) auto

lemma wf_to_json_object: "context_wf c \<Longrightarrow> json_wf (Object (to_json_object c))"
proof -
  assume wf: "context_wf c"
  have "list_all (\<lambda>(k, v). json_wf v) (context_args c)"
    using wf by (cases "ctx_args c") (simp_all add: context_args_def context_wf_def)
  then show ?thesis
    using wf to_json_object_alt [OF wf] distinct_keys_to_json_object [OF wf]
    by (auto simp: context_wf_def intro!: list_all_update)
qed

lemma direct_same_question:
  assumes C: "cedar_reads_content (ev_cedar E)" and wf: "request_wf q" "request_wf q'"
    and same: "same_question (ev_text E) (ev_cedar E) q es q' es'"
  shows "direct E s p q es = direct E s p q' es'"
proof -
  have c: "context_wf (rq_context q)" "context_wf (rq_context q')" using wf by (simp_all add: request_wf_def)
  have parts: "principal_entity_type (rq_principal q) = principal_entity_type (rq_principal q')"
      "principal_uid (rq_principal q) = principal_uid (rq_principal q')"
      "res_entity_type (rq_resource q) = res_entity_type (rq_resource q')"
      "res_uid (rq_resource q) = res_uid (rq_resource q')" "rq_action q = rq_action q'"
    using same norm_principal norm_resource unfolding same_question_def by blast+
  have norm: "json_norm (\<lambda>n. n) (Object (to_json_object (rq_context q))) = json_norm (\<lambda>n. n) (Object (to_json_object (rq_context q')))"
    using same norm_to_json_object [OF c] unfolding same_question_def by blast
  have "context_from_json (ev_cedar E) (Object (to_json_object (rq_context q))) a
      = context_from_json (ev_cedar E) (Object (to_json_object (rq_context q'))) a" for a
    using C wf_to_json_object [OF c(1)] wf_to_json_object [OF c(2)] norm unfolding cedar_reads_content_def by blast
  then have "to_cedar_request (ev_cedar E) q s = to_cedar_request (ev_cedar E) q' s"
    unfolding to_cedar_request_def parts by simp
  moreover have "is_authorized (ev_cedar E) r p es = is_authorized (ev_cedar E) r p es'" for r
    using C same unfolding cedar_reads_content_def same_question_def by blast
  ultimately show ?thesis unfolding direct_def by simp
qed

section \<open>Reachable authorizers\<close>

text \<open>
  The requests asked of an authorizer, and the states it goes through: it starts without a cache or
  with a fresh one, answers requests, and its cache is invalidated, given a version and swept at
  any time.
\<close>

inductive az_reach ::
  "('s, 'c, 'p, 'e, 'l) engine_env \<Rightarrow> ('s, 'p, 'l) authorizer \<Rightarrow> (agent_request \<times> 'e) set \<Rightarrow> ('s, 'p, 'l) authorizer \<Rightarrow> bool"
  for E A0 Q where
  uncached: "az_cache A0 = None \<Longrightarrow> az_reach E A0 Q A0"
| fresh: "with_cache E A0 now cfg = Some A \<Longrightarrow> az_reach E A0 Q A"
| asked: "az_reach E A0 Q A \<Longrightarrow> (q, es) \<in> Q \<Longrightarrow> authorize E A t t' q es = Some (r, A') \<Longrightarrow> az_reach E A0 Q A'"
| invalidated: "az_reach E A0 Q A \<Longrightarrow> az_reach E A0 Q (invalidate_cache A)"
| versioned: "az_reach E A0 Q A \<Longrightarrow> v < 2 ^ 64 \<Longrightarrow>
    az_reach E A0 Q (A\<lparr>az_cache := map_option (\<lambda>c. set_policy_version c v) (az_cache A)\<rparr>)"
| swept: "az_reach E A0 Q A \<Longrightarrow> sweep_stale_cache E A now = (n, A') \<Longrightarrow> az_reach E A0 Q A'"

text \<open>Requests whose hashed fields are of hashable size, and a hash without collision on them.\<close>

definition question_ok :: "('s, 'c, 'p, 'e, 'l) engine_env \<Rightarrow> agent_request \<times> 'e \<Rightarrow> bool" where
  "question_ok E x \<longleftrightarrow> request_wf (fst x) \<and> entity_objects (ev_cedar E) (snd x) \<and>
    list_all field_fits (key_fields (ev_text E) (ev_hex E) (ev_cedar E) (fst x) (snd x))"

definition keys_collision_free :: "('s, 'c, 'p, 'e, 'l) engine_env \<Rightarrow> (agent_request \<times> 'e) set \<Rightarrow> bool" where
  "keys_collision_free E Q \<longleftrightarrow>
    inj_on (ev_sha E) {key_preimage (ev_text E) (ev_hex E) (ev_cedar E) q es v | q es v. (q, es) \<in> Q \<and> v < 2 ^ 64}"

text \<open>Every cached decision is the answer to the request of \<open>Q\<close> whose key it is stored under.\<close>

definition slot_faithful ::
  "('s, 'c, 'p, 'e, 'l) engine_env \<Rightarrow> 's option \<Rightarrow> 'p \<Rightarrow> (agent_request \<times> 'e) set \<Rightarrow> string \<Rightarrow> cached_decision \<Rightarrow> bool" where
  "slot_faithful E s p Q k d \<longleftrightarrow> cd_version d < 2 ^ 64 \<and>
    (\<exists>q es eff. (q, es) \<in> Q \<and> k = request_key E q es (cd_version d) \<and> cd_effect d = show_effect eff \<and>
      direct E s p q es = Inr (eff, cd_policies d, cd_reasons d))"

definition cache_faithful ::
  "('s, 'c, 'p, 'e, 'l) engine_env \<Rightarrow> (nat \<Rightarrow> 'l \<Rightarrow> bool) \<Rightarrow> 's option \<Rightarrow> 'p \<Rightarrow> (agent_request \<times> 'e) set \<Rightarrow> 'l decision_cache \<Rightarrow> bool" where
  "cache_faithful E linv s p Q c \<longleftrightarrow> linv (cc_capacity (dc_config c)) (dc_inner c) \<and> dc_policy_version c < 2 ^ 64 \<and>
    (\<forall>k x. lru_peek (ev_lru E) (dc_inner c) k = Some x \<longrightarrow> slot_faithful E s p Q k (fst x))"

definition az_faithful ::
  "('s, 'c, 'p, 'e, 'l) engine_env \<Rightarrow> (nat \<Rightarrow> 'l \<Rightarrow> bool) \<Rightarrow> ('s, 'p, 'l) authorizer \<Rightarrow> (agent_request \<times> 'e) set \<Rightarrow> ('s, 'p, 'l) authorizer \<Rightarrow> bool" where
  "az_faithful E linv A0 Q A \<longleftrightarrow> az_schema A = az_schema A0 \<and> az_policies A = az_policies A0 \<and>
    (\<forall>c. az_cache A = Some c \<longrightarrow> cache_faithful E linv (az_schema A0) (az_policies A0) Q c)"

text \<open>What the engine relies on of the packages, for the requests \<open>Q\<close>.\<close>

definition engine_ok ::
  "('s, 'c, 'p, 'e, 'l) engine_env \<Rightarrow> (nat \<Rightarrow> 'l \<Rightarrow> bool) \<Rightarrow> (agent_request \<times> 'e) set \<Rightarrow> bool" where
  "engine_ok E linv Q \<longleftrightarrow> lru_laws (ev_lru E) linv \<and> json_text_ok (ev_text E) \<and> cedar_reads_content (ev_cedar E) \<and>
    (\<forall>x \<in> Q. question_ok E x) \<and> keys_collision_free E Q"

lemma request_key_same:
  assumes ok: "engine_ok E linv Q" and Q: "(q, es) \<in> Q" "(q', es') \<in> Q" and v: "v < 2 ^ 64" "v' < 2 ^ 64"
    and eq: "request_key E q es v = request_key E q' es' v'"
  shows "direct E s p q es = direct E s p q' es'"
proof -
  have T: "json_text_ok (ev_text E)" and C: "cedar_reads_content (ev_cedar E)" and K: "keys_collision_free E Q"
    and q: "question_ok E (q, es)" "question_ok E (q', es')"
    using ok Q by (auto simp: engine_ok_def)
  have "key_preimage (ev_text E) (ev_hex E) (ev_cedar E) q es v = key_preimage (ev_text E) (ev_hex E) (ev_cedar E) q' es' v'"
    using eq K Q v unfolding request_key_def cache_key_def keys_collision_free_def
    by (elim inj_onD) blast+
  then have "same_question (ev_text E) (ev_cedar E) q es q' es'"
    using key_preimage_inj [OF T, of q q' "ev_cedar E" es es' "ev_hex E" v v'] q v by (simp add: question_ok_def)
  then show ?thesis using direct_same_question [OF C] q by (simp add: question_ok_def)
qed

lemma show_effect_cases:
  "show_effect e = ''allow'' \<longleftrightarrow> e = Allow" "show_effect e = ''deny'' \<longleftrightarrow> e = Deny"
  by (cases e; simp)+

lemma hit_faithful:
  assumes ok: "engine_ok E linv Q" and A: "az_faithful E linv A0 Q A" and Q: "(q, es) \<in> Q"
    and hit: "cache_lookup E A t q es = (Some d, A')"
  shows "\<exists>eff. cd_effect d = show_effect eff \<and> direct E (az_schema A0) (az_policies A0) q es = Inr (eff, cd_policies d, cd_reasons d)"
proof -
  obtain c where c: "az_cache A = Some c"
    "fst (cache_get (ev_lru E) c t (request_key E q es (dc_policy_version c))) = Some d"
    using hit by (auto simp: cache_lookup_def split: option.splits prod.splits)
  then obtain deadline where p: "lru_peek (ev_lru E) (dc_inner c) (request_key E q es (dc_policy_version c)) = Some (d, deadline)"
    "cd_version d = dc_policy_version c"
    by (auto simp: cache_get_Some)
  have F: "cache_faithful E linv (az_schema A0) (az_policies A0) Q c" using A c(1) by (simp add: az_faithful_def)
  then have v: "dc_policy_version c < 2 ^ 64"
    and sf: "slot_faithful E (az_schema A0) (az_policies A0) Q (request_key E q es (dc_policy_version c)) d"
    using p(1) unfolding cache_faithful_def by fastforce+
  from sf obtain q' es' eff where s: "(q', es') \<in> Q"
      "request_key E q es (dc_policy_version c) = request_key E q' es' (dc_policy_version c)"
      "cd_effect d = show_effect eff"
      "direct E (az_schema A0) (az_policies A0) q' es' = Inr (eff, cd_policies d, cd_reasons d)"
    unfolding slot_faithful_def p(2) by blast
  then show ?thesis using request_key_same [OF ok Q s(1) v v s(2)] by metis
qed

lemma lookup_faithful:
  assumes "az_faithful E linv A0 Q A" "cache_lookup E A t q es = (hit, A')"
  shows "az_faithful E linv A0 Q A'"
proof (cases "az_cache A")
  case (Some c)
  let ?g = "snd (cache_get (ev_lru E) c t (request_key E q es (dc_policy_version c)))"
  have A': "A' = A\<lparr>az_cache := Some ?g\<rparr>" using assms(2) Some by (auto simp: cache_lookup_def split: prod.splits)
  have "cache_faithful E linv (az_schema A0) (az_policies A0) Q ?g"
    using assms(1) Some unfolding az_faithful_def cache_faithful_def by (simp add: cache_get_unchanged)
  then show ?thesis using assms(1) by (simp add: A' az_faithful_def)
qed (use assms in \<open>simp add: cache_lookup_def\<close>)

lemma put_faithful:
  assumes L: "lru_laws (ev_lru E) linv" and F: "cache_faithful E linv s p Q c" and Q: "(q, es) \<in> Q"
    and d: "direct E s p q es = Inr (eff, cd_policies d, cd_reasons d)" "cd_effect d = show_effect eff"
      "cd_version d = dc_policy_version c"
    and put: "cache_put (ev_lru E) c t (request_key E q es (dc_policy_version c)) d = Some c'"
  shows "cache_faithful E linv s p Q c'"
proof -
  have i: "linv (cc_capacity (dc_config c)) (dc_inner c)" and v: "dc_policy_version c < 2 ^ 64"
    and o: "\<And>k x. lru_peek (ev_lru E) (dc_inner c) k = Some x \<Longrightarrow> slot_faithful E s p Q k (fst x)"
    using F by (auto simp: cache_faithful_def)
  have n: "slot_faithful E s p Q (request_key E q es (dc_policy_version c)) d"
    unfolding slot_faithful_def d(3) using Q d(1,2) v by blast
  have "slot_faithful E s p Q k (fst x)" if "lru_peek (ev_lru E) (dc_inner c') k = Some x" for k x
    using lru_laws.put_peek [OF L i put that] o n by fastforce
  then show ?thesis using lru_laws.put_inner [OF L i put] v by (simp add: cache_faithful_def)
qed

lemma authorize_keeps:
  assumes ok: "engine_ok E linv Q" and A: "az_faithful E linv A0 Q A" and Q: "(q, es) \<in> Q"
    and r: "authorize E A t t' q es = Some (r, A')"
  shows "outcome r = direct E (az_schema A0) (az_policies A0) q es \<and> az_faithful E linv A0 Q A'"
proof -
  obtain hit A1 where l: "cache_lookup E A t q es = (hit, A1)" by fastforce
  note F = lookup_faithful [OF A l]
  then have s: "az_schema A1 = az_schema A0" "az_policies A1 = az_policies A0" by (simp_all add: az_faithful_def)
  have L: "lru_laws (ev_lru E) linv" using ok by (simp add: engine_ok_def)
  show ?thesis
  proof (cases hit)
    case (Some d)
    obtain eff where "cd_effect d = show_effect eff"
      "direct E (az_schema A0) (az_policies A0) q es = Inr (eff, cd_policies d, cd_reasons d)"
      using hit_faithful [OF ok A Q l [unfolded Some]] by blast
    then show ?thesis using r l F Some
      by (cases eff) (simp_all add: authorize_def outcome_def, safe, simp_all)
  next
    case None
    show ?thesis
    proof (cases "to_cedar_request (ev_cedar E) q (az_schema A0)")
      case (Inl e)
      then have "r = Inl e" "A' = A1" using r l None by (auto simp: authorize_def s)
      then show ?thesis using F Inl by (simp add: outcome_def direct_def)
    next
      case (Inr cr)
      let ?resp = "is_authorized (ev_cedar E) cr (az_policies A0) es"
      have d: "direct E (az_schema A0) (az_policies A0) q es
          = Inr (effect_of (cr_decision ?resp), cr_reason ?resp, cr_errors ?resp)"
        using Inr by (simp add: direct_def Let_def)
      have out: "outcome r = direct E (az_schema A0) (az_policies A0) q es"
        using r l None Inr unfolding d
        by (auto simp: authorize_def s Let_def outcome_def split: option.splits)
      show ?thesis
      proof (cases "az_cache A1")
        case c: None
        then have "A' = A1" using r l None Inr by (auto simp: authorize_def s Let_def)
        then show ?thesis using F out by simp
      next
        case c: (Some c)
        let ?d = "\<lparr>cd_effect = show_effect (effect_of (cr_decision ?resp)), cd_policies = cr_reason ?resp,
            cd_reasons = cr_errors ?resp, cd_version = dc_policy_version c\<rparr>"
        obtain c' where put: "cache_put (ev_lru E) c t' (request_key E q es (dc_policy_version c)) ?d = Some c'"
          and A': "A' = A1\<lparr>az_cache := Some c'\<rparr>"
          using r l None Inr c by (auto simp: authorize_def s Let_def)
        have Fc: "cache_faithful E linv (az_schema A0) (az_policies A0) Q c"
          using F c unfolding az_faithful_def by blast
        have "cache_faithful E linv (az_schema A0) (az_policies A0) Q c'"
          by (rule put_faithful [OF L Fc Q _ _ _ put, where eff = "effect_of (cr_decision ?resp)"]) (simp_all add: d)
        then show ?thesis using F out by (simp add: A' az_faithful_def)
      qed
    qed
  qed
qed

lemma fresh_faithful:
  assumes "lru_laws (ev_lru E) linv" "with_cache E A0 now cfg = Some A"
  shows "az_faithful E linv A0 Q A"
proof -
  obtain c where c: "cache_try_new (ev_lru E) now cfg = Inr c" "A = A0\<lparr>az_cache := Some c\<rparr>"
    using assms(2) by (auto simp: with_cache_def split: sum.splits)
  then have cap: "0 < cc_capacity cfg" and i: "dc_inner c = lru_new (ev_lru E) (cc_capacity cfg)" "dc_config c = cfg"
    "dc_policy_version c = 0"
    by (auto simp: cache_try_new_def split: if_splits)
  then show ?thesis using lru_laws.new_inv [OF assms(1) cap] lru_laws.new_peek [OF assms(1) cap]
    by (simp add: az_faithful_def cache_faithful_def c(2))
qed

lemma version_faithful:
  "cache_faithful E linv s p Q c \<Longrightarrow> v < 2 ^ 64 \<Longrightarrow> cache_faithful E linv s p Q (set_policy_version c v)"
  by (simp add: cache_faithful_def set_policy_version_def)

lemma invalidate_faithful:
  "cache_faithful E linv s p Q c \<Longrightarrow> cache_faithful E linv s p Q (invalidate_all c)"
  by (simp add: cache_faithful_def invalidate_all_def u64_incr_def)

lemma sweep_faithful:
  assumes L: "lru_laws (ev_lru E) linv" and F: "cache_faithful E linv s p Q c" and sw: "sweep_stale (ev_lru E) c now = (n, c')"
  shows "cache_faithful E linv s p Q c'"
proof -
  have i: "linv (cc_capacity (dc_config c)) (dc_inner c)" using F by (simp add: cache_faithful_def)
  have c': "dc_config c' = dc_config c" "dc_policy_version c' = dc_policy_version c"
    using sw by (auto simp: sweep_stale_def Let_def)
  have "slot_faithful E s p Q k (fst x)" if "lru_peek (ev_lru E) (dc_inner c') k = Some x" for k x
    using that F unfolding lru_laws.sweep_inner(2) [OF L i sw] cache_faithful_def
    by (auto split: option.splits if_splits)
  then show ?thesis using F lru_laws.sweep_inner(1) [OF L i sw] by (simp add: cache_faithful_def c')
qed

lemma reach_faithful:
  assumes ok: "engine_ok E linv Q"
  shows "az_reach E A0 Q A \<Longrightarrow> az_faithful E linv A0 Q A"
proof (induction rule: az_reach.induct)
  case (fresh now cfg A)
  then show ?case using fresh_faithful ok by (auto simp: engine_ok_def)
next
  case (asked A q es t t' r A')
  then show ?case using authorize_keeps [OF ok] by blast
next
  case (invalidated A)
  then show ?case by (auto simp: az_faithful_def invalidate_cache_def intro: invalidate_faithful)
next
  case (versioned A v)
  then show ?case by (auto simp: az_faithful_def intro: version_faithful)
next
  case (swept A now n A')
  then show ?case using ok sweep_faithful
    by (fastforce simp: az_faithful_def sweep_stale_cache_def engine_ok_def split: option.splits prod.splits)
qed (simp add: az_faithful_def)

section \<open>Properties\<close>

text \<open>
  C5: The decision cache is transparent.  Whatever requests were answered before, and however
  often the cache was invalidated, re-versioned or swept in between, an authorizer answers a
  request with the effect, determining policies and errors (or the error) that the policy engine
  gives for that very request; the cache changes only where the answer comes from.
\<close>

theorem cached_authorizer_refines_engine:
  assumes "engine_ok E linv Q" "az_reach E A0 Q A" "(q, es) \<in> Q" "authorize E A t t' q es = Some (r, A')"
  shows "outcome r = direct E (az_schema A0) (az_policies A0) q es \<and>
    (\<forall>d. r = Inr d \<longrightarrow> dn_request d = request_to_value (ev_hex E) q)"
proof -
  have "\<forall>d. r = Inr d \<longrightarrow> dn_request d = request_to_value (ev_hex E) q"
    using assms(4) by (auto simp: authorize_def Let_def and_then_Inr split: prod.splits option.splits sum.splits if_splits)
  then show ?thesis using authorize_keeps [OF assms(1) reach_faithful [OF assms(1,2)] assms(3,4)] by simp
qed

definition sample_engine :: "(unit, unit, unit, unit, list_lru) engine_env" where
  "sample_engine =
    \<lparr>ev_sha = (\<lambda>s. s), ev_text = plain_text, ev_hex = plain_hex, ev_cedar = sample_cedar, ev_lru = list_lru_ops,
     ev_debug = (\<lambda>s. s)\<rparr>"

definition sample_authorizer :: "(unit, unit, list_lru) authorizer" where
  "sample_authorizer = \<lparr>az_schema = None, az_policies = (), az_cache = None\<rparr>"

lemma sample_engine_ok: "engine_ok sample_engine list_lru_inv {(sample_request ''alice'', ())}"
proof -
  have "question_ok sample_engine (sample_request ''alice'', ())"
    by (auto simp: question_ok_def sample_engine_def request_wf_def key_fields_def sample_request_def request_new_def
        principal_user_def resource_new_def context_new_def context_wf_def entity_objects_def sample_cedar_def
        field_fits_def action_tool_def action_to_value_def resource_to_value_def context_to_value_def opt_field_def
        plain_text_def)
  then show ?thesis
    using list_lru.lru_laws_axioms json_text_ok_plain
    by (simp add: engine_ok_def sample_engine_def keys_collision_free_def cedar_reads_content_def sample_cedar_def)
qed

text \<open>A second request is answered from the cache, with the answer of the engine.\<close>

theorem cached_authorizer_refines_engine_witness:
  "\<exists>A A1 d1 A2 d2. with_cache sample_engine sample_authorizer 0 default_config = Some A \<and>
    authorize sample_engine A 1 2 (sample_request ''alice'') () = Some (Inr d1, A1) \<and>
    authorize sample_engine A1 3 4 (sample_request ''alice'') () = Some (Inr d2, A2) \<and>
    \<not> dn_from_cache d1 \<and> dn_from_cache d2 \<and>
    outcome (Inr d2) = direct sample_engine None () (sample_request ''alice'') () \<and> dn_effect d2 = Allow"
proof -
  let ?q = "sample_request ''alice''"
  obtain A A1 d1 A2 d2 where r: "with_cache sample_engine sample_authorizer 0 default_config = Some A"
      "authorize sample_engine A 1 2 ?q () = Some (Inr d1, A1)"
      "authorize sample_engine A1 3 4 ?q () = Some (Inr d2, A2)"
      "\<not> dn_from_cache d1 \<and> dn_from_cache d2 \<and> dn_effect d2 = Allow"
    by (simp add: with_cache_def sample_engine_def sample_authorizer_def sample_cedar_def cache_try_new_def
        default_config_def instant_add_def instant_limit_def authorize_def cache_lookup_def cache_get_def
        cache_put_def put_ttl_def list_lru_ops_def to_cedar_request_def Let_def)
  have "az_reach sample_engine sample_authorizer {(?q, ())} A1"
    by (rule az_reach.asked [OF az_reach.fresh [OF r(1)] _ r(2)]) simp
  from cached_authorizer_refines_engine [OF sample_engine_ok this _ r(3)] show ?thesis
    using r by (auto simp: sample_authorizer_def)
qed

end
