(* ===== verification/DecisionRecord.thy ===== *)
theory DecisionRecord
  imports Engine HashChain
begin

text \<open>
  Decision records, \<open>agentguard-core/src/decision/record.rs\<close>, and the audit formats
  \<open>agentguard-core/src/decision/formatter.rs\<close>.

  A timestamp is its number of nanoseconds; its texts, the compact JSON text of a value and the
  decoding of an actor belong to packages and form the parameter record \<open>record_env\<close>.
\<close>

section \<open>Records\<close>

record authenticated_actor =
  actor_subject_type :: string
  actor_subject_id :: string
  actor_tenant_id :: "string option"
  actor_credential_id :: string
  actor_can_act_as :: bool

record decision_record =
  dr_id :: string
  dr_timestamp :: int
  dr_effect :: string
  dr_policies :: "string list"
  dr_request_id :: "string option"
  dr_principal :: string
  dr_action :: string
  dr_resource :: string
  dr_reasons :: "string list"
  dr_session_id :: "string option"
  dr_agent_chain :: "string list option"
  dr_trace_id :: "string option"
  dr_span_id :: "string option"
  dr_tenant_id :: "string option"
  dr_subject_id :: "string option"
  dr_authenticated_actor :: "authenticated_actor option"

record record_env =
  re_hex :: hex_codec
  re_to_string :: "json \<Rightarrow> string"
  re_rfc3339 :: "int \<Rightarrow> string"
  re_leef_time :: "int \<Rightarrow> string"
  re_actor_from_value :: "json \<Rightarrow> string + authenticated_actor"

fun opt_or :: "'a option \<Rightarrow> 'a option \<Rightarrow> 'a option" where
  "opt_or (Some x) _ = Some x"
| "opt_or None y = y"

definition opt_default :: "string option \<Rightarrow> string" where
  "opt_default x = (case x of None \<Rightarrow> [] | Some s \<Rightarrow> s)"

definition ok_of :: "'e + 'a \<Rightarrow> 'a option" where
  "ok_of r = (case r of Inl _ \<Rightarrow> None | Inr a \<Rightarrow> Some a)"

definition get_str :: "json \<Rightarrow> string \<Rightarrow> string option" where
  "get_str v k = Option.bind (get v k) as_str"

definition from_decision ::
  "record_env \<Rightarrow> string \<Rightarrow> int \<Rightarrow> decision \<Rightarrow> string option \<Rightarrow> string list option \<Rightarrow> decision_record" where
  "from_decision E uuid now d session chain =
    (let req = dn_request d in
     \<lparr>dr_id = uuid, dr_timestamp = now, dr_effect = show_effect (dn_effect d), dr_policies = dn_policies d,
      dr_request_id = get_str req ''request_id'',
      dr_principal = opt_default (opt_or (Option.bind (get req ''principal'') (\<lambda>p. get_str p ''uid''))
        (map_option (re_to_string E) (get req ''principal''))),
      dr_action = opt_default (map_option
        (\<lambda>a. case get_str a ''tool'' of
           Some tool \<Rightarrow> (case get_str a ''operation'' of Some op \<Rightarrow> tool @ ''::'' @ op | None \<Rightarrow> tool)
         | None \<Rightarrow> re_to_string E a) (get req ''action'')),
      dr_resource = opt_default (Option.bind (get req ''resource'') (\<lambda>r. get_str r ''uid'')),
      dr_reasons = dn_reasons d, dr_session_id = session, dr_agent_chain = chain,
      dr_trace_id = Option.bind (Option.bind (get req ''trace'') (\<lambda>t. get_str t ''trace_id''))
        (\<lambda>s. ok_of (parse_trace_id (re_hex E) s)),
      dr_span_id = Option.bind (Option.bind (get req ''trace'') (\<lambda>t. get_str t ''span_id''))
        (\<lambda>s. ok_of (parse_span_id (re_hex E) s)),
      dr_tenant_id = get_str req ''tenant_id'', dr_subject_id = get_str req ''subject_id'',
      dr_authenticated_actor = Option.bind (get req ''authenticated_actor'') (\<lambda>a. ok_of (re_actor_from_value E a))\<rparr>)"

definition nullable :: "json option \<Rightarrow> json" where
  "nullable v = (case v of None \<Rightarrow> Null | Some j \<Rightarrow> j)"

definition actor_to_value :: "authenticated_actor \<Rightarrow> json" where
  "actor_to_value a =
    Object ([(''subject_type'', String (actor_subject_type a)), (''subject_id'', String (actor_subject_id a))]
      @ opt_field ''tenant_id'' (map_option String (actor_tenant_id a))
      @ [(''credential_id'', String (actor_credential_id a)), (''can_act_as'', Bool (actor_can_act_as a))])"

definition record_to_value :: "record_env \<Rightarrow> decision_record \<Rightarrow> json" where
  "record_to_value E r =
    Object ([(''id'', String (dr_id r)), (''timestamp'', String (re_rfc3339 E (dr_timestamp r))),
       (''effect'', String (dr_effect r)), (''policies'', Array (map String (dr_policies r))),
       (''request_id'', nullable (map_option String (dr_request_id r))),
       (''principal'', String (dr_principal r)), (''action'', String (dr_action r)),
       (''resource'', String (dr_resource r)), (''reasons'', Array (map String (dr_reasons r))),
       (''session_id'', nullable (map_option String (dr_session_id r))),
       (''agent_chain'', nullable (map_option (\<lambda>xs. Array (map String xs)) (dr_agent_chain r)))]
      @ opt_field ''trace_id'' (map_option (\<lambda>t. String (hex_encode (re_hex E) t)) (dr_trace_id r))
      @ opt_field ''span_id'' (map_option (\<lambda>t. String (hex_encode (re_hex E) t)) (dr_span_id r))
      @ opt_field ''tenant_id'' (map_option String (dr_tenant_id r))
      @ opt_field ''subject_id'' (map_option String (dr_subject_id r))
      @ opt_field ''authenticated_actor'' (map_option actor_to_value (dr_authenticated_actor r)))"

section \<open>Audit formats\<close>

datatype audit_format = Jsonl | Cef | Leef | Ecs

fun format_name :: "audit_format \<Rightarrow> string" where
  "format_name Jsonl = ''jsonl''"
| "format_name Cef = ''cef''"
| "format_name Leef = ''leef''"
| "format_name Ecs = ''ecs''"

definition parse_format :: "string \<Rightarrow> string + audit_format" where
  "parse_format s =
    (if s = ''jsonl'' then Inr Jsonl else if s = ''cef'' then Inr Cef
     else if s = ''leef'' then Inr Leef else if s = ''ecs'' then Inr Ecs
     else Inl (''unknown audit format: '' @ s @ '' (use jsonl|cef|leef|ecs)''))"

definition replace_char :: "char \<Rightarrow> string \<Rightarrow> string \<Rightarrow> string" where
  "replace_char c r s = concat (map (\<lambda>x. if x = c then r else [x]) s)"

definition escape :: "string \<Rightarrow> string" where
  "escape s = replace_char CHR 0x0A '' '' (replace_char CHR ''='' [CHR 0x5C, CHR ''='']
    (replace_char CHR 0x5C [CHR 0x5C, CHR 0x5C] s))"

definition show_bool :: "bool \<Rightarrow> string" where
  "show_bool b = (if b then ''true'' else ''false'')"

definition join_strings :: "string list \<Rightarrow> string" where
  "join_strings xs = join_with CHR '','' xs"

definition actor_label :: "authenticated_actor \<Rightarrow> string" where
  "actor_label a = actor_subject_type a @ ''::'' @ actor_subject_id a"

definition format_cef :: "decision_record \<Rightarrow> string" where
  "format_cef r =
    (let severity = (if dr_effect r = ''allow'' then ''1'' else ''5'');
         extensions = ''src='' @ escape (dr_principal r) @ '' suser='' @ escape (dr_principal r)
           @ '' act='' @ escape (dr_action r)
           @ '' outcome='' @ (if dr_effect r = ''allow'' then ''Success'' else ''Failure'')
           @ '' cs1='' @ escape (dr_effect r) @ '' cs1Label=agentguardDecision cs2='' @ escape (join_strings (dr_policies r))
           @ '' cs2Label=agentguardPolicy cs3='' @ escape (dr_resource r) @ '' cs3Label=agentguardResource'';
         actor = (case dr_authenticated_actor r of
             None \<Rightarrow> []
           | Some a \<Rightarrow> '' cs4='' @ escape (actor_label a) @ '' cs4Label=agentguardAuthenticatedActor cs5=''
               @ escape (actor_credential_id a) @ '' cs5Label=agentguardCredentialId cs6=''
               @ show_bool (actor_can_act_as a) @ '' cs6Label=agentguardActAs'')
     in ''CEF:0|agentguard|agentguard|2.0|0|authz_decision|'' @ severity @ ''|'' @ extensions @ actor)"

definition format_leef :: "record_env \<Rightarrow> decision_record \<Rightarrow> string" where
  "format_leef E r =
    ''LEEF:2.0|agentguard|agentguard|2.0|authz_decision|devTime='' @ re_leef_time E (dr_timestamp r)
    @ '' usrName='' @ escape (dr_principal r) @ '' action='' @ escape (dr_action r)
    @ '' outcome='' @ (if dr_effect r = ''allow'' then ''Success'' else ''Failure'')
    @ '' src='' @ escape (dr_resource r)
    @ (if dr_policies r \<noteq> [] then '' agentguardPolicy='' @ escape (join_strings (dr_policies r)) else [])
    @ (case dr_trace_id r of None \<Rightarrow> [] | Some t \<Rightarrow> '' traceId='' @ escape (hex_encode (re_hex E) t))
    @ (case dr_authenticated_actor r of
         None \<Rightarrow> []
       | Some a \<Rightarrow> '' agentguardAuthenticatedActor='' @ escape (actor_label a) @ '' agentguardCredentialId=''
           @ escape (actor_credential_id a) @ '' agentguardActAs='' @ show_bool (actor_can_act_as a))"

definition ecs_value :: "record_env \<Rightarrow> decision_record \<Rightarrow> json" where
  "ecs_value E r =
    Object ([(''@timestamp'', String (re_rfc3339 E (dr_timestamp r))), (''event.action'', String ''authz_decision''),
       (''event.outcome'', String (if dr_effect r = ''allow'' then ''success'' else ''failure'')),
       (''event.kind'', String ''event''), (''event.category'', String ''authentication''),
       (''user.name'', String (dr_principal r)), (''labels.agentguard_principal'', String (dr_principal r)),
       (''labels.agentguard_action'', String (dr_action r)), (''labels.agentguard_resource'', String (dr_resource r)),
       (''labels.agentguard_policies'', String (join_strings (dr_policies r))),
       (''labels.agentguard_decision_id'', String (dr_id r))]
      @ opt_field ''labels.agentguard_trace_id'' (map_option (\<lambda>t. String (hex_encode (re_hex E) t)) (dr_trace_id r))
      @ opt_field ''labels.agentguard_authenticated_actor'' (map_option (\<lambda>a. String (actor_label a)) (dr_authenticated_actor r))
      @ opt_field ''labels.agentguard_credential_id'' (map_option (\<lambda>a. String (actor_credential_id a)) (dr_authenticated_actor r))
      @ opt_field ''labels.agentguard_act_as'' (map_option (\<lambda>a. Bool (actor_can_act_as a)) (dr_authenticated_actor r)))"

fun format_record :: "record_env \<Rightarrow> audit_format \<Rightarrow> decision_record \<Rightarrow> string" where
  "format_record E Jsonl r = re_to_string E (record_to_value E r)"
| "format_record E Cef r = format_cef r"
| "format_record E Leef r = format_leef E r"
| "format_record E Ecs r = re_to_string E (ecs_value E r)"

section \<open>Escaping\<close>

text \<open>The equality signs of an extension that a backslash does not escape: those that separate keys from values.\<close>

fun unescaped_eqs :: "string \<Rightarrow> nat" where
  "unescaped_eqs [] = 0"
| "unescaped_eqs (c # s) =
    (if c = CHR 0x5C then unescaped_eqs (drop 1 s)
     else (if c = CHR ''='' then 1 else 0) + unescaped_eqs s)"

lemma escape_Nil [simp]: "escape [] = []"
  by (simp add: escape_def replace_char_def)

lemma escape_Cons [simp]:
  "escape (c # s) =
    (if c = CHR 0x5C then [CHR 0x5C, CHR 0x5C] else if c = CHR ''='' then [CHR 0x5C, CHR ''='']
     else if c = CHR 0x0A then '' '' else [c]) @ escape s"
  by (simp add: escape_def replace_char_def)

lemma unescaped_eqs_escape [simp]: "unescaped_eqs (escape s @ t) = unescaped_eqs t"
  by (induction s) auto

lemma unescaped_eqs_escape_end [simp]: "unescaped_eqs (escape s) = 0"
  using unescaped_eqs_escape [of s "[]"] by simp

lemma escape_one_line [simp]: "CHR 0x0A \<notin> set (escape s)"
  by (induction s) auto

section \<open>Properties\<close>


lemma record_fields:
  assumes "\<forall>k. k \<noteq> ''authenticated_actor'' \<longrightarrow> get (dn_request d) k = get (request_to_value (re_hex E) q) k"
  shows "let r = from_decision E uuid now d session chain in
    dr_principal r = principal_uid (rq_principal q) \<and>
    ''ToolCall::'' @ dr_action r = action_id (rq_action q) \<and> dr_resource r = res_uid (rq_resource q) \<and>
    dr_request_id r = rq_request_id q \<and> dr_tenant_id r = rq_tenant_id q \<and>
    dr_effect r = show_effect (dn_effect d) \<and> dr_policies r = dn_policies d \<and> dr_reasons r = dn_reasons d"
proof -
  have p: "Option.bind (get (dn_request d) ''principal'') (\<lambda>p. get_str p ''uid'') = Some (principal_uid (rq_principal q))"
    by (cases "rq_principal q") (simp_all add: assms request_to_value_def get_str_def)
  have a: "get (dn_request d) ''action'' = Some (action_to_value (rq_action q))"
    and r: "get (dn_request d) ''resource'' = Some (resource_to_value (rq_resource q))"
    by (simp_all add: assms request_to_value_def)
  have o: "get_str (dn_request d) ''request_id'' = rq_request_id q" "get_str (dn_request d) ''tenant_id'' = rq_tenant_id q"
    by (auto simp: assms request_to_value_def get_str_def opt_field_def split: option.splits)
  show ?thesis
    unfolding from_decision_def Let_def p a r o
    by (auto simp: opt_default_def get_str_def action_to_value_def resource_to_value_def action_id_def opt_field_def
        split: option.splits)
qed

lemma request_has_no_actor: "get (request_to_value h q) ''authenticated_actor'' = None"
  by (auto simp: request_to_value_def opt_field_def split: option.splits)

text \<open>
  C37: The audit record of a decision names the request that was decided: its principal, action
  and resource, its request and tenant identifiers, and the effect, policies and errors of the
  decision.  A request cannot supply the authenticated actor, which only the server adds.
\<close>

theorem record_reflects_request:
  assumes "dn_request d = request_to_value (re_hex E) q"
  shows "let r = from_decision E uuid now d session chain in
    dr_principal r = principal_uid (rq_principal q) \<and>
    ''ToolCall::'' @ dr_action r = action_id (rq_action q) \<and> dr_resource r = res_uid (rq_resource q) \<and>
    dr_request_id r = rq_request_id q \<and> dr_tenant_id r = rq_tenant_id q \<and>
    dr_effect r = show_effect (dn_effect d) \<and> dr_policies r = dn_policies d \<and> dr_reasons r = dn_reasons d \<and>
    dr_authenticated_actor r = None"
  using record_fields [of d E q uuid now session chain] request_has_no_actor [of "re_hex E" q] assms
  by (simp add: Let_def from_decision_def)

definition sample_record_env :: record_env where
  "sample_record_env =
    \<lparr>re_hex = plain_hex, re_to_string = (\<lambda>_. []), re_rfc3339 = show_int, re_leef_time = show_int,
     re_actor_from_value = (\<lambda>_. Inl ''no actor'')\<rparr>"

definition sample_decision :: "effect \<Rightarrow> agent_request \<Rightarrow> decision" where
  "sample_decision e q =
    \<lparr>dn_effect = e, dn_policies = [''p0''], dn_reasons = [], dn_request = request_to_value plain_hex q,
     dn_trace = None, dn_from_cache = False\<rparr>"

theorem record_reflects_request_witness:
  "dr_principal (from_decision sample_record_env ''u'' 0 (sample_decision Deny (sample_request ''alice'')) None None) = ''alice'' \<and>
   dr_effect (from_decision sample_record_env ''u'' 0 (sample_decision Deny (sample_request ''alice'')) None None) = ''deny''"
  using record_reflects_request [of "sample_decision Deny (sample_request ''alice'')" sample_record_env "sample_request ''alice''"
      "''u''" 0 None None]
  by (simp add: sample_decision_def sample_record_env_def sample_request_def request_new_def principal_user_def Let_def)

text \<open>
  The trace of a request is serialized as one string, so the record never finds the trace and span
  identifiers it looks for inside an object.
\<close>

theorem record_never_has_trace:
  assumes "dn_request d = request_to_value (re_hex E) q"
  shows "dr_trace_id (from_decision E uuid now d session chain) = None \<and>
    dr_span_id (from_decision E uuid now d session chain) = None"
proof -
  have "get_str t k = None" if "get (dn_request d) ''trace'' = Some t" for t k
    using that by (auto simp: assms request_to_value_def get_str_def opt_field_def split: option.splits)
  then show ?thesis by (cases "get (dn_request d) ''trace''") (simp_all add: from_decision_def Let_def)
qed

end
