(* ===== verification/LogNames.thy ===== *)
theory LogNames
  imports Prelude "HOL-Library.Char_ord" "HOL-Library.List_Lexorder" "HOL-Library.Product_Lexorder"
begin

text \<open>
  The file names of the decision log, \<open>agentguard-core/src/decision/log.rs\<close>: stems and extensions
  as \<open>std::path\<close> splits them, the names of rotated segments, and the order in which the segments
  are read back.
\<close>

section \<open>Stems and extensions\<close>

text \<open>The parts before and after the last dot; a name without one, or with only a leading one, is all stem.\<close>

definition rsplit_dot :: "string \<Rightarrow> string option \<times> string option" where
  "rsplit_dot name =
    (if name = ''..'' then (Some name, None)
     else if CHR ''.'' \<notin> set name then (None, Some name)
     else let after = rev (takeWhile (\<lambda>c. c \<noteq> CHR ''.'') (rev name));
              before = take (length name - length after - 1) name
          in if before = [] then (Some name, None) else (Some before, Some after))"

definition file_stem :: "string \<Rightarrow> string" where
  "file_stem name =
    (case rsplit_dot name of
       (Some before, _) \<Rightarrow> before
     | (None, Some after) \<Rightarrow> after
     | (None, None) \<Rightarrow> [])"

definition extension :: "string \<Rightarrow> string option" where
  "extension name = (case rsplit_dot name of (Some _, after) \<Rightarrow> after | (None, _) \<Rightarrow> None)"

definition log_extension :: "string \<Rightarrow> string" where
  "log_extension name = (case extension name of Some e \<Rightarrow> e | None \<Rightarrow> ''jsonl'')"

definition chain_id_sidecar_name :: "string \<Rightarrow> string" where
  "chain_id_sidecar_name name = ''.'' @ name @ ''.chainid''"

section \<open>Rotated segments\<close>

definition is_rotation_filename :: "string \<Rightarrow> bool" where
  "is_rotation_filename suffix =
    (let timestamp = (case split_once CHR ''-'' suffix of None \<Rightarrow> suffix | Some (t, _) \<Rightarrow> t) in
     if length timestamp \<noteq> 22 \<or> timestamp ! 8 \<noteq> CHR ''T'' \<or> timestamp ! 21 \<noteq> CHR ''Z'' then False
     else if \<not> list_all (\<lambda>(i, b). i = 8 \<or> i = 21 \<or> digit_value b \<noteq> None) (enumerate 0 timestamp) then False
     else case split_once CHR ''-'' suffix of
       None \<Rightarrow> True
     | Some (_, collision) \<Rightarrow> (case parse_uint u32_max collision of Some n \<Rightarrow> n > 0 | None \<Rightarrow> False))"

definition rotation_order :: "string \<Rightarrow> string \<Rightarrow> string \<times> nat" where
  "rotation_order prefix name =
    (let suffix = (case strip_prefix prefix (file_stem name) of Some s \<Rightarrow> s | None \<Rightarrow> []);
         (timestamp, collision) = (case split_once CHR ''-'' suffix of
             None \<Rightarrow> (suffix, None)
           | Some (t, c) \<Rightarrow> (t, Some c))
     in (timestamp, case Option.bind collision (parse_uint u32_max) of Some n \<Rightarrow> n | None \<Rightarrow> 0))"

text \<open>The name \<open>rotate_inner\<close> tries: the plain timestamp first, then with a counter.\<close>

definition rotated_name :: "string \<Rightarrow> string \<Rightarrow> nat \<Rightarrow> string" where
  "rotated_name name ts k =
    file_stem name @ ''-'' @ ts @ (if k = 0 then [] else ''-'' @ show_nat k) @ ''.'' @ log_extension name"

text \<open>The loop over counters, which saturate at the largest \<open>u32\<close>, with a bound on the tries.\<close>

fun free_slot :: "nat \<Rightarrow> (nat \<Rightarrow> bool) \<Rightarrow> nat \<Rightarrow> nat option" where
  "free_slot 0 taken k = None"
| "free_slot (Suc n) taken k = (if taken k then free_slot n taken (min (k + 1) u32_max) else Some k)"

definition is_segment_name :: "string \<Rightarrow> string \<Rightarrow> bool" where
  "is_segment_name name entry =
    ((case strip_prefix (file_stem name @ ''-'') (file_stem entry) of
        Some s \<Rightarrow> is_rotation_filename s
      | None \<Rightarrow> False) \<and> extension entry = Some (log_extension name))"

text \<open>The timestamps \<open>rotate_inner\<close> prints: 22 characters of fixed layout.\<close>

definition timestamp_ok :: "string \<Rightarrow> bool" where
  "timestamp_ok ts \<longleftrightarrow> CHR ''-'' \<notin> set ts \<and> is_rotation_filename ts"

section \<open>Lemmas\<close>

lemma rsplit_dot_append:
  assumes "CHR ''.'' \<notin> set e" "b \<noteq> []" "b \<noteq> ''.'' \<or> e \<noteq> []"
  shows "rsplit_dot (b @ ''.'' @ e) = (Some b, Some e)"
proof -
  have "\<forall>x \<in> set (rev e). x \<noteq> CHR ''.''" using assms(1) by auto
  then have "takeWhile (\<lambda>c. c \<noteq> CHR ''.'') (rev e @ CHR ''.'' # rev b) = rev e" by (simp add: takeWhile_tail)
  moreover have "b @ ''.'' @ e \<noteq> ''..''"
    using assms by (cases b) (auto simp: append_eq_Cons_conv)
  ultimately show ?thesis using assms(2) by (simp add: rsplit_dot_def Let_def)
qed

lemma extension_no_dot: "CHR ''.'' \<notin> set (log_extension name)"
proof -
  have "CHR ''.'' \<notin> set e" if "extension name = Some e" for e
    using that set_takeWhileD [of "CHR ''.''" "\<lambda>c. c \<noteq> CHR ''.''" "rev name"]
    by (auto simp: extension_def rsplit_dot_def Let_def split: option.splits prod.splits if_splits)
  then show ?thesis by (auto simp: log_extension_def split: option.splits)
qed

definition rotation_suffix :: "string \<Rightarrow> nat \<Rightarrow> string" where
  "rotation_suffix ts k = ts @ (if k = 0 then [] else ''-'' @ show_nat k)"

lemma rotated_name_parts:
  assumes "timestamp_ok ts"
  shows "file_stem (rotated_name name ts k) = file_stem name @ ''-'' @ rotation_suffix ts k"
    and "extension (rotated_name name ts k) = Some (log_extension name)"
proof -
  have n: "rotated_name name ts k = (file_stem name @ ''-'' @ rotation_suffix ts k) @ ''.'' @ log_extension name"
    by (simp add: rotated_name_def rotation_suffix_def)
  have "file_stem name @ ''-'' @ rotation_suffix ts k \<noteq> ''.''" by (auto simp: append_eq_Cons_conv)
  then have "rsplit_dot (rotated_name name ts k)
      = (Some (file_stem name @ ''-'' @ rotation_suffix ts k), Some (log_extension name))"
    unfolding n by (intro rsplit_dot_append extension_no_dot) simp_all
  then show "file_stem (rotated_name name ts k) = file_stem name @ ''-'' @ rotation_suffix ts k"
    "extension (rotated_name name ts k) = Some (log_extension name)"
    by (simp_all add: file_stem_def extension_def)
qed

lemma split_suffix:
  assumes "timestamp_ok ts"
  shows "split_once CHR ''-'' (rotation_suffix ts k) = (if k = 0 then None else Some (ts, show_nat k))"
  using assms split_once_append [of "CHR ''-''" ts "show_nat k"]
  by (simp add: rotation_suffix_def timestamp_ok_def split_once_None)

lemma is_rotation_suffix:
  assumes "timestamp_ok ts" "k \<le> u32_max"
  shows "is_rotation_filename (rotation_suffix ts k)"
proof -
  have "is_rotation_filename ts" "split_once CHR ''-'' ts = None"
    using assms(1) by (simp_all add: timestamp_ok_def split_once_None)
  then show ?thesis
    using split_suffix [OF assms(1), of k] parse_uint_show_nat [OF assms(2)]
    by (simp add: is_rotation_filename_def rotation_suffix_def Let_def split: if_splits)
qed

lemma is_segment_rotated:
  "timestamp_ok ts \<Longrightarrow> k \<le> u32_max \<Longrightarrow> is_segment_name name (rotated_name name ts k)"
  using strip_prefix_Some [of "file_stem name @ ''-''" "file_stem name @ ''-'' @ rotation_suffix ts k" "rotation_suffix ts k"]
  by (simp add: is_segment_name_def rotated_name_parts is_rotation_suffix)

lemma order_rotated:
  assumes "timestamp_ok ts" "k \<le> u32_max"
  shows "rotation_order (file_stem name @ ''-'') (rotated_name name ts k) = (ts, k)"
proof -
  have "strip_prefix (file_stem name @ ''-'') (file_stem (rotated_name name ts k)) = Some (rotation_suffix ts k)"
    unfolding strip_prefix_Some by (simp add: rotated_name_parts [OF assms(1)])
  then show ?thesis
    using split_suffix [OF assms(1), of k] parse_uint_show_nat [OF assms(2)]
    by (simp add: rotation_order_def rotation_suffix_def Let_def)
qed

lemma show_nat_inj: "show_nat m = show_nat n \<Longrightarrow> m = n"
proof -
  assume eq: "show_nat m = show_nat n"
  have "parse_digits (m + n) 0 (show_nat m) = Some m" "parse_digits (m + n) 0 (show_nat n) = Some n"
    by (rule parse_digits_show_nat; simp)+
  then have "Some m = Some n" unfolding eq by (rule trans [OF sym])
  then show ?thesis by (rule option.inject [THEN iffD1])
qed

lemma rotated_name_inj: "rotated_name name ts j = rotated_name name ts k \<Longrightarrow> j = k"
  by (auto simp: rotated_name_def intro: show_nat_inj split: if_splits)

text \<open>The search finds the first free counter, and finds one when there is one in its range.\<close>

lemma free_slot_Some:
  "free_slot n taken k = Some j \<Longrightarrow> k \<le> u32_max \<Longrightarrow>
    \<not> taken j \<and> k \<le> j \<and> j \<le> u32_max \<and> (\<forall>i. k \<le> i \<longrightarrow> i < j \<longrightarrow> taken i)"
proof (induction n taken k rule: free_slot.induct)
  case (2 n taken k)
  show ?case
  proof (cases "taken k")
    case True
    then have f: "free_slot n taken (min (k + 1) u32_max) = Some j" using 2(2) by simp
    have ih: "\<not> taken j \<and> min (k + 1) u32_max \<le> j \<and> j \<le> u32_max \<and>
        (\<forall>i. min (k + 1) u32_max \<le> i \<longrightarrow> i < j \<longrightarrow> taken i)"
      using 2(1) [OF True f] by simp
    moreover have "k \<noteq> j" using ih True by auto
    moreover have "taken i" if "k \<le> i" "i < j" for i
      using ih that True by (cases "i = k") auto
    ultimately show ?thesis using 2(3) by auto
  qed (use 2 in auto)
qed simp

lemma free_slot_total:
  "\<not> taken i \<Longrightarrow> k \<le> i \<Longrightarrow> i < k + n \<Longrightarrow> i \<le> u32_max \<Longrightarrow> free_slot n taken k \<noteq> None"
proof (induction n arbitrary: k)
  case (Suc n)
  show ?case
  proof (cases "taken k")
    case True
    then have "k < i" using Suc.prems(1,2) by (cases "k = i") auto
    then have m: "min (k + 1) u32_max = k + 1" using Suc.prems(4) by simp
    have "free_slot n taken (k + 1) \<noteq> None" using Suc.prems \<open>k < i\<close> by (intro Suc.IH) auto
    then show ?thesis using True m by simp
  qed simp
qed simp

lemma sort_key_snoc:
  assumes "\<forall>x \<in> set xs. f x \<le> f y"
  shows "sort_key f (xs @ [y]) = sort_key f xs @ [y]"
proof -
  have i: "insort_key f x (zs @ [y]) = insort_key f x zs @ [y]" if "f x \<le> f y" for x zs
    using that by (induction zs) auto
  show ?thesis using assms by (induction xs) (simp_all add: i)
qed

text \<open>The log's own name, and any name that starts with a dot, is not a segment.\<close>

lemma active_not_segment: "\<not> is_segment_name name name"
proof -
  have "strip_prefix (file_stem name @ ''-'') (file_stem name) = None"
    using strip_prefix_Some [of "file_stem name @ ''-''" "file_stem name"] by (cases "strip_prefix (file_stem name @ ''-'') (file_stem name)") auto
  then show ?thesis by (simp add: is_segment_name_def)
qed

lemma file_stem_take: "name \<noteq> [] \<Longrightarrow> \<exists>n > 0. file_stem name = take n name"
proof -
  assume ne: "name \<noteq> []"
  have whole: "\<exists>n > 0. name = take n name" using ne by (intro exI [of _ "length name"]) simp
  show ?thesis
  proof (cases "rsplit_dot name")
    case (Pair b a)
    show ?thesis
    proof (cases b)
      case None
      then show ?thesis using Pair whole
        by (auto simp: file_stem_def rsplit_dot_def Let_def split: if_splits)
    next
      case (Some before)
      then show ?thesis using Pair whole
        by (auto simp: file_stem_def rsplit_dot_def Let_def split: if_splits)
          (rule exI, rule conjI [rotated], rule refl, simp)
    qed
  qed
qed

lemma stem_first:
  assumes "name \<noteq> []"
  shows "file_stem name \<noteq> [] \<and> hd (file_stem name) = hd name"
proof -
  obtain n where "n > 0" "file_stem name = take n name" using file_stem_take [OF assms] by blast
  then show ?thesis using assms by (simp add: hd_take)
qed

lemma dot_not_segment:
  assumes "name \<noteq> []" "hd name \<noteq> CHR ''.''" "entry = CHR ''.'' # r"
  shows "\<not> is_segment_name name entry"
proof -
  have "strip_prefix (file_stem name @ ''-'') (file_stem entry) = None"
  proof (rule ccontr)
    assume "strip_prefix (file_stem name @ ''-'') (file_stem entry) \<noteq> None"
    then obtain t where "strip_prefix (file_stem name @ ''-'') (file_stem entry) = Some t" by blast
    then have "file_stem entry = (file_stem name @ ''-'') @ t" by (simp only: strip_prefix_Some)
    then have "hd (file_stem entry) = hd (file_stem name)" using stem_first [OF assms(1)] by simp
    moreover have "hd (file_stem entry) = CHR ''.''" using stem_first [of entry] assms(3) by simp
    ultimately show False using stem_first [OF assms(1)] assms(2) by simp
  qed
  then show ?thesis by (simp add: is_segment_name_def)
qed

lemma rotated_name_not_dot:
  "name \<noteq> [] \<Longrightarrow> hd name \<noteq> CHR ''.'' \<Longrightarrow> rotated_name name ts k \<noteq> CHR ''.'' # r"
  using stem_first [of name] by (auto simp: rotated_name_def append_eq_Cons_conv)

lemma rotated_name_neq_active: "timestamp_ok ts \<Longrightarrow> k \<le> u32_max \<Longrightarrow> rotated_name name ts k \<noteq> name"
  using is_segment_rotated active_not_segment by metis

end
