(* ===== verification/LogFiles.thy ===== *)
theory LogFiles
  imports LogNames DecisionRecord
begin

text \<open>
  The files of the decision log, \<open>agentguard-core/src/decision/log.rs\<close> and the head recovery of
  \<open>agentguard-core/src/decision/chain.rs\<close>: opening and validating audit files, durable appends with
  rollback, and the sidecar that holds the identity of a chain.

  All files of a log are entries of one directory, an association list from names to nodes.  A
  node is a regular file with its content, or special (a directory, pipe, device or link), which is
  never read.  Every system call may fail: \<open>io\<close> gives, for the call sites of one operation, the
  error each of them reports (the same one every time the operation passes that site), and how many
  bytes a failing write leaves behind.
\<close>

section \<open>The directory and its failures\<close>

datatype node = Regular string | Special

type_synonym dir = "(string \<times> node) list"

datatype io_site =
    AtCreateDir
  | AtStat string
  | AtOpen string
  | AtFdStat string
  | AtChmod string
  | AtReadDir
  | AtEntry string
  | AtFileType string
  | AtRead string
  | AtMeta string
  | AtLen
  | AtWrite
  | AtSync
  | AtSetLen
  | AtRollbackSync
  | AtTmpOpen string
  | AtTmpWrite string
  | AtRename string
  | AtTmpRemove string
  | AtDirSync string

record io_faults =
  io_fault :: "io_site \<Rightarrow> string option"
  io_written :: nat

definition attempt :: "io_faults \<Rightarrow> io_site \<Rightarrow> string + unit" where
  "attempt io site = (case io_fault io site of None \<Rightarrow> Inr () | Some e \<Rightarrow> Inl e)"

text \<open>A disk on which every call succeeds.\<close>

definition no_faults :: io_faults where
  "no_faults = \<lparr>io_fault = (\<lambda>_. None), io_written = 0\<rparr>"

lemma attempt_no_faults [simp]: "attempt no_faults site = Inr ()"
  by (simp add: attempt_def no_faults_def)

definition not_found :: string where
  "not_found = ''No such file or directory (os error 2)''"

text \<open>The path of a log: its directory as written (empty for a bare file name) and its file name.\<close>

record log_path =
  lp_dir :: string
  lp_name :: string

definition path_text :: "string \<Rightarrow> string \<Rightarrow> string" where
  "path_text d name = (if d = [] then name else if last d = CHR ''/'' then d @ name else d @ ''/'' @ name)"

text \<open>Opening a directory by its written name, which fails for the empty name.\<close>

definition open_dir :: "string \<Rightarrow> string + unit" where
  "open_dir d = (if d = [] then Inl not_found else Inr ())"

section \<open>Audit files\<close>

definition validate_audit_path :: "io_faults \<Rightarrow> string \<Rightarrow> dir \<Rightarrow> string \<Rightarrow> string + unit" where
  "validate_audit_path io d fs name =
    and_then (attempt io (AtStat name)) (\<lambda>_.
    case map_of fs name of
      Some Special \<Rightarrow>
        Inl (''audit path must be a regular file, not a symlink or special file: '' @ path_text d name)
    | _ \<Rightarrow> Inr ())"

definition open_existing_audit_file :: "io_faults \<Rightarrow> string \<Rightarrow> dir \<Rightarrow> string \<Rightarrow> string + string" where
  "open_existing_audit_file io d fs name =
    and_then (validate_audit_path io d fs name) (\<lambda>_.
    and_then (attempt io (AtOpen name)) (\<lambda>_.
    case map_of fs name of
      None \<Rightarrow> Inl not_found
    | Some n \<Rightarrow>
      and_then (attempt io (AtFdStat name)) (\<lambda>_.
      case n of
        Regular content \<Rightarrow> Inr content
      | Special \<Rightarrow> Inl (''audit path must be a regular file: '' @ path_text d name))))"

definition open_audit_file :: "io_faults \<Rightarrow> string \<Rightarrow> string \<Rightarrow> dir \<Rightarrow> (string + unit) \<times> dir" where
  "open_audit_file io d name fs =
    (case and_then (validate_audit_path io d fs name) (\<lambda>_. attempt io (AtOpen name)) of
       Inl e \<Rightarrow> (Inl e, fs)
     | Inr _ \<Rightarrow>
       (let fs = (if map_of fs name = None then AList.update name (Regular []) fs else fs) in
        (and_then (attempt io (AtFdStat name)) (\<lambda>_.
         if map_of fs name = Some Special then Inl (''audit path must be a regular file: '' @ path_text d name)
         else attempt io (AtChmod name)), fs)))"

definition content_of :: "dir \<Rightarrow> string \<Rightarrow> string" where
  "content_of fs name = (case map_of fs name of Some (Regular c) \<Rightarrow> c | _ \<Rightarrow> [])"

definition set_content :: "string \<Rightarrow> string \<Rightarrow> dir \<Rightarrow> dir" where
  "set_content name c fs = AList.update name (Regular c) fs"

text \<open>The append, its synchronization, and the truncation back to the former length when one fails.\<close>

definition write_line_durably :: "io_faults \<Rightarrow> string \<Rightarrow> string \<Rightarrow> dir \<Rightarrow> (string + unit) \<times> dir" where
  "write_line_durably io name line fs =
    (let old = content_of fs name in
     case attempt io AtLen of
       Inl e \<Rightarrow> (Inl e, fs)
     | Inr _ \<Rightarrow>
       (let (r, fs) =
          (case attempt io AtWrite of
             Inl e \<Rightarrow> (Inl e, set_content name (old @ take (io_written io) line) fs)
           | Inr _ \<Rightarrow> (attempt io AtSync, set_content name (old @ line) fs))
        in case r of
          Inr _ \<Rightarrow> (Inr (), fs)
        | Inl write_error \<Rightarrow>
          (let (rollback, fs) =
             (case attempt io AtSetLen of
                Inl e \<Rightarrow> (Inl e, fs)
              | Inr _ \<Rightarrow> (attempt io AtRollbackSync, set_content name old fs))
           in case rollback of
             Inr _ \<Rightarrow> (Inl write_error, fs)
           | Inl rollback_error \<Rightarrow>
             (Inl (''audit append failed ('' @ write_error @ ''); rollback failed ('' @ rollback_error @ '')''), fs))))"

section \<open>Lines\<close>

text \<open>\<open>BufRead::lines\<close>: without terminators; a line that is not UTF-8 is an error.\<close>

definition strip_cr :: "string \<Rightarrow> string" where
  "strip_cr s = (if s \<noteq> [] \<and> last s = CHR 0x0D then butlast s else s)"

definition text_lines :: "string \<Rightarrow> (string + string) list" where
  "text_lines s =
    (let ps = split_on CHR 0x0A s;
         ls = map strip_cr (butlast ps) @ (if last ps = [] then [] else [last ps])
     in map (\<lambda>l. if utf8_valid l then Inr l else Inl ''stream did not contain valid UTF-8'') ls)"

text \<open>\<open>read_until\<close> a newline, repeatedly: lines with their terminators.\<close>

definition byte_lines :: "string \<Rightarrow> string list" where
  "byte_lines s =
    (let ps = split_on CHR 0x0A s
     in map (\<lambda>l. l @ [CHR 0x0A]) (butlast ps) @ (if last ps = [] then [] else [last ps]))"

section \<open>Packages\<close>

record chained_record =
  cr_prev_hash :: string
  cr_record_hash :: string
  cr_chain_id :: string
  cr_record :: decision_record

text \<open>
  The keyed hash, the JSON texts of records and the parser of identifiers; an identifier is its
  canonical text.
\<close>

record log_env =
  le_hmac :: keyed_hash
  le_text :: json_text
  le_rec :: record_env
  le_chained_to_vec :: "chained_record \<Rightarrow> string + string"
  le_chained_from_str :: "string \<Rightarrow> string + chained_record"
  le_record_to_vec :: "decision_record \<Rightarrow> string + string"
  le_record_from_str :: "string \<Rightarrow> string + decision_record"
  le_value_from_slice :: "string \<Rightarrow> string + json"
  le_parse_uuid :: "string \<Rightarrow> string + string"

definition canonical_record :: "log_env \<Rightarrow> decision_record \<Rightarrow> string" where
  "canonical_record E r = write_canonical_value (le_text E) (record_to_value (le_rec E) r)"

section \<open>Recovering the head\<close>

datatype chain_load_error = LoadIo string | LoadCorrupt string

fun show_load_error :: "chain_load_error \<Rightarrow> string" where
  "show_load_error (LoadIo e) = ''read audit log: '' @ e"
| "show_load_error (LoadCorrupt e) = ''audit log tail corrupt: '' @ e"

definition load_head_from_file ::
  "log_env \<Rightarrow> io_faults \<Rightarrow> dir \<Rightarrow> string \<Rightarrow> hash_chain \<Rightarrow> (chain_load_error + unit) \<times> hash_chain" where
  "load_head_from_file E io fs name c =
    (case attempt io (AtOpen name) of
       Inl e \<Rightarrow> (Inl (LoadIo e), c)
     | Inr _ \<Rightarrow>
       if map_of fs name = None then (Inr (), c)
       else case attempt io (AtRead name) of
         Inl e \<Rightarrow> (Inl (LoadIo e), c)
       | Inr _ \<Rightarrow>
         (case filter (list_ex (\<lambda>b. \<not> ascii_whitespace b)) (byte_lines (content_of fs name)) of
            [] \<Rightarrow> (Inr (), c)
          | ls \<Rightarrow>
            (case and_then (map_err (\<lambda>e. LoadCorrupt (''last line not valid JSON: '' @ e))
                    (le_value_from_slice E (last ls))) (\<lambda>val.
                  and_then (ok_or (LoadCorrupt ''missing record_hash'') (get_str val ''record_hash'')) (\<lambda>hash_str.
                  and_then (map_err (\<lambda>e. LoadCorrupt (''record_hash not valid hex: '' @ e))
                    (hex_decode (re_hex (le_rec E)) hash_str)) (\<lambda>bytes.
                  if length bytes \<noteq> HASH_LEN then
                    Inl (LoadCorrupt (''record_hash wrong length: '' @ show_nat (length bytes) @ '' != '' @ show_nat HASH_LEN))
                  else Inr (val, bytes)))) of
               Inl e \<Rightarrow> (Inl e, c)
             | Inr (val, bytes) \<Rightarrow>
               (let c = c\<lparr>hc_head := bytes\<rparr> in
                case get_str val ''chain_id'' of
                  None \<Rightarrow> (Inr (), c)
                | Some id_str \<Rightarrow>
                  (case le_parse_uuid E id_str of
                     Inl e \<Rightarrow> (Inl (LoadCorrupt (''chain_id not a UUID: '' @ e)), c)
                   | Inr ident \<Rightarrow> (Inr (), c\<lparr>hc_id := Some ident\<rparr>))))))"

section \<open>The sidecar\<close>

definition read_chain_id_sidecar :: "log_env \<Rightarrow> io_faults \<Rightarrow> dir \<Rightarrow> string \<Rightarrow> string option" where
  "read_chain_id_sidecar E io fs name =
    (case attempt io (AtRead name) of
       Inl _ \<Rightarrow> None
     | Inr _ \<Rightarrow>
       (case map_of fs name of
          Some (Regular c) \<Rightarrow> if utf8_valid c then ok_of (le_parse_uuid E (trim c)) else None
        | _ \<Rightarrow> None))"

definition write_chain_id_sidecar ::
  "io_faults \<Rightarrow> string \<Rightarrow> string \<Rightarrow> string \<Rightarrow> string \<Rightarrow> dir \<Rightarrow> (string + unit) \<times> dir" where
  "write_chain_id_sidecar io uuid d name ident fs =
    (let tmp = ''.'' @ name @ ''.'' @ uuid @ ''.new'';
         body = ident @ [CHR 0x0A]
     in case attempt io (AtTmpOpen name) of
       Inl e \<Rightarrow> (Inl e, fs)
     | Inr _ \<Rightarrow>
       if map_of fs tmp \<noteq> None then (Inl ''File exists (os error 17)'', fs)
       else case attempt io (AtTmpWrite name) of
         Inl e \<Rightarrow> (Inl e, set_content tmp (take (io_written io) body) fs)
       | Inr _ \<Rightarrow>
         (case attempt io (AtRename name) of
            Inl e \<Rightarrow>
              (Inl e, if is_ok (attempt io (AtTmpRemove name)) then fs else set_content tmp body fs)
          | Inr _ \<Rightarrow>
            (and_then (open_dir d) (\<lambda>_. attempt io (AtDirSync name)), set_content name body fs)))"

definition copy_chain_id_sidecar ::
  "log_env \<Rightarrow> io_faults \<Rightarrow> string \<Rightarrow> string \<Rightarrow> string \<Rightarrow> string \<Rightarrow> bool \<Rightarrow> dir \<Rightarrow> unit core_result \<times> dir" where
  "copy_chain_id_sidecar E io uuid d active rotated required fs =
    (case attempt io (AtStat active) of
       Inl e \<Rightarrow> (Inl (Io (''inspect chain identity sidecar '' @ path_text d active @ '': '' @ e)), fs)
     | Inr _ \<Rightarrow>
       (case map_of fs active of
          None \<Rightarrow>
            if \<not> required then (Inr (), fs)
            else (Inl (Io (''required chain identity sidecar is missing: '' @ path_text d active)), fs)
        | Some Special \<Rightarrow>
            (Inl (Io (''chain identity sidecar must be a regular file: '' @ path_text d active)), fs)
        | Some (Regular _) \<Rightarrow>
            (case read_chain_id_sidecar E io fs active of
               None \<Rightarrow> (Inl (Io (''chain identity sidecar is invalid: '' @ path_text d active)), fs)
             | Some ident \<Rightarrow>
               map_err_step (\<lambda>e. Io (''persist rotated chain identity sidecar '' @ path_text d rotated @ '': '' @ e))
                 (write_chain_id_sidecar io uuid d rotated ident) fs)))"

section \<open>Segments\<close>

fun scan_entries :: "io_faults \<Rightarrow> string \<Rightarrow> dir \<Rightarrow> string + string list" where
  "scan_entries io name [] = Inr []"
| "scan_entries io name ((entry, n) # fs) =
    and_then (attempt io (AtEntry entry)) (\<lambda>_.
    and_then (if is_segment_name name entry
              then and_then (attempt io (AtFileType entry)) (\<lambda>_. Inr (n \<noteq> Special))
              else Inr False) (\<lambda>keep.
    and_then (scan_entries io name fs) (\<lambda>rest. Inr (if keep then entry # rest else rest))))"

definition rotated_logs :: "io_faults \<Rightarrow> log_path \<Rightarrow> dir \<Rightarrow> string + string list" where
  "rotated_logs io p fs =
    and_then (open_dir (lp_dir p)) (\<lambda>_.
    and_then (attempt io AtReadDir) (\<lambda>_.
    and_then (scan_entries io (lp_name p) fs) (\<lambda>candidates.
    Inr (sort_key (rotation_order (file_stem (lp_name p) @ ''-'')) candidates))))"

definition latest_rotated_log :: "io_faults \<Rightarrow> log_path \<Rightarrow> dir \<Rightarrow> string + string option" where
  "latest_rotated_log io p fs =
    and_then (rotated_logs io p fs) (\<lambda>ns. Inr (if ns = [] then None else Some (last ns)))"

end
