(* ===== verification/DecisionLog.thy ===== *)
theory DecisionLog
  imports LogFiles
begin

text \<open>
  The decision log, \<open>agentguard-core/src/decision/log.rs\<close>: opening with recovery, appending with
  rotation, reading back and verification of the chain across rotated segments.

  A world is the directory together with the log's in-memory state.  Besides the failures of the
  system calls, an operation takes the identifiers and the timestamp it draws.
\<close>

section \<open>State\<close>

definition parse_rotation :: "string \<Rightarrow> string + nat" where
  "parse_rotation s =
    (case parse_uint u64_max s of
       Some n \<Rightarrow> if n > 0 then Inr n else Inl ''must be a positive integer when set''
     | None \<Rightarrow> Inl ''must be a positive integer when set'')"

fun rotation_from_env :: "env_var \<Rightarrow> string + nat option" where
  "rotation_from_env (EnvValue v) = map_sum (\<lambda>e. e) Some (parse_rotation v)"
| "rotation_from_env EnvAbsent = Inr None"
| "rotation_from_env EnvNotUnicode = Inl ''must be valid Unicode''"

record decision_log =
  dl_path :: log_path
  dl_sidecar :: string
  dl_rotation :: "nat option"
  dl_open :: bool
  dl_chain :: "hash_chain option"

type_synonym world = "dir \<times> decision_log"

record draws =
  dw_timestamp :: string
  dw_chain_id :: string
  dw_tmp1 :: string
  dw_tmp2 :: string

definition on_dir :: "(dir \<Rightarrow> ('e + 'a) \<times> dir) \<Rightarrow> world \<Rightarrow> ('e + 'a) \<times> world" where
  "on_dir f w = (let (r, fs) = f (fst w) in (r, (fs, snd w)))"

definition close_file :: "world \<Rightarrow> world" where
  "close_file w = (fst w, (snd w)\<lparr>dl_open := False\<rparr>)"

section \<open>Verification\<close>

definition parse_hex32 :: "log_env \<Rightarrow> string \<Rightarrow> string core_result" where
  "parse_hex32 E s =
    and_then (map_err (\<lambda>e. Other (''hex: '' @ e)) (hex_decode (re_hex (le_rec E)) s)) (\<lambda>bytes.
    if length bytes \<noteq> HASH_LEN then
      Inl (Other (''expected '' @ show_nat HASH_LEN @ '' bytes, got '' @ show_nat (length bytes)))
    else Inr bytes)"

text \<open>The loop state: the chain identity seen so far, the expected previous hash, the record number.\<close>

type_synonym verify_state = "string option \<times> string \<times> nat"

definition verify_record ::
  "log_env \<Rightarrow> hash_chain \<Rightarrow> string \<Rightarrow> chained_record \<Rightarrow> verify_state \<Rightarrow> verify_state core_result" where
  "verify_record E chain path r st =
    (let (cid, expected_prev, n) = st in
     and_then (case cid of
         Some expected \<Rightarrow>
           if cr_chain_id r \<noteq> expected then
             Inl (Other (''chain id mismatch in '' @ path @ '': expected '' @ expected @ '', got '' @ cr_chain_id r))
           else Inr expected
       | None \<Rightarrow> Inr (cr_chain_id r)) (\<lambda>cid.
     let canonical = canonical_record E (cr_record r) in
     and_then (parse_hex32 E (cr_prev_hash r)) (\<lambda>prev.
     and_then (parse_hex32 E (cr_record_hash r)) (\<lambda>hash.
     if prev \<noteq> expected_prev then
       Inl (Other (''record '' @ show_nat n @ '': prev_hash mismatch: expected ''
         @ hex_encode (re_hex (le_rec E)) expected_prev @ '', got '' @ hex_encode (re_hex (le_rec E)) prev))
     else
       and_then (map_err (\<lambda>e. Other (''record '' @ show_nat n @ '': '' @ show_core_error e))
         (chain_verify (le_hmac E) (hex_encode (re_hex (le_rec E))) chain canonical prev hash)) (\<lambda>_.
       Inr (Some cid, hash, n + 1))))))"

definition verify_line ::
  "log_env \<Rightarrow> hash_chain \<Rightarrow> string \<Rightarrow> nat \<Rightarrow> string + string \<Rightarrow> verify_state \<Rightarrow> verify_state core_result" where
  "verify_line E chain path i l st =
    and_then (map_err Io l) (\<lambda>line.
    if trim line = [] then Inr st
    else and_then (map_err (\<lambda>e. JsonError (path @ '' line '' @ show_nat (i + 1) @ '': '' @ e)) (le_chained_from_str E line))
      (\<lambda>r. verify_record E chain path r st))"

fun verify_lines ::
  "log_env \<Rightarrow> hash_chain \<Rightarrow> string \<Rightarrow> nat \<Rightarrow> (string + string) list \<Rightarrow> verify_state \<Rightarrow> verify_state core_result" where
  "verify_lines E chain path i [] st = Inr st"
| "verify_lines E chain path i (l # ls) st =
    and_then (verify_line E chain path i l st) (verify_lines E chain path (i + 1) ls)"

fun verify_files ::
  "log_env \<Rightarrow> io_faults \<Rightarrow> hash_chain \<Rightarrow> string \<Rightarrow> dir \<Rightarrow> string list \<Rightarrow> verify_state \<Rightarrow> verify_state core_result" where
  "verify_files E io chain d fs [] st = Inr st"
| "verify_files E io chain d fs (name # names) st =
    and_then (map_err Io (open_existing_audit_file io d fs name)) (\<lambda>content.
    and_then (verify_lines E chain (path_text d name) 0 (text_lines content) st)
      (verify_files E io chain d fs names))"

definition verify_chain_paths ::
  "log_env \<Rightarrow> io_faults \<Rightarrow> string \<Rightarrow> string \<Rightarrow> dir \<Rightarrow> string list \<Rightarrow> string \<Rightarrow> string core_result" where
  "verify_chain_paths E io fresh d fs names root_key =
    and_then (verify_files E io (chain_new root_key) d fs names (None, zero_hash, 0)) (\<lambda>(cid, _, _).
    Inr (case cid of Some ident \<Rightarrow> ident | None \<Rightarrow> fresh))"

definition verify_chain ::
  "log_env \<Rightarrow> io_faults \<Rightarrow> string \<Rightarrow> log_path \<Rightarrow> dir \<Rightarrow> string \<Rightarrow> string core_result" where
  "verify_chain E io fresh p fs root_key =
    and_then (map_err Io (rotated_logs io p fs)) (\<lambda>names.
    verify_chain_paths E io fresh (lp_dir p) fs (names @ [lp_name p]) root_key)"

section \<open>Reading\<close>

fun read_lines ::
  "(string \<Rightarrow> nat \<Rightarrow> 'r core_result) \<Rightarrow> nat \<Rightarrow> (string + string) list \<Rightarrow> 'r list core_result" where
  "read_lines parse i [] = Inr []"
| "read_lines parse i (l # ls) =
    and_then (map_err Io l) (\<lambda>line.
    and_then (if trim line = [] then Inr [] else and_then (parse line i) (\<lambda>r. Inr [r])) (\<lambda>r.
    and_then (read_lines parse (i + 1) ls) (\<lambda>rs. Inr (r @ rs))))"

definition read_all_chained :: "log_env \<Rightarrow> io_faults \<Rightarrow> log_path \<Rightarrow> dir \<Rightarrow> chained_record list core_result" where
  "read_all_chained E io p fs =
    and_then (map_err Io (open_existing_audit_file io (lp_dir p) fs (lp_name p))) (\<lambda>content.
    read_lines (\<lambda>line i. map_err JsonError (le_chained_from_str E line)) 0 (text_lines content))"

definition parse_mixed :: "log_env \<Rightarrow> string \<Rightarrow> string \<Rightarrow> nat \<Rightarrow> decision_record core_result" where
  "parse_mixed E path line i =
    (case le_record_from_str E line of
       Inr r \<Rightarrow> Inr r
     | Inl plain_err \<Rightarrow>
       (case le_chained_from_str E line of
          Inr c \<Rightarrow> Inr (cr_record c)
        | Inl chained_err \<Rightarrow>
          Inl (JsonError (path @ '' line '' @ show_nat (i + 1) @ '': not a DecisionRecord ('' @ plain_err
            @ ''); also not a ChainedRecord ('' @ chained_err @ '')''))))"

fun read_all_mixed_paths ::
  "log_env \<Rightarrow> io_faults \<Rightarrow> string \<Rightarrow> dir \<Rightarrow> string list \<Rightarrow> decision_record list core_result" where
  "read_all_mixed_paths E io d fs [] = Inr []"
| "read_all_mixed_paths E io d fs (name # names) =
    and_then (map_err Io (open_existing_audit_file io d fs name)) (\<lambda>content.
    and_then (read_lines (parse_mixed E (path_text d name)) 0 (text_lines content)) (\<lambda>rs.
    and_then (read_all_mixed_paths E io d fs names) (\<lambda>rest. Inr (rs @ rest))))"

definition read_all :: "log_env \<Rightarrow> io_faults \<Rightarrow> log_path \<Rightarrow> dir \<Rightarrow> decision_record list core_result" where
  "read_all E io p fs =
    and_then (map_err Io (rotated_logs io p fs)) (\<lambda>names.
    read_all_mixed_paths E io (lp_dir p) fs (names @ [lp_name p]))"

section \<open>Opening\<close>

definition file_len :: "io_faults \<Rightarrow> dir \<Rightarrow> string \<Rightarrow> nat option" where
  "file_len io fs name =
    (case attempt io (AtMeta name) of
       Inl _ \<Rightarrow> None
     | Inr _ \<Rightarrow> if map_of fs name = None then None else Some (length (content_of fs name)))"

text \<open>The chained half of \<open>open_internal\<close>, after the active file is open.\<close>

definition open_chained ::
  "log_env \<Rightarrow> io_faults \<Rightarrow> draws \<Rightarrow> log_path \<Rightarrow> string \<Rightarrow> nat option \<Rightarrow> dir \<Rightarrow> decision_log core_result \<times> dir" where
  "open_chained E io dw p key rotation fs =
    (let d = lp_dir p; sidecar = chain_id_sidecar_name (lp_name p) in
     case and_then (map_err Io (rotated_logs io p fs)) (\<lambda>names.
          and_then (map_err (\<lambda>e. Other (''refusing to open invalid chained audit log '' @ path_text d (lp_name p)
              @ '': '' @ show_core_error e))
            (verify_chain_paths E io (dw_chain_id dw) d fs (names @ [lp_name p]) key)) (\<lambda>_.
          if (case file_len io fs (lp_name p) of Some n \<Rightarrow> n = 0 | None \<Rightarrow> True)
          then and_then (map_err Io (latest_rotated_log io p fs)) (\<lambda>latest.
            Inr (case latest of Some name \<Rightarrow> name | None \<Rightarrow> lp_name p))
          else Inr (lp_name p))) of
       Inl e \<Rightarrow> (Inl e, fs)
     | Inr head_name \<Rightarrow>
       (case load_head_from_file E io fs head_name (chain_new key) of
          (Inl e, _) \<Rightarrow>
            (Inl (Other (''refusing to open corrupt chained audit log '' @ path_text d head_name @ '': '' @ show_load_error e)), fs)
        | (Inr _, chain) \<Rightarrow>
          (let prior = (if head_name = lp_name p then sidecar else chain_id_sidecar_name head_name);
               opened = (\<lambda>chain. \<lparr>dl_path = p, dl_sidecar = sidecar, dl_rotation = rotation, dl_open = True,
                 dl_chain = Some chain\<rparr>)
           in case read_chain_id_sidecar E io fs prior of
             Some ident \<Rightarrow> (Inr (opened (adopt_id chain ident)), fs)
           | None \<Rightarrow>
             (let (ident, chain) = chain_id chain (dw_chain_id dw)
              in bind_step
                (map_err_step (\<lambda>e. Io (''persist audit chain id '' @ path_text d sidecar @ '': '' @ e))
                  (write_chain_id_sidecar io (dw_tmp1 dw) d sidecar ident))
                (\<lambda>_ fs. (Inr (opened chain), fs)) fs))))"

definition open_internal ::
  "log_env \<Rightarrow> io_faults \<Rightarrow> draws \<Rightarrow> log_path \<Rightarrow> string option \<Rightarrow> nat option \<Rightarrow> dir \<Rightarrow> decision_log core_result \<times> dir" where
  "open_internal E io dw p root_key rotation fs =
    (case attempt io AtCreateDir of
       Inl e \<Rightarrow> (Inl (Io e), fs)
     | Inr _ \<Rightarrow>
       bind_step (map_err_step Io (open_audit_file io (lp_dir p) (lp_name p))) (\<lambda>_ fs.
         case root_key of
           None \<Rightarrow>
             (Inr \<lparr>dl_path = p, dl_sidecar = chain_id_sidecar_name (lp_name p), dl_rotation = rotation,
                dl_open = True, dl_chain = None\<rparr>, fs)
         | Some key \<Rightarrow> open_chained E io dw p key rotation fs) fs)"

section \<open>Rotation\<close>

text \<open>The next free segment name; the search is bounded by the size of the directory.\<close>

definition rotation_target :: "string \<Rightarrow> string \<Rightarrow> dir \<Rightarrow> string option" where
  "rotation_target name ts fs =
    map_option (rotated_name name ts)
      (free_slot (Suc (length fs)) (\<lambda>k. map_of fs (rotated_name name ts k) \<noteq> None) 0)"

definition reopen_rotated ::
  "log_env \<Rightarrow> io_faults \<Rightarrow> string \<Rightarrow> string \<Rightarrow> world \<Rightarrow> unit core_result \<times> world" where
  "reopen_rotated E io uuid rotated w =
    (let p = dl_path (snd w); d = lp_dir p; name = lp_name p in
     bind_step (on_dir (copy_chain_id_sidecar E io uuid d (dl_sidecar (snd w)) (chain_id_sidecar_name rotated)
         (dl_chain (snd w) \<noteq> None))) (\<lambda>_.
     bind_step (on_dir (\<lambda>fs.
         case attempt io (AtRename rotated) of
           Inl e \<Rightarrow> (Inl (Io (''rotate '' @ path_text d name @ '' -> '' @ path_text d rotated @ '': '' @ e)), fs)
         | Inr _ \<Rightarrow>
           (case map_of fs name of
              None \<Rightarrow> (Inl (Io (''rotate '' @ path_text d name @ '' -> '' @ path_text d rotated @ '': '' @ not_found)), fs)
            | Some n \<Rightarrow> (Inr (), AList.update rotated n (AList.delete name fs))))) (\<lambda>_.
     on_dir (map_err_step Io (open_audit_file io d name)))) w)"

text \<open>
  The handle is closed first, and open again only when every step succeeded.  The head is read
  back from the rotated file even when the identity sidecar is unreadable.
\<close>

definition rotate_to ::
  "log_env \<Rightarrow> io_faults \<Rightarrow> draws \<Rightarrow> string \<Rightarrow> world \<Rightarrow> unit core_result \<times> world" where
  "rotate_to E io dw rotated w =
    bind_step (reopen_rotated E io (dw_tmp1 dw) rotated) (\<lambda>_ (fs, log).
      case dl_chain log of
        None \<Rightarrow> (Inr (), (fs, log\<lparr>dl_open := True\<rparr>))
      | Some chain \<Rightarrow>
        (case load_head_from_file E io fs rotated chain of
           (Inl e, chain) \<Rightarrow>
             (Inl (Io (''reload chain after rotate: '' @ show_load_error e)), (fs, log\<lparr>dl_chain := Some chain\<rparr>))
         | (Inr _, chain) \<Rightarrow>
           (let chain = (case read_chain_id_sidecar E io fs (chain_id_sidecar_name rotated) of
                Some ident \<Rightarrow> adopt_id chain ident
              | None \<Rightarrow> chain)
            in (Inr (), (fs, log\<lparr>dl_chain := Some chain, dl_open := True\<rparr>)))))
    (close_file w)"

text \<open>\<open>None\<close> when every name within the bound is taken.\<close>

definition rotate_inner :: "log_env \<Rightarrow> io_faults \<Rightarrow> draws \<Rightarrow> world \<Rightarrow> (unit core_result \<times> world) option" where
  "rotate_inner E io dw w =
    map_option (\<lambda>rotated. rotate_to E io dw rotated w)
      (rotation_target (lp_name (dl_path (snd w))) (dw_timestamp dw) (fst w))"

definition rotate_if_needed :: "log_env \<Rightarrow> io_faults \<Rightarrow> draws \<Rightarrow> world \<Rightarrow> (unit core_result \<times> world) option" where
  "rotate_if_needed E io dw w =
    (case dl_rotation (snd w) of
       None \<Rightarrow> Some (Inr (), w)
     | Some max_bytes \<Rightarrow>
       (let size = (case file_len io (fst w) (lp_name (dl_path (snd w))) of Some n \<Rightarrow> n | None \<Rightarrow> 0) in
        if size < max_bytes then Some (Inr (), w) else rotate_inner E io dw w))"

section \<open>Appending\<close>

definition unavailable :: core_error where
  "unavailable = Io ''audit log is unavailable after a prior storage failure''"

definition append_plain :: "log_env \<Rightarrow> io_faults \<Rightarrow> decision_record \<Rightarrow> world \<Rightarrow> unit core_result \<times> world" where
  "append_plain E io rec w =
    (case map_err JsonError (le_record_to_vec E rec) of
       Inl e \<Rightarrow> (Inl e, w)
     | Inr text \<Rightarrow>
       if \<not> dl_open (snd w) then (Inl unavailable, w)
       else case on_dir (write_line_durably io (lp_name (dl_path (snd w))) (text @ [CHR 0x0A])) w of
         (Inl e, w) \<Rightarrow> (Inl (Io e), close_file w)
       | (Inr _, w) \<Rightarrow> (Inr (), w))"

text \<open>The closure handed to \<open>try_append_with_io\<close>: the line of the chained record, written durably.\<close>

definition persist_chained ::
  "log_env \<Rightarrow> io_faults \<Rightarrow> string \<Rightarrow> string \<Rightarrow> decision_record \<Rightarrow> dir \<Rightarrow> string \<Rightarrow> string \<Rightarrow> (string + unit) \<times> dir" where
  "persist_chained E io name ident rec fs prev new_hash =
    (case le_chained_to_vec E \<lparr>cr_prev_hash = hex_encode (re_hex (le_rec E)) prev,
        cr_record_hash = hex_encode (re_hex (le_rec E)) new_hash, cr_chain_id = ident, cr_record = rec\<rparr> of
       Inl e \<Rightarrow> (Inl e, fs)
     | Inr text \<Rightarrow> write_line_durably io name (text @ [CHR 0x0A]) fs)"

text \<open>The sidecar is written only when it does not hold the identity of the chain.\<close>

definition ensure_sidecar ::
  "log_env \<Rightarrow> io_faults \<Rightarrow> string \<Rightarrow> string \<Rightarrow> string \<Rightarrow> string \<Rightarrow> dir \<Rightarrow> (string + unit) \<times> dir" where
  "ensure_sidecar E io uuid d sidecar ident fs =
    (if read_chain_id_sidecar E io fs sidecar \<noteq> Some ident then write_chain_id_sidecar io uuid d sidecar ident fs
     else (Inr (), fs))"

definition append_chained ::
  "log_env \<Rightarrow> io_faults \<Rightarrow> draws \<Rightarrow> decision_record \<Rightarrow> hash_chain \<Rightarrow> world \<Rightarrow> unit core_result \<times> world" where
  "append_chained E io dw rec chain w =
    (let (ident, chain) = chain_id chain (dw_chain_id dw);
         w = (fst w, (snd w)\<lparr>dl_chain := Some chain\<rparr>);
         d = lp_dir (dl_path (snd w)); sidecar = dl_sidecar (snd w); name = lp_name (dl_path (snd w));
         (r, w) = on_dir (ensure_sidecar E io (dw_tmp2 dw) d sidecar ident) w
     in case r of
       Inl e \<Rightarrow> (Inl (Io (''persist audit chain id '' @ path_text d sidecar @ '': '' @ e)), close_file w)
     | Inr _ \<Rightarrow>
       if \<not> dl_open (snd w) then (Inl unavailable, w)
       else
         (let fs = fst w;
              step = persist_chained E io name ident rec fs;
              (result, chain') = try_append_with_io (le_hmac E) chain (canonical_record E rec) (\<lambda>prev h. fst (step prev h));
              fs' = snd (step (hc_head chain) (chain_compute (le_hmac E) chain (hc_head chain) (canonical_record E rec)));
              w = (fs', (snd w)\<lparr>dl_chain := Some chain'\<rparr>)
          in case result of
            Inl e \<Rightarrow> (Inl (Io e), close_file w)
          | Inr _ \<Rightarrow> (Inr (), w)))"

definition log_append ::
  "log_env \<Rightarrow> io_faults \<Rightarrow> draws \<Rightarrow> decision_record \<Rightarrow> world \<Rightarrow> (unit core_result \<times> world) option" where
  "log_append E io dw rec w =
    map_option (\<lambda>(r, w).
      case r of
        Inl e \<Rightarrow> (Inl e, w)
      | Inr _ \<Rightarrow>
        (case dl_chain (snd w) of
           None \<Rightarrow> append_plain E io rec w
         | Some chain \<Rightarrow> append_chained E io dw rec chain w))
      (rotate_if_needed E io dw w)"

definition append_decision ::
  "log_env \<Rightarrow> io_faults \<Rightarrow> draws \<Rightarrow> string \<Rightarrow> int \<Rightarrow> decision \<Rightarrow> world \<Rightarrow> (unit core_result \<times> world) option" where
  "append_decision E io dw uuid now d w =
    log_append E io dw (from_decision (le_rec E) uuid now d None None) w"

text \<open>The public constructors, the forced rotation, and the identity, which is drawn when first asked for.\<close>

definition log_open :: "log_env \<Rightarrow> io_faults \<Rightarrow> draws \<Rightarrow> log_path \<Rightarrow> dir \<Rightarrow> decision_log core_result \<times> dir" where
  "log_open E io dw p = open_internal E io dw p None None"

definition open_with_chain ::
  "log_env \<Rightarrow> io_faults \<Rightarrow> draws \<Rightarrow> log_path \<Rightarrow> string \<Rightarrow> dir \<Rightarrow> decision_log core_result \<times> dir" where
  "open_with_chain E io dw p root_key = open_internal E io dw p (Some root_key) None"

definition open_with_rotation ::
  "log_env \<Rightarrow> io_faults \<Rightarrow> draws \<Rightarrow> log_path \<Rightarrow> string option \<Rightarrow> nat \<Rightarrow> dir \<Rightarrow> decision_log core_result \<times> dir" where
  "open_with_rotation E io dw p root_key max_bytes = open_internal E io dw p root_key (Some max_bytes)"

definition log_rotate :: "log_env \<Rightarrow> io_faults \<Rightarrow> draws \<Rightarrow> world \<Rightarrow> (unit core_result \<times> world) option" where
  "log_rotate = rotate_inner"

definition log_chain_id :: "string \<Rightarrow> decision_log \<Rightarrow> string option \<times> decision_log" where
  "log_chain_id fresh log =
    (case dl_chain log of
       None \<Rightarrow> (None, log)
     | Some chain \<Rightarrow> (let (ident, chain) = chain_id chain fresh in (Some ident, log\<lparr>dl_chain := Some chain\<rparr>)))"

definition is_healthy :: "decision_log \<Rightarrow> bool" where
  "is_healthy log = dl_open log"

end
