(* ===== verification/LogCorrect.thy ===== *)
theory LogCorrect
  imports DecisionLog
begin

text \<open>
  Correctness of the decision log.  The specification of a chained log is the list of records that
  were appended; \<open>chained_of\<close> links them into chained records, and the files of the log, rotated
  segments first, hold exactly the lines of these.
\<close>

section \<open>What the packages promise\<close>

definition line_text :: "log_env \<Rightarrow> chained_record \<Rightarrow> string" where
  "line_text E c = (case le_chained_to_vec E c of Inr t \<Rightarrow> t | Inl _ \<Rightarrow> [])"

definition uuid_ok :: "log_env \<Rightarrow> string \<Rightarrow> bool" where
  "uuid_ok E ident \<longleftrightarrow> le_parse_uuid E ident = Inr ident"

text \<open>
  The JSON text of a chained record is an object on one line that decodes to the record, both as a
  chained record and as a bare value; its plain record, if the text decodes as one, is the record.
\<close>

definition chained_codec_ok :: "log_env \<Rightarrow> chained_record \<Rightarrow> bool" where
  "chained_codec_ok E c \<longleftrightarrow>
    (\<exists>t v. le_chained_to_vec E c = Inr t \<and> le_chained_from_str E t = Inr c \<and>
      (case le_record_from_str E t of Inr r \<Rightarrow> r = cr_record c | Inl _ \<Rightarrow> True) \<and>
      le_value_from_slice E (t @ [CHR 0x0A]) = Inr v \<and>
      get_str v ''record_hash'' = Some (cr_record_hash c) \<and> get_str v ''chain_id'' = Some (cr_chain_id c) \<and>
      utf8_valid t \<and> CHR 0x0A \<notin> set t \<and> t \<noteq> [] \<and> hd t = CHR ''{'' \<and> last t = CHR ''}'')"

lemma chained_codec_okD:
  assumes "chained_codec_ok E c"
  shows "CHR 0x0A \<notin> set (line_text E c)" "utf8_valid (line_text E c)" "line_text E c \<noteq> []"
    "hd (line_text E c) = CHR ''{''" "last (line_text E c) = CHR ''}''"
    "le_chained_from_str E (line_text E c) = Inr c"
    "case le_record_from_str E (line_text E c) of Inr r \<Rightarrow> r = cr_record c | Inl _ \<Rightarrow> True"
    "\<exists>v. le_value_from_slice E (line_text E c @ [CHR 0x0A]) = Inr v \<and>
      get_str v ''record_hash'' = Some (cr_record_hash c) \<and> get_str v ''chain_id'' = Some (cr_chain_id c)"
proof -
  obtain t v where t: "le_chained_to_vec E c = Inr t" "le_chained_from_str E t = Inr c"
      "case le_record_from_str E t of Inr r \<Rightarrow> r = cr_record c | Inl _ \<Rightarrow> True"
      "le_value_from_slice E (t @ [CHR 0x0A]) = Inr v" "get_str v ''record_hash'' = Some (cr_record_hash c)"
      "get_str v ''chain_id'' = Some (cr_chain_id c)" "utf8_valid t" "CHR 0x0A \<notin> set t" "t \<noteq> []" "hd t = CHR ''{''"
      "last t = CHR ''}''"
    using assms unfolding chained_codec_ok_def by blast
  have l: "line_text E c = t" by (simp add: line_text_def t(1))
  show "CHR 0x0A \<notin> set (line_text E c)" "utf8_valid (line_text E c)" "line_text E c \<noteq> []"
    "hd (line_text E c) = CHR ''{''" "last (line_text E c) = CHR ''}''"
    "le_chained_from_str E (line_text E c) = Inr c"
    "case le_record_from_str E (line_text E c) of Inr r \<Rightarrow> r = cr_record c | Inl _ \<Rightarrow> True"
    unfolding l by (rule t)+
  show "\<exists>v. le_value_from_slice E (line_text E c @ [CHR 0x0A]) = Inr v \<and>
      get_str v ''record_hash'' = Some (cr_record_hash c) \<and> get_str v ''chain_id'' = Some (cr_chain_id c)"
    unfolding l using t(4-6) by blast
qed

definition log_env_ok :: "log_env \<Rightarrow> decision_record set \<Rightarrow> bool" where
  "log_env_ok E R \<longleftrightarrow> hex_codec_ok (re_hex (le_rec E)) \<and> (\<forall>k m. length (le_hmac E k m) = HASH_LEN) \<and>
    (\<forall>s ident. le_parse_uuid E s = Inr ident \<longrightarrow> uuid_ok E ident) \<and>
    (\<forall>c. cr_record c \<in> R \<and> uuid_ok E (cr_chain_id c) \<longrightarrow> chained_codec_ok E c)"

section \<open>The specification\<close>

definition next_hash :: "log_env \<Rightarrow> string \<Rightarrow> string \<Rightarrow> decision_record \<Rightarrow> string" where
  "next_hash E key prev r = le_hmac E key (prev @ canonical_record E r)"

definition link :: "log_env \<Rightarrow> string \<Rightarrow> string \<Rightarrow> string \<Rightarrow> decision_record \<Rightarrow> chained_record" where
  "link E key ident prev r =
    \<lparr>cr_prev_hash = hex_encode (re_hex (le_rec E)) prev,
     cr_record_hash = hex_encode (re_hex (le_rec E)) (next_hash E key prev r),
     cr_chain_id = ident, cr_record = r\<rparr>"

fun chained_of :: "log_env \<Rightarrow> string \<Rightarrow> string \<Rightarrow> string \<Rightarrow> decision_record list \<Rightarrow> chained_record list" where
  "chained_of E key ident prev [] = []"
| "chained_of E key ident prev (r # rs) = link E key ident prev r # chained_of E key ident (next_hash E key prev r) rs"

definition head_of :: "log_env \<Rightarrow> string \<Rightarrow> string \<Rightarrow> decision_record list \<Rightarrow> string" where
  "head_of E key prev rs = fold (\<lambda>r h. next_hash E key h r) rs prev"

definition log_lines :: "log_env \<Rightarrow> chained_record list \<Rightarrow> string" where
  "log_lines E cs = concat (map (\<lambda>c. line_text E c @ [CHR 0x0A]) cs)"

definition log_text :: "log_env \<Rightarrow> string \<Rightarrow> string \<Rightarrow> decision_record list \<Rightarrow> string" where
  "log_text E key ident rs = log_lines E (chained_of E key ident zero_hash rs)"

lemma head_of_simps [simp]:
  "head_of E key prev [] = prev"
  "head_of E key prev (r # rs) = head_of E key (next_hash E key prev r) rs"
  by (simp_all add: head_of_def)

lemma chained_of_append [simp]:
  "chained_of E key ident prev (rs @ qs) =
    chained_of E key ident prev rs @ chained_of E key ident (head_of E key prev rs) qs"
  by (induction rs arbitrary: prev) auto

lemma head_of_append [simp]: "head_of E key prev (rs @ qs) = head_of E key (head_of E key prev rs) qs"
  by (simp add: head_of_def)

lemma log_lines_append [simp]: "log_lines E (cs @ ds) = log_lines E cs @ log_lines E ds"
  by (simp add: log_lines_def)

lemma chained_of_records: "map cr_record (chained_of E key ident prev rs) = rs"
  by (induction rs arbitrary: prev) (auto simp: link_def)

lemma chained_of_ids: "c \<in> set (chained_of E key ident prev rs) \<Longrightarrow> cr_chain_id c = ident \<and> cr_record c \<in> set rs"
  by (induction rs arbitrary: prev) (auto simp: link_def)

lemma chained_of_codec:
  "log_env_ok E R \<Longrightarrow> set rs \<subseteq> R \<Longrightarrow> uuid_ok E ident \<Longrightarrow> c \<in> set (chained_of E key ident prev rs) \<Longrightarrow>
    chained_codec_ok E c"
  using chained_of_ids [of c E key ident prev rs] by (auto simp: log_env_ok_def)

section \<open>Lines of a text\<close>

lemma trim_braces:
  assumes "t \<noteq> []" "hd t = CHR ''{''" "last t = CHR ''}''"
  shows "trim t = t"
proof -
  obtain r where r: "t = CHR ''{'' # r" using assms by (cases t) auto
  obtain q where q: "rev t = CHR ''}'' # q" using assms by (cases t rule: rev_cases) auto
  have "trim_start t = t" by (simp add: trim_start_def r white_space_seqs_def)
  moreover have "trim_end t = t"
  proof -
    have "strip_all (length t) (map rev white_space_seqs) (rev t) = rev t"
      unfolding q by (cases t) (simp_all add: white_space_seqs_def)
    then show ?thesis by (simp add: trim_end_def)
  qed
  ultimately show ?thesis by (simp add: trim_def)
qed

lemma split_on_lines:
  "\<forall>t \<in> set ts. c \<notin> set t \<Longrightarrow> split_on c (concat (map (\<lambda>t. t @ [c]) ts)) = ts @ [[]]"
  by (induction ts) (simp_all add: split_on_append_sep)

lemma text_lines_lines:
  assumes "\<forall>t \<in> set ts. CHR 0x0A \<notin> set t \<and> utf8_valid t \<and> t \<noteq> [] \<and> last t = CHR ''}''"
  shows "text_lines (concat (map (\<lambda>t. t @ [CHR 0x0A]) ts)) = map Inr ts"
proof -
  have "\<forall>t \<in> set ts. strip_cr t = t" using assms by (auto simp: strip_cr_def)
  then show ?thesis using assms split_on_lines [of ts "CHR 0x0A"] by (simp add: text_lines_def Let_def)
qed

definition closed_text :: "string \<Rightarrow> bool" where
  "closed_text s \<longleftrightarrow> s = [] \<or> last s = CHR 0x0A"

lemma split_on_snoc_append: "split_on c (xs @ c # ys) = split_on c xs @ split_on c ys"
proof (induction xs)
  case (Cons x xs)
  then show ?case by (cases "split_on c xs") (auto split: list.splits)
qed simp

lemma text_lines_append:
  assumes "closed_text a"
  shows "text_lines (a @ b) = text_lines a @ text_lines b"
proof (cases "a = []")
  case True
  then show ?thesis by (simp add: text_lines_def)
next
  case False
  then obtain a' where a: "a = a' @ [CHR 0x0A]" using assms by (cases a rule: rev_cases) (auto simp: closed_text_def)
  have s: "split_on CHR 0x0A a = split_on CHR 0x0A a' @ [[]]" "split_on CHR 0x0A (a @ b) = split_on CHR 0x0A a' @ split_on CHR 0x0A b"
    using split_on_snoc_append [of "CHR 0x0A" a' "[]"] split_on_snoc_append [of "CHR 0x0A" a' b] by (simp_all add: a)
  show ?thesis unfolding text_lines_def Let_def s by (simp add: butlast_append)
qed

lemma text_lines_concat:
  "list_all closed_text as \<Longrightarrow> text_lines (concat as) = concat (map text_lines as)"
proof (induction as)
  case (Cons a as)
  then show ?case by (simp add: text_lines_append)
qed (simp add: text_lines_def)

lemma closed_text_concat: "list_all closed_text as \<Longrightarrow> closed_text (concat as)"
proof (induction as rule: rev_induct)
  case (snoc a as)
  then show ?case by (cases "a = []") (simp_all add: closed_text_def)
qed (simp add: closed_text_def)

lemma closed_log_lines: "closed_text (log_lines E cs)"
  by (cases cs rule: rev_cases) (simp_all add: closed_text_def log_lines_def)

lemma text_lines_log_lines:
  assumes "\<forall>c \<in> set cs. chained_codec_ok E c"
  shows "text_lines (log_lines E cs) = map (\<lambda>c. Inr (line_text E c)) cs"
proof -
  have "\<forall>t \<in> set (map (line_text E) cs). CHR 0x0A \<notin> set t \<and> utf8_valid t \<and> t \<noteq> [] \<and> last t = CHR ''}''"
    using assms chained_codec_okD by auto
  from text_lines_lines [OF this] show ?thesis by (simp add: log_lines_def comp_def)
qed

section \<open>A linked log verifies\<close>

lemma verify_record_path:
  "verify_record E chain path r st = Inr st' \<longleftrightarrow> verify_record E chain path' r st = Inr st'"
  unfolding verify_record_def by (auto simp: result_simps split: prod.splits option.splits)

lemma verify_line_path:
  "verify_line E chain path i l st = Inr st' \<longleftrightarrow> verify_line E chain path' i' l st = Inr st'"
proof (cases l)
  case (Inr line)
  have "(\<exists>r. le_chained_from_str E line = Inr r \<and> verify_record E chain path r st = Inr st') \<longleftrightarrow>
      (\<exists>r. le_chained_from_str E line = Inr r \<and> verify_record E chain path' r st = Inr st')"
    using verify_record_path by blast
  then show ?thesis using Inr by (cases "trim line = []") (simp_all add: verify_line_def result_simps)
qed (simp add: verify_line_def)

lemma verify_lines_path:
  "verify_lines E chain path i ls st = Inr st' \<longleftrightarrow> verify_lines E chain path' i' ls st = Inr st'"
proof (induction ls arbitrary: i i' st)
  case (Cons l ls)
  show ?case unfolding verify_lines.simps and_then_Inr
    using verify_line_path [of E chain path i l st _ path' i'] Cons.IH by blast
qed simp

lemma verify_lines_append:
  "verify_lines E chain path i (ls @ ms) st = Inr st' \<longleftrightarrow>
    (\<exists>st1. verify_lines E chain path i ls st = Inr st1 \<and> verify_lines E chain path 0 ms st1 = Inr st')"
proof (induction ls arbitrary: i st)
  case Nil
  then show ?case using verify_lines_path [of E chain path i ms st st' path 0] by simp
next
  case (Cons l ls)
  show ?case unfolding append_Cons verify_lines.simps and_then_Inr Cons.IH by blast
qed

lemma parse_hex32_encode:
  "hex_codec_ok (re_hex (le_rec E)) \<Longrightarrow> length b = HASH_LEN \<Longrightarrow> parse_hex32 E (hex_encode (re_hex (le_rec E)) b) = Inr b"
  by (simp add: parse_hex32_def hex_codec_ok_def)

lemma verify_linked_record:
  assumes "log_env_ok E R" "length prev = HASH_LEN" "hc_root chain = key" "cid = None \<or> cid = Some ident"
  shows "verify_record E chain path (link E key ident prev r) (cid, prev, n)
    = Inr (Some ident, next_hash E key prev r, n + 1)"
proof -
  have h: "hex_codec_ok (re_hex (le_rec E))" "length (next_hash E key prev r) = HASH_LEN"
    using assms(1) by (simp_all add: log_env_ok_def next_hash_def)
  show ?thesis using assms(3,4) parse_hex32_encode [OF h(1) assms(2)] parse_hex32_encode [OF h(1) h(2)]
    by (auto simp: verify_record_def link_def chain_verify_def next_hash_def)
qed

lemma length_next_hash: "log_env_ok E R \<Longrightarrow> length (next_hash E key prev r) = HASH_LEN"
  by (simp add: log_env_ok_def next_hash_def)

lemma verify_linked_lines:
  assumes ok: "log_env_ok E R" and id: "uuid_ok E ident" and root: "hc_root chain = key"
  shows "set rs \<subseteq> R \<Longrightarrow> length prev = HASH_LEN \<Longrightarrow> cid = None \<or> cid = Some ident \<Longrightarrow>
    verify_lines E chain path i (map (\<lambda>c. Inr (line_text E c)) (chained_of E key ident prev rs)) (cid, prev, n)
      = Inr (if rs = [] then cid else Some ident, head_of E key prev rs, n + length rs)"
proof (induction rs arbitrary: prev cid n i)
  case (Cons r rs)
  have "chained_codec_ok E (link E key ident prev r)"
    using chained_of_codec [OF ok Cons.prems(1) id, of "link E key ident prev r" key prev] by simp
  note k = chained_codec_okD [OF this]
  then have t: "le_chained_from_str E (line_text E (link E key ident prev r)) = Inr (link E key ident prev r)"
      "trim (line_text E (link E key ident prev r)) \<noteq> []"
    using trim_braces [OF k(3,4,5)] by simp_all
  have ih: "verify_lines E chain path (i + 1) (map (\<lambda>c. Inr (line_text E c)) (chained_of E key ident (next_hash E key prev r) rs))
      (Some ident, next_hash E key prev r, n + 1)
    = Inr (if rs = [] then Some ident else Some ident, head_of E key (next_hash E key prev r) rs, (n + 1) + length rs)"
    using Cons.prems(1) length_next_hash [OF ok] by (intro Cons.IH) auto
  show ?case
    using ih t verify_linked_record [OF ok Cons.prems(2) root Cons.prems(3), of path r n]
    by (simp add: verify_line_def)
qed simp

lemma verify_files_text:
  assumes "\<forall>m \<in> set names. open_existing_audit_file io d fs m = Inr (content_of fs m) \<and> closed_text (content_of fs m)"
    and "verify_lines E chain path 0 (text_lines (concat (map (content_of fs) names))) st = Inr st'"
  shows "verify_files E io chain d fs names st = Inr st'"
  using assms
proof (induction names arbitrary: st)
  case Nil
  then show ?case by (simp add: text_lines_def)
next
  case (Cons m names)
  have "text_lines (concat (map (content_of fs) (m # names)))
      = text_lines (content_of fs m) @ text_lines (concat (map (content_of fs) names))"
    using Cons.prems(1) by (simp add: text_lines_append)
  then obtain st1 where s: "verify_lines E chain path 0 (text_lines (content_of fs m)) st = Inr st1"
      "verify_lines E chain path 0 (text_lines (concat (map (content_of fs) names))) st1 = Inr st'"
    using Cons.prems(2) by (simp only: verify_lines_append) blast
  have "verify_lines E chain (path_text d m) 0 (text_lines (content_of fs m)) st = Inr st1"
    using s(1) verify_lines_path by blast
  then show ?case using Cons.IH [OF _ s(2)] Cons.prems(1) by simp
qed

section \<open>The directory of a log\<close>

definition segment_names :: "string \<Rightarrow> dir \<Rightarrow> string list" where
  "segment_names name fs =
    sort_key (rotation_order (file_stem name @ ''-''))
      (map fst (filter (\<lambda>(e, n). is_segment_name name e \<and> n \<noteq> Special) fs))"

definition disk_names :: "string \<Rightarrow> dir \<Rightarrow> string list" where
  "disk_names name fs = segment_names name fs @ [name]"

text \<open>What the files of a log hold, the oldest segment first.\<close>

definition disk_text :: "string \<Rightarrow> dir \<Rightarrow> string" where
  "disk_text name fs = concat (map (content_of fs) (disk_names name fs))"

definition log_name_ok :: "string \<Rightarrow> bool" where
  "log_name_ok name \<longleftrightarrow> name \<noteq> [] \<and> hd name \<noteq> CHR ''.''"

text \<open>Segments are regular files named by the log, up to a timestamp and with no counter left out.\<close>

definition dir_ok :: "string \<Rightarrow> string \<Rightarrow> dir \<Rightarrow> bool" where
  "dir_ok name latest fs \<longleftrightarrow> distinct_keys fs \<and> map_of fs name \<noteq> Some Special \<and>
    (\<forall>e n. map_of fs e = Some n \<longrightarrow> is_segment_name name e \<longrightarrow> n \<noteq> Special \<and>
      (\<exists>ts k. e = rotated_name name ts k \<and> timestamp_ok ts \<and> k \<le> u32_max \<and> ts \<le> latest \<and>
        (\<forall>j < k. map_of fs (rotated_name name ts j) \<noteq> None)))"

lemma rotated_logs_names: "rotated_logs io p fs = Inr ns \<Longrightarrow> ns = segment_names (lp_name p) fs"
proof -
  have "scan_entries io name fs = Inr ms \<Longrightarrow>
      ms = map fst (filter (\<lambda>(e, n). is_segment_name name e \<and> n \<noteq> Special) fs)" for name ms
    by (induction io name fs arbitrary: ms rule: scan_entries.induct) (auto simp: result_simps split: if_splits)
  then show "rotated_logs io p fs = Inr ns \<Longrightarrow> ns = segment_names (lp_name p) fs"
    by (auto simp: rotated_logs_def segment_names_def result_simps)
qed

lemma content_of_set [simp]: "content_of (set_content m c fs) e = (if e = m then c else content_of fs e)"
  by (simp add: content_of_def set_content_def map_of_update)

lemma segment_names_update:
  "\<not> is_segment_name name m \<Longrightarrow> segment_names name (AList.update m x fs) = segment_names name fs"
proof -
  assume "\<not> is_segment_name name m"
  then have "map fst (filter (\<lambda>(e, n). is_segment_name name e \<and> n \<noteq> Special) (AList.update m x fs))
      = map fst (filter (\<lambda>(e, n). is_segment_name name e \<and> n \<noteq> Special) fs)"
    by (induction fs) auto
  then show ?thesis by (simp add: segment_names_def)
qed

lemma segment_names_delete:
  "\<not> is_segment_name name m \<Longrightarrow> segment_names name (AList.delete m fs) = segment_names name fs"
proof -
  assume "\<not> is_segment_name name m"
  then have "filter (\<lambda>(e, n). is_segment_name name e \<and> n \<noteq> Special) (AList.delete m fs)
      = filter (\<lambda>(e, n). is_segment_name name e \<and> n \<noteq> Special) fs"
    by (induction fs) auto
  then show ?thesis by (simp add: segment_names_def)
qed

lemma segment_names_mem: "e \<in> set (segment_names name fs) \<Longrightarrow> is_segment_name name e \<and> e \<in> fst ` set fs"
  by (auto simp: segment_names_def)

lemma nonsegment_set_content:
  assumes "dir_ok name latest fs" "\<not> is_segment_name name m"
  shows "dir_ok name latest (set_content m c fs) \<and> segment_names name (set_content m c fs) = segment_names name fs"
proof
  show "segment_names name (set_content m c fs) = segment_names name fs"
    using segment_names_update [OF assms(2)] by (simp add: set_content_def)
  show "dir_ok name latest (set_content m c fs)"
    unfolding dir_ok_def
  proof (intro conjI allI impI)
    show "distinct_keys (set_content m c fs)"
      using assms(1) by (simp add: dir_ok_def set_content_def distinct_keys_update)
    show "map_of (set_content m c fs) name \<noteq> Some Special"
      using assms(1) by (simp add: dir_ok_def set_content_def map_of_update)
    fix e n assume e: "map_of (set_content m c fs) e = Some n" "is_segment_name name e"
    then have en: "map_of fs e = Some n" using assms(2) by (auto simp: set_content_def map_of_update split: if_splits)
    then show "n \<noteq> Special" using assms(1) e(2) unfolding dir_ok_def by blast
    obtain ts k where "e = rotated_name name ts k" "timestamp_ok ts" "k \<le> u32_max" "ts \<le> latest"
        "\<forall>j < k. map_of fs (rotated_name name ts j) \<noteq> None"
      using assms(1) en e(2) unfolding dir_ok_def by blast
    then show "\<exists>ts k. e = rotated_name name ts k \<and> timestamp_ok ts \<and> k \<le> u32_max \<and> ts \<le> latest \<and>
        (\<forall>j < k. map_of (set_content m c fs) (rotated_name name ts j) \<noteq> None)"
      by (intro exI [of _ ts] exI [of _ k]) (auto simp: set_content_def map_of_update)
  qed
qed

text \<open>Files whose names start with a dot, the sidecars, are not part of the log.\<close>

lemma dot_set_content:
  assumes "log_name_ok name" "dir_ok name latest fs"
  shows "dir_ok name latest (set_content (CHR ''.'' # m) c fs) \<and>
    segment_names name (set_content (CHR ''.'' # m) c fs) = segment_names name fs \<and>
    disk_text name (set_content (CHR ''.'' # m) c fs) = disk_text name fs"
proof -
  have ns: "\<not> is_segment_name name (CHR ''.'' # m)" and nn: "name \<noteq> CHR ''.'' # m"
    using dot_not_segment [of name _ m] assms(1) by (auto simp: log_name_ok_def)
  note k = nonsegment_set_content [OF assms(2) ns, of c]
  have "content_of (set_content (CHR ''.'' # m) c fs) e = content_of fs e" if "e \<in> set (disk_names name fs)" for e
    using that ns nn segment_names_mem by (auto simp: disk_names_def)
  then have "disk_text name (set_content (CHR ''.'' # m) c fs) = disk_text name fs"
    using k by (simp add: disk_text_def disk_names_def cong: map_cong)
  then show ?thesis using k by blast
qed

text \<open>A write to the active file appends to the text of the log.\<close>

lemmas active_set_content = nonsegment_set_content [OF _ active_not_segment]

lemma segment_names_no_active: "name \<notin> set (segment_names name fs)"
  using segment_names_mem active_not_segment by blast

lemma segment_contents_cong:
  "\<forall>e. e \<noteq> name \<longrightarrow> content_of fs' e = content_of fs e \<Longrightarrow>
    map (content_of fs') (segment_names name fs) = map (content_of fs) (segment_names name fs)"
  using segment_names_no_active [of name fs] by (intro map_cong) auto

lemma active_text:
  assumes "dir_ok name latest fs"
  shows "disk_text name (set_content name (content_of fs name @ t) fs) = disk_text name fs @ t"
proof -
  let ?fs = "set_content name (content_of fs name @ t) fs"
  have "map (content_of ?fs) (segment_names name fs) = map (content_of fs) (segment_names name fs)"
    by (rule segment_contents_cong) simp
  moreover have "segment_names name ?fs = segment_names name fs" using active_set_content [OF assms] by blast
  ultimately show ?thesis by (simp add: disk_text_def disk_names_def del: map_eq_conv)
qed

text \<open>Rotation: the new segment comes last, and the text of the log stays.\<close>

lemma rotated_last:
  assumes ok: "dir_ok name latest fs" and ts: "latest \<le> ts" "timestamp_ok ts" "k \<le> u32_max"
    and free: "map_of fs (rotated_name name ts k) = None" and e: "map_of fs e = Some n" "is_segment_name name e"
  shows "rotation_order (file_stem name @ ''-'') e \<le> rotation_order (file_stem name @ ''-'') (rotated_name name ts k)"
proof -
  obtain ts' k' where e': "e = rotated_name name ts' k'" "timestamp_ok ts'" "k' \<le> u32_max" "ts' \<le> latest"
      "\<forall>j < k'. map_of fs (rotated_name name ts' j) \<noteq> None"
    using ok e unfolding dir_ok_def by blast
  have "k' < k" if "ts' = ts"
  proof (rule ccontr)
    assume "\<not> k' < k"
    moreover have "k \<noteq> k'" using free e e'(1) that by auto
    ultimately have "k < k'" by simp
    then show False using e'(5) [rule_format, of k] free that by simp
  qed
  then have "(ts', k') \<le> (ts, k)" using e'(4) ts(1) by (cases "ts' = ts") (auto simp: less_eq_prod_def)
  then show ?thesis by (simp add: e'(1) order_rotated e'(2,3) ts)
qed

lemma rotate_dir:
  assumes ok: "dir_ok name latest fs" and ts: "latest \<le> ts" "timestamp_ok ts" "k \<le> u32_max"
    and free: "map_of fs (rotated_name name ts k) = None" "\<forall>j < k. map_of fs (rotated_name name ts j) \<noteq> None"
    and n: "map_of fs name = Some n"
  defines "fs' \<equiv> AList.update (rotated_name name ts k) n (AList.delete name fs)"
  shows "dir_ok name ts fs' \<and> segment_names name fs' = segment_names name fs @ [rotated_name name ts k] \<and>
    disk_text name fs' = disk_text name fs \<and> map_of fs' name = None \<and>
    map (content_of fs') (segment_names name fs') = map (content_of fs) (disk_names name fs)"
proof -
  let ?r = "rotated_name name ts k"
  have rn: "?r \<noteq> name" "is_segment_name name ?r" using rotated_name_neq_active is_segment_rotated ts by auto
  have nS: "n \<noteq> Special" using ok n by (auto simp: dir_ok_def)
  have m: "map_of fs' e = (if e = ?r then Some n else if e = name then None else map_of fs e)" for e
    by (simp add: fs'_def map_of_update map_of_delete)
  have fresh: "?r \<notin> fst ` set (AList.delete name fs)"
    using free(1) by (simp add: fst_set_delete map_of_eq_None_iff)
  let ?P = "\<lambda>(e, n). is_segment_name name e \<and> n \<noteq> Special"
  have "\<forall>e \<in> set (map fst (filter ?P (AList.delete name fs))).
      rotation_order (file_stem name @ ''-'') e \<le> rotation_order (file_stem name @ ''-'') ?r"
  proof
    fix e assume "e \<in> set (map fst (filter ?P (AList.delete name fs)))"
    then obtain x where x: "(e, x) \<in> set (AList.delete name fs)" "is_segment_name name e" by auto
    have "map_of (AList.delete name fs) e = Some x"
      using x(1) ok by (intro map_of_is_SomeI) (simp_all add: dir_ok_def distinct_keys_delete)
    then have "map_of fs e = Some x" by (simp add: map_of_delete split: if_splits)
    then show "rotation_order (file_stem name @ ''-'') e \<le> rotation_order (file_stem name @ ''-'') ?r"
      using rotated_last [OF ok ts free(1) _ x(2)] by blast
  qed
  from sort_key_snoc [OF this] have "segment_names name fs' = segment_names name (AList.delete name fs) @ [?r]"
    using rn(2) nS by (simp add: segment_names_def fs'_def update_fresh [OF fresh])
  then have seg: "segment_names name fs' = segment_names name fs @ [?r]"
    using segment_names_delete [OF active_not_segment] by simp
  have c: "content_of fs' e = content_of fs e" if "e \<in> set (segment_names name fs)" for e
  proof -
    have "?r \<notin> fst ` set fs" using free(1) by (simp only: map_of_eq_None_iff not_False_eq_True)
    then have "e \<noteq> ?r" "e \<noteq> name" using segment_names_mem [OF that] active_not_segment [of name] by blast+
    then show ?thesis by (simp add: content_of_def m)
  qed
  have mc: "map (content_of fs') (segment_names name fs') = map (content_of fs) (disk_names name fs)"
    using c by (simp add: seg disk_names_def content_of_def m n)
  moreover have "disk_text name fs' = disk_text name fs"
    using mc rn(1) by (auto simp: disk_text_def disk_names_def content_of_def m)
  moreover have "dir_ok name ts fs'"
    unfolding dir_ok_def
  proof (intro conjI allI impI)
    show "distinct_keys fs'" using ok by (simp add: dir_ok_def fs'_def distinct_keys_update distinct_keys_delete)
    show "map_of fs' name \<noteq> Some Special" using rn by (auto simp: m)
    fix e x assume e: "map_of fs' e = Some x" "is_segment_name name e"
    have "e = ?r \<and> x = n \<or> map_of fs e = Some x" using e(1) by (simp add: m split: if_splits)
    then show "x \<noteq> Special" using nS ok e(2) unfolding dir_ok_def by blast
    show "\<exists>ts' k'. e = rotated_name name ts' k' \<and> timestamp_ok ts' \<and> k' \<le> u32_max \<and> ts' \<le> ts \<and>
        (\<forall>j < k'. map_of fs' (rotated_name name ts' j) \<noteq> None)"
    proof (cases "e = ?r")
      case True
      have "\<forall>j < k. map_of fs' (rotated_name name ts j) \<noteq> None"
        using free(2) rotated_name_neq_active [OF ts(2)] ts(3) by (auto simp: m)
      then show ?thesis using True ts by blast
    next
      case False
      then have "map_of fs e = Some x" using e(1) by (simp add: m split: if_splits)
      then obtain ts' k' where e': "e = rotated_name name ts' k'" "timestamp_ok ts'" "k' \<le> u32_max" "ts' \<le> latest"
          "\<forall>j < k'. map_of fs (rotated_name name ts' j) \<noteq> None"
        using ok e(2) unfolding dir_ok_def by blast
      have "\<forall>j < k'. map_of fs' (rotated_name name ts' j) \<noteq> None"
        using e'(3,5) rotated_name_neq_active [OF e'(2)] by (auto simp: m)
      then show ?thesis using e'(1-3) order_trans [OF e'(4) ts(1)] by blast
    qed
  qed
  ultimately show ?thesis using seg rn by (simp add: m)
qed

section \<open>Steps on the directory\<close>

lemma write_line_cases:
  assumes "write_line_durably io name line fs = (r, fs')"
  shows "(r = Inr () \<longrightarrow> fs' = set_content name (content_of fs name @ line) fs) \<and>
    (fs' = fs \<or> (\<exists>t. fs' = set_content name (content_of fs name @ t) fs))"
proof -
  have twice: "set_content name a (set_content name b fs) = set_content name a fs" for a b
    unfolding set_content_def by (induction fs) auto
  have self: "set_content name (content_of fs name) fs = set_content name (content_of fs name @ []) fs" by simp
  have "(r = Inr () \<longrightarrow> fs' = set_content name (content_of fs name @ line) fs) \<and>
      (fs' = fs \<or> fs' = set_content name (content_of fs name) fs \<or> (\<exists>t. fs' = set_content name (content_of fs name @ t) fs))"
    using assms unfolding write_line_durably_def Let_def attempt_def
    by (auto simp: twice split: option.splits)
  then show ?thesis using self by metis
qed

lemma sidecar_write_cases:
  assumes "write_chain_id_sidecar io uuid d (CHR ''.'' # m) ident fs = (r, fs')"
  shows "fs' = fs \<or> (\<exists>x c. fs' = set_content (CHR ''.'' # x) c fs)"
  using assms unfolding write_chain_id_sidecar_def Let_def
  by (auto split: sum.splits if_splits)

lemma sidecar_name_dot: "\<exists>m. chain_id_sidecar_name name = CHR ''.'' # m"
  by (simp add: chain_id_sidecar_name_def)

lemma sidecar_copy_cases:
  assumes "copy_chain_id_sidecar E io uuid d active (CHR ''.'' # m) required fs = (r, fs')"
  shows "fs' = fs \<or> (\<exists>x c. fs' = set_content (CHR ''.'' # x) c fs)"
  using assms sidecar_write_cases [of io uuid d m _ fs] unfolding copy_chain_id_sidecar_def map_err_step_def Let_def
  by (fastforce split: sum.splits option.splits node.splits if_splits prod.splits)

lemma open_audit_cases:
  assumes "open_audit_file io d name fs = (r, fs')"
  shows "(fs' = fs \<or> map_of fs name = None \<and> fs' = set_content name (content_of fs name) fs) \<and>
    (r = Inr () \<longrightarrow> map_of fs' name \<noteq> None)"
  using assms unfolding open_audit_file_def Let_def set_content_def
  by (auto simp: content_of_def map_of_update split: sum.splits if_splits)

text \<open>A directory in which the text of the log only grows.\<close>

definition grows :: "string \<Rightarrow> string \<Rightarrow> dir \<Rightarrow> dir \<Rightarrow> bool" where
  "grows name latest fs fs' \<longleftrightarrow> dir_ok name latest fs' \<and> (\<exists>t. disk_text name fs' = disk_text name fs @ t)"

text \<open>A directory in which the log stays the same, file by file.\<close>

definition same_log :: "string \<Rightarrow> string \<Rightarrow> dir \<Rightarrow> dir \<Rightarrow> bool" where
  "same_log name latest fs fs' \<longleftrightarrow> dir_ok name latest fs' \<and> segment_names name fs' = segment_names name fs \<and>
    (\<forall>e \<in> set (disk_names name fs). content_of fs' e = content_of fs e)"

lemma same_log_refl: "dir_ok name latest fs \<Longrightarrow> same_log name latest fs fs"
  by (simp add: same_log_def)

lemma same_log_trans: "same_log name latest fs fs' \<Longrightarrow> same_log name latest fs' fs'' \<Longrightarrow> same_log name latest fs fs''"
  by (simp add: same_log_def disk_names_def)

lemma same_log_text: "same_log name latest fs fs' \<Longrightarrow> disk_text name fs' = disk_text name fs"
  by (simp add: same_log_def disk_text_def disk_names_def cong: map_cong)

lemma same_log_dot:
  assumes "log_name_ok name" "dir_ok name latest fs" "fs' = fs \<or> (\<exists>x c. fs' = set_content (CHR ''.'' # x) c fs)"
  shows "same_log name latest fs fs'"
proof -
  have "same_log name latest fs (set_content (CHR ''.'' # x) c fs)" for x c
  proof -
    have "\<not> is_segment_name name (CHR ''.'' # x)" "name \<noteq> CHR ''.'' # x"
      using dot_not_segment [of name _ x] assms(1) by (auto simp: log_name_ok_def)
    then show ?thesis using dot_set_content [OF assms(1,2), of x c] segment_names_mem
      by (fastforce simp: same_log_def disk_names_def)
  qed
  then show ?thesis using assms(2,3) same_log_refl by blast
qed

lemma same_log_open:
  assumes "dir_ok name latest fs" "open_audit_file io d name fs = (r, fs')"
  shows "same_log name latest fs fs'"
proof -
  have "same_log name latest fs (set_content name (content_of fs name) fs)"
    using active_set_content [OF assms(1)] by (simp add: same_log_def)
  then show ?thesis using open_audit_cases [OF assms(2)] same_log_refl [OF assms(1)] by blast
qed

section \<open>The head recovered from a file\<close>

lemma byte_lines_append:
  assumes "closed_text a"
  shows "byte_lines (a @ b) = byte_lines a @ byte_lines b"
proof (cases "a = []")
  case True
  then show ?thesis by (simp add: byte_lines_def)
next
  case False
  then obtain a' where a: "a = a' @ [CHR 0x0A]" using assms by (cases a rule: rev_cases) (auto simp: closed_text_def)
  have s: "split_on CHR 0x0A a = split_on CHR 0x0A a' @ [[]]" "split_on CHR 0x0A (a @ b) = split_on CHR 0x0A a' @ split_on CHR 0x0A b"
    using split_on_snoc_append [of "CHR 0x0A" a' "[]"] split_on_snoc_append [of "CHR 0x0A" a' b] by (simp_all add: a)
  show ?thesis unfolding byte_lines_def Let_def s by (simp add: butlast_append)
qed

lemma byte_lines_log_lines:
  assumes "\<forall>c \<in> set cs. chained_codec_ok E c"
  shows "byte_lines (log_lines E cs) = map (\<lambda>c. line_text E c @ [CHR 0x0A]) cs"
proof -
  have "\<forall>t \<in> set (map (line_text E) cs). CHR 0x0A \<notin> set t" using assms chained_codec_okD by auto
  from split_on_lines [OF this] show ?thesis by (simp add: byte_lines_def log_lines_def comp_def)
qed

lemma byte_lines_nonempty: "s \<noteq> [] \<Longrightarrow> byte_lines s \<noteq> []"
proof
  assume "s \<noteq> []" "byte_lines s = []"
  then have "butlast (split_on CHR 0x0A s) = []" "last (split_on CHR 0x0A s) = []"
    by (auto simp: byte_lines_def Let_def split: if_splits)
  then have "split_on CHR 0x0A s = [[]]" by (metis append_butlast_last_id append_Nil split_on_nonempty)
  then have "s = []" using join_with_split_on [of "CHR 0x0A" s] by simp
  then show False using \<open>s \<noteq> []\<close> by simp
qed

lemma chained_of_last:
  "rs \<noteq> [] \<Longrightarrow> chained_of E key ident prev rs \<noteq> [] \<and>
    cr_record_hash (last (chained_of E key ident prev rs)) = hex_encode (re_hex (le_rec E)) (head_of E key prev rs) \<and>
    cr_chain_id (last (chained_of E key ident prev rs)) = ident"
  by (cases rs rule: rev_cases) (simp_all add: link_def)

lemma head_of_length: "log_env_ok E R \<Longrightarrow> length prev = HASH_LEN \<Longrightarrow> length (head_of E key prev rs) = HASH_LEN"
  by (induction rs arbitrary: prev) (simp_all add: length_next_hash)

text \<open>
  The last file of a linked log, when it is not empty, ends with the last record, so the head and
  the identity read from it are those of the whole log.
\<close>

lemma load_head_suffix:
  assumes ok: "log_env_ok E R" "set rs \<subseteq> R" "uuid_ok E ident"
    and disk: "before @ content_of fs m = log_text E key ident rs" "closed_text before"
    and load: "load_head_from_file E io fs m c = (r, c')"
  shows "c' = c \<or> c' = c\<lparr>hc_head := head_of E key zero_hash rs, hc_id := Some ident\<rparr>"
    and "content_of fs m \<noteq> [] \<Longrightarrow> r = Inr () \<Longrightarrow> c' = c\<lparr>hc_head := head_of E key zero_hash rs, hc_id := Some ident\<rparr>"
    and "content_of fs m = [] \<Longrightarrow> c' = c"
proof -
  let ?cs = "chained_of E key ident zero_hash rs"
  let ?ls = "byte_lines (content_of fs m)"
  have codec: "\<forall>c \<in> set ?cs. chained_codec_ok E c" using chained_of_codec [OF ok] by blast
  have all: "byte_lines before @ ?ls = map (\<lambda>c. line_text E c @ [CHR 0x0A]) ?cs"
    using byte_lines_append [OF disk(2), of "content_of fs m"] byte_lines_log_lines [OF codec] disk(1)
    by (simp add: log_text_def)
  have nonblank: "list_ex (\<lambda>b. \<not> ascii_whitespace b) l" if "l \<in> set ?ls" for l
  proof -
    have "l \<in> set (map (\<lambda>c. line_text E c @ [CHR 0x0A]) ?cs)" using that unfolding all [symmetric] by simp
    then obtain c where c: "c \<in> set ?cs" "l = line_text E c @ [CHR 0x0A]" by auto
    have "chained_codec_ok E c" using codec c(1) by blast
    note k = chained_codec_okD(3,4) [OF this]
    show ?thesis unfolding c(2) using k by (cases "line_text E c") (simp_all add: ascii_whitespace_def)
  qed
  then have f: "filter (list_ex (\<lambda>b. \<not> ascii_whitespace b)) ?ls = ?ls" by (simp add: filter_id_conv)
  have empty: "c' = c" if "content_of fs m = []"
  proof -
    have "?ls = []" using that by (simp add: byte_lines_def)
    then show ?thesis using load by (auto simp: load_head_from_file_def split: sum.splits if_splits)
  qed
  have full: "r \<noteq> Inr () \<and> c' = c \<or> c' = c\<lparr>hc_head := head_of E key zero_hash rs, hc_id := Some ident\<rparr>"
    if ne: "content_of fs m \<noteq> []"
  proof -
    have ls: "?ls \<noteq> []" using byte_lines_nonempty [OF ne] .
    then have cs: "?cs \<noteq> []" "rs \<noteq> []" using all by auto
    have "last ?ls = line_text E (last ?cs) @ [CHR 0x0A]"
      using arg_cong [OF all, of last] ls cs by (simp add: last_map)
    moreover obtain v where "le_value_from_slice E (line_text E (last ?cs) @ [CHR 0x0A]) = Inr v"
        "get_str v ''record_hash'' = Some (cr_record_hash (last ?cs))" "get_str v ''chain_id'' = Some (cr_chain_id (last ?cs))"
      using chained_codec_okD(8) [of E "last ?cs"] codec cs(1) by auto
    moreover have "hex_decode (re_hex (le_rec E)) (cr_record_hash (last ?cs)) = Inr (head_of E key zero_hash rs)"
      using chained_of_last [OF cs(2), of E key ident zero_hash] ok(1) by (simp add: log_env_ok_def hex_codec_ok_def)
    moreover have "length (head_of E key zero_hash rs) = HASH_LEN"
      using head_of_length [OF ok(1)] by (simp add: zero_hash_def)
    moreover have "le_parse_uuid E (cr_chain_id (last ?cs)) = Inr ident"
      using chained_of_last [OF cs(2), of E key ident zero_hash] ok(3) by (simp add: uuid_ok_def)
    moreover have "map_of fs m \<noteq> None" using ne by (cases "map_of fs m") (simp_all add: content_of_def)
    ultimately show ?thesis
      using load ls unfolding load_head_from_file_def f
      by (auto simp: Let_def neq_Nil_conv split: sum.splits if_splits)
  qed
  show "c' = c \<or> c' = c\<lparr>hc_head := head_of E key zero_hash rs, hc_id := Some ident\<rparr>" using empty full by blast
  show "content_of fs m \<noteq> [] \<Longrightarrow> r = Inr () \<Longrightarrow> c' = c\<lparr>hc_head := head_of E key zero_hash rs, hc_id := Some ident\<rparr>"
    using full by blast
  show "content_of fs m = [] \<Longrightarrow> c' = c" by (rule empty)
qed

section \<open>The invariant of a chained log\<close>

text \<open>On disk: the lines of the linked records, in files that end with complete lines.\<close>

definition disk_holds ::
  "log_env \<Rightarrow> decision_record set \<Rightarrow> string \<Rightarrow> string \<Rightarrow> string \<Rightarrow> string \<Rightarrow> decision_record list \<Rightarrow> dir \<Rightarrow> bool" where
  "disk_holds E R name key latest ident rs fs \<longleftrightarrow> dir_ok name latest fs \<and> set rs \<subseteq> R \<and> uuid_ok E ident \<and>
    disk_text name fs = log_text E key ident rs \<and> list_all closed_text (map (content_of fs) (disk_names name fs))"

text \<open>In memory: the chain stands at the last record.\<close>

definition log_state_ok ::
  "log_env \<Rightarrow> log_path \<Rightarrow> string \<Rightarrow> string \<Rightarrow> decision_record list \<Rightarrow> decision_log \<Rightarrow> bool" where
  "log_state_ok E p key ident rs log \<longleftrightarrow> dl_path log = p \<and> dl_sidecar log = chain_id_sidecar_name (lp_name p) \<and>
    dl_chain log = Some \<lparr>hc_root = key, hc_head = head_of E key zero_hash rs, hc_id = Some ident\<rparr>"

definition log_inv ::
  "log_env \<Rightarrow> decision_record set \<Rightarrow> log_path \<Rightarrow> string \<Rightarrow> string \<Rightarrow> string \<Rightarrow> decision_record list \<Rightarrow> world \<Rightarrow> bool" where
  "log_inv E R p key latest ident rs w \<longleftrightarrow> disk_holds E R (lp_name p) key latest ident rs (fst w) \<and>
    map_of (fst w) (lp_name p) \<noteq> None \<and> log_state_ok E p key ident rs (snd w)"

lemma disk_holds_same:
  assumes "disk_holds E R name key latest ident rs fs" "same_log name latest fs fs'"
  shows "disk_holds E R name key latest ident rs fs'"
proof -
  have "map (content_of fs') (disk_names name fs') = map (content_of fs) (disk_names name fs)"
    using assms(2) by (simp add: same_log_def disk_names_def)
  then show ?thesis using assms same_log_text [OF assms(2)] by (simp add: disk_holds_def same_log_def)
qed

lemma disk_holds_append:
  assumes "disk_holds E R name key latest ident rs fs" "rec \<in> R"
  shows "disk_holds E R name key latest ident (rs @ [rec])
    (set_content name (content_of fs name @ line_text E (link E key ident (head_of E key zero_hash rs) rec) @ [CHR 0x0A]) fs)"
proof -
  let ?l = "line_text E (link E key ident (head_of E key zero_hash rs) rec) @ [CHR 0x0A]"
  let ?fs = "set_content name (content_of fs name @ ?l) fs"
  have ok: "dir_ok name latest fs" using assms(1) by (simp add: disk_holds_def)
  have seg: "segment_names name ?fs = segment_names name fs" "dir_ok name latest ?fs"
    using active_set_content [OF ok] by blast+
  have "map (content_of ?fs) (segment_names name fs) = map (content_of fs) (segment_names name fs)"
    by (rule segment_contents_cong) simp
  then have "list_all closed_text (map (content_of ?fs) (disk_names name ?fs))"
    using assms(1) seg(1) by (simp add: disk_holds_def disk_names_def closed_text_def del: map_eq_conv)
  then show ?thesis
    using assms active_text [OF ok, of ?l] seg
    by (simp add: disk_holds_def log_text_def) (simp add: log_lines_def)
qed

lemma disk_holds_rotate:
  assumes "disk_holds E R name key latest ident rs fs" "latest \<le> ts" "timestamp_ok ts" "k \<le> u32_max"
    and "map_of fs (rotated_name name ts k) = None" "\<forall>j < k. map_of fs (rotated_name name ts j) \<noteq> None"
    and "map_of fs name = Some n"
  shows "disk_holds E R name key ts ident rs (AList.update (rotated_name name ts k) n (AList.delete name fs))"
proof -
  let ?fs = "AList.update (rotated_name name ts k) n (AList.delete name fs)"
  have ok: "dir_ok name latest fs" using assms(1) by (simp add: disk_holds_def)
  note r = rotate_dir [OF ok assms(2-7)]
  have c: "content_of ?fs name = []" using r by (simp add: content_of_def)
  have "map (content_of ?fs) (segment_names name ?fs) = map (content_of fs) (disk_names name fs)" using r by blast
  then have "map (content_of ?fs) (disk_names name ?fs) = map (content_of fs) (disk_names name fs) @ [[]]"
    by (simp only: disk_names_def [of name ?fs] map_append list.map c)
  then show ?thesis using assms(1) r by (simp add: disk_holds_def closed_text_def)
qed

text \<open>The active file is the end of the log's text.\<close>

lemma disk_holds_active:
  assumes "disk_holds E R name key latest ident rs fs"
  shows "concat (map (content_of fs) (segment_names name fs)) @ content_of fs name = log_text E key ident rs \<and>
    closed_text (concat (map (content_of fs) (segment_names name fs)))"
proof -
  have "list_all closed_text (map (content_of fs) (segment_names name fs))"
    using assms by (simp add: disk_holds_def disk_names_def)
  from closed_text_concat [OF this] show ?thesis
    using assms by (simp add: disk_holds_def disk_text_def disk_names_def)
qed

section \<open>Appending\<close>

lemma on_dir_eq: "on_dir f (fs, log) = (r, w') \<longleftrightarrow> (\<exists>fs'. f fs = (r, fs') \<and> w' = (fs', log))"
  by (auto simp: on_dir_def split: prod.splits)

lemma persist_cases:
  assumes "persist_chained E io name ident rec fs prev h = (r, fs')"
  shows "(r = Inr () \<longrightarrow> (\<exists>t. le_chained_to_vec E \<lparr>cr_prev_hash = hex_encode (re_hex (le_rec E)) prev,
        cr_record_hash = hex_encode (re_hex (le_rec E)) h, cr_chain_id = ident, cr_record = rec\<rparr> = Inr t \<and>
      fs' = set_content name (content_of fs name @ t @ [CHR 0x0A]) fs)) \<and>
    (fs' = fs \<or> (\<exists>t. fs' = set_content name (content_of fs name @ t) fs))"
  using assms write_line_cases [of io name _ fs r fs'] unfolding persist_chained_def
  by (auto split: sum.splits)

end
