(* ===== verification/LogInvariant.thy ===== *)
theory LogInvariant
  imports LogCorrect
begin

text \<open>
  The operations of a chained decision log keep its invariant: appends and rotations with every
  failure of the storage, and reopening.
\<close>

section \<open>Appending\<close>

lemma grows_same: "same_log name latest fs fs' \<Longrightarrow> grows name latest fs fs'"
  using same_log_text by (auto simp: grows_def same_log_def)

lemma grows_trans: "grows name latest fs fs' \<Longrightarrow> grows name latest' fs' fs'' \<Longrightarrow> grows name latest' fs fs''"
  by (auto simp: grows_def)

lemma grows_active: "dir_ok name latest fs \<Longrightarrow> grows name latest fs (set_content name (content_of fs name @ t) fs)"
  using active_set_content active_text by (auto simp: grows_def)

lemma ensure_sidecar_same:
  assumes "log_name_ok name" "dir_ok name latest fs"
    and "ensure_sidecar E io uuid d (chain_id_sidecar_name m) ident fs = (r, fs')"
  shows "same_log name latest fs fs'"
proof -
  obtain x where x: "chain_id_sidecar_name m = CHR ''.'' # x" using sidecar_name_dot by blast
  have "fs' = fs \<or> (\<exists>x c. fs' = set_content (CHR ''.'' # x) c fs)"
    using assms(3) sidecar_write_cases [of io uuid d x ident fs r fs'] by (auto simp: ensure_sidecar_def x split: if_splits)
  then show ?thesis by (rule same_log_dot [OF assms(1,2)])
qed

lemma append_chained_cases:
  assumes chain: "hc_id c = Some ident"
    and app: "append_chained E io dw rec c (fs, log) = (r, (fs', log'))"
  obtains (sidecar) e where "r \<noteq> Inr ()" "\<not> dl_open log'"
      "ensure_sidecar E io (dw_tmp2 dw) (lp_dir (dl_path log)) (dl_sidecar log) ident fs = (Inl e, fs')"
  | (unavailable) "r \<noteq> Inr ()" "\<not> dl_open log'" "\<not> dl_open log"
      "ensure_sidecar E io (dw_tmp2 dw) (lp_dir (dl_path log)) (dl_sidecar log) ident fs = (Inr (), fs')"
  | (written) fs1 r1 h where
      "ensure_sidecar E io (dw_tmp2 dw) (lp_dir (dl_path log)) (dl_sidecar log) ident fs = (Inr (), fs1)"
      "h = le_hmac E (hc_root c) (hc_head c @ canonical_record E rec)"
      "persist_chained E io (lp_name (dl_path log)) ident rec fs1 (hc_head c) h = (r1, fs')"
      "r1 = Inr () \<longrightarrow> r = Inr () \<and> log' = log\<lparr>dl_chain := Some (c\<lparr>hc_head := h\<rparr>)\<rparr> \<and> dl_open log"
      "r1 \<noteq> Inr () \<longrightarrow> r \<noteq> Inr () \<and> \<not> dl_open log'"
proof -
  let ?h = "le_hmac E (hc_root c) (hc_head c @ canonical_record E rec)"
  obtain r0 fs1 where s: "ensure_sidecar E io (dw_tmp2 dw) (lp_dir (dl_path log)) (dl_sidecar log) ident fs = (r0, fs1)"
    by fastforce
  have id: "chain_id c (dw_chain_id dw) = (ident, c)" by (simp add: chain_id_def chain)
  have step: "on_dir (ensure_sidecar E io (dw_tmp2 dw) (lp_dir (dl_path log)) (dl_sidecar log) ident)
      (fs, log\<lparr>dl_chain := Some c\<rparr>) = (r0, (fs1, log\<lparr>dl_chain := Some c\<rparr>))"
    using s by (simp add: on_dir_def)
  obtain r1 fs2 where p: "persist_chained E io (lp_name (dl_path log)) ident rec fs1 (hc_head c) ?h = (r1, fs2)" by fastforce
  show thesis
  proof (cases r0)
    case (Inl e)
    then have "r \<noteq> Inr () \<and> \<not> dl_open log' \<and> fs' = fs1"
      using app step by (auto simp: append_chained_def id Let_def close_file_def)
    then show thesis using s Inl by (intro sidecar) auto
  next
    case (Inr u)
    show thesis
    proof (cases "dl_open log")
      case False
      then have "r \<noteq> Inr () \<and> \<not> dl_open log' \<and> fs' = fs1"
        using app step Inr by (auto simp: append_chained_def id Let_def)
      then show thesis using s Inr False by (intro unavailable) auto
    next
      case True
      have "fs' = fs2 \<and> (r1 = Inr () \<longrightarrow> r = Inr () \<and> log' = log\<lparr>dl_chain := Some (c\<lparr>hc_head := ?h\<rparr>)\<rparr>) \<and>
          (r1 \<noteq> Inr () \<longrightarrow> r \<noteq> Inr () \<and> \<not> dl_open log')"
        using app step Inr True p
        by (cases r1) (auto simp: append_chained_def id Let_def try_append_with_io_def chain_compute_def close_file_def)
      then show thesis using s p Inr True by (intro written [OF _ refl]) auto
    qed
  qed
qed

lemma append_chained_step:
  assumes name: "log_name_ok (lp_name p)" and E: "log_env_ok E R" and rec: "rec \<in> R"
    and inv: "log_inv E R p key latest ident rs (fs, log)" "dl_chain log = Some c"
    and app: "append_chained E io dw rec c (fs, log) = (r, (fs', log'))"
  shows "grows (lp_name p) latest fs fs' \<and> (r \<noteq> Inr () \<longrightarrow> \<not> dl_open log') \<and>
    (r = Inr () \<longrightarrow> log_inv E R p key latest ident (rs @ [rec]) (fs', log'))"
proof -
  have c: "c = \<lparr>hc_root = key, hc_head = head_of E key zero_hash rs, hc_id = Some ident\<rparr>"
    and d: "dl_path log = p" "dl_sidecar log = chain_id_sidecar_name (lp_name p)"
    and disk: "disk_holds E R (lp_name p) key latest ident rs fs" and dok: "dir_ok (lp_name p) latest fs"
    using inv by (simp_all add: log_inv_def log_state_ok_def disk_holds_def)
  have id: "hc_id c = Some ident" by (simp add: c)
  note same = ensure_sidecar_same [OF name dok]
  from id app show ?thesis
  proof (cases rule: append_chained_cases)
    case (sidecar e)
    then show ?thesis using grows_same [OF same] d by auto
  next
    case unavailable
    then show ?thesis using grows_same [OF same] d by auto
  next
    case (written fs1 r1 h)
    have s: "same_log (lp_name p) latest fs fs1" using written(1) same d by simp
    have disk1: "disk_holds E R (lp_name p) key latest ident rs fs1" using disk_holds_same [OF disk s] .
    then have dok1: "dir_ok (lp_name p) latest fs1" by (simp add: disk_holds_def)
    note w = persist_cases [OF written(3)]
    have "grows (lp_name p) latest fs1 fs'"
      using w grows_active [OF dok1] grows_same [OF same_log_refl [OF dok1]] d by auto
    then have g: "grows (lp_name p) latest fs fs'" using grows_trans [OF grows_same [OF s]] by blast
    have "log_inv E R p key latest ident (rs @ [rec]) (fs', log')" if r1: "r1 = Inr ()"
    proof -
      have h: "h = next_hash E key (head_of E key zero_hash rs) rec" by (simp add: written(2) next_hash_def c)
      obtain t where t: "le_chained_to_vec E (link E key ident (head_of E key zero_hash rs) rec) = Inr t"
        "fs' = set_content (lp_name p) (content_of fs1 (lp_name p) @ t @ [CHR 0x0A]) fs1"
        using w r1 d by (auto simp: link_def h c)
      then have "disk_holds E R (lp_name p) key latest ident (rs @ [rec]) fs'"
        using disk_holds_append [OF disk1 rec] by (simp add: line_text_def)
      moreover have "map_of fs' (lp_name p) \<noteq> None" by (simp add: t(2) set_content_def map_of_update)
      ultimately show ?thesis using written(4) r1 d by (simp add: log_inv_def log_state_ok_def c h)
    qed
    then show ?thesis using g written(4,5) by (cases "r1 = Inr ()") auto
  qed
qed

section \<open>Rotation\<close>

lemma dir_ok_mono: "dir_ok name latest fs \<Longrightarrow> latest \<le> ts \<Longrightarrow> dir_ok name ts fs"
  unfolding dir_ok_def using order_trans by blast

lemma disk_holds_mono:
  "disk_holds E R name key latest ident rs fs \<Longrightarrow> latest \<le> ts \<Longrightarrow> disk_holds E R name key ts ident rs fs"
  using dir_ok_mono by (auto simp: disk_holds_def)

lemma same_log_map_of:
  assumes "log_name_ok name" "fs' = fs \<or> (\<exists>x c. fs' = set_content (CHR ''.'' # x) c fs)"
  shows "map_of fs' (rotated_name name ts k) = map_of fs (rotated_name name ts k) \<and> map_of fs' name = map_of fs name"
  using assms rotated_name_not_dot [of name ts k] by (auto simp: log_name_ok_def set_content_def map_of_update)

lemma reopen_cases:
  assumes "reopen_rotated E io uuid rotated (fs, log) = (r, w')"
  shows "\<exists>fs1 fs'. w' = (fs', log) \<and> (fs1 = fs \<or> (\<exists>x c. fs1 = set_content (CHR ''.'' # x) c fs)) \<and>
    (r \<noteq> Inr () \<and> fs' = fs1 \<or>
     (\<exists>n r'. map_of fs1 (lp_name (dl_path log)) = Some n \<and> r = map_err Io r' \<and>
       open_audit_file io (lp_dir (dl_path log)) (lp_name (dl_path log))
         (AList.update rotated n (AList.delete (lp_name (dl_path log)) fs1)) = (r', fs')))"
proof -
  let ?p = "dl_path log"
  obtain x where x: "chain_id_sidecar_name rotated = CHR ''.'' # x" using sidecar_name_dot by blast
  obtain r1 fs1 where c: "copy_chain_id_sidecar E io uuid (lp_dir ?p) (dl_sidecar log) (chain_id_sidecar_name rotated)
      (dl_chain log \<noteq> None) fs = (r1, fs1)" by fastforce
  have fs1: "fs1 = fs \<or> (\<exists>x c. fs1 = set_content (CHR ''.'' # x) c fs)"
    using sidecar_copy_cases [OF c [unfolded x]] .
  show ?thesis
  proof (cases r1)
    case (Inl e)
    then have "r \<noteq> Inr () \<and> w' = (fs1, log)"
      using assms c by (auto simp: reopen_rotated_def Let_def bind_step_def on_dir_def)
    then show ?thesis using fs1 by blast
  next
    case (Inr u)
    show ?thesis
    proof (cases "attempt io (AtRename rotated)")
      case (Inl e)
      then have "r \<noteq> Inr () \<and> w' = (fs1, log)"
        using assms c Inr by (auto simp: reopen_rotated_def Let_def bind_step_def on_dir_def)
      then show ?thesis using fs1 by blast
    next
      case a: (Inr u)
      show ?thesis
      proof (cases "map_of fs1 (lp_name ?p)")
        case None
        then have "r \<noteq> Inr () \<and> w' = (fs1, log)"
          using assms c Inr a by (auto simp: reopen_rotated_def Let_def bind_step_def on_dir_def)
        then show ?thesis using fs1 by blast
      next
        case (Some n)
        obtain r' fs' where o: "open_audit_file io (lp_dir ?p) (lp_name ?p)
            (AList.update rotated n (AList.delete (lp_name ?p) fs1)) = (r', fs')" by fastforce
        then have "r = map_err Io r' \<and> w' = (fs', log)"
          using assms c Inr a Some
          by (auto simp: reopen_rotated_def Let_def bind_step_def on_dir_def map_err_step_def)
        then show ?thesis using fs1 Some o by blast
      qed
    qed
  qed
qed

lemma adopt_id_Some: "hc_id c = Some i \<Longrightarrow> adopt_id c j = c"
  by (simp add: adopt_id_def)

lemma rotate_to_step:
  assumes name: "log_name_ok (lp_name p)" and E: "log_env_ok E R"
    and inv: "log_inv E R p key latest ident rs (fs, log)"
    and ts: "latest \<le> ts" "timestamp_ok ts" "k \<le> u32_max"
    and free: "map_of fs (rotated_name (lp_name p) ts k) = None" "\<forall>j < k. map_of fs (rotated_name (lp_name p) ts j) \<noteq> None"
    and rot: "rotate_to E io dw (rotated_name (lp_name p) ts k) (fs, log) = (r, (fs', log'))"
  shows "grows (lp_name p) ts fs fs' \<and> (r \<noteq> Inr () \<longrightarrow> \<not> dl_open log') \<and>
    (r = Inr () \<longrightarrow> log_inv E R p key ts ident rs (fs', log') \<and> dl_rotation log' = dl_rotation log)"
proof -
  let ?n = "lp_name p" and ?log = "log\<lparr>dl_open := False\<rparr>"
  let ?r = "rotated_name ?n ts k"
  let ?c = "\<lparr>hc_root = key, hc_head = head_of E key zero_hash rs, hc_id = Some ident\<rparr>"
  have d: "dl_path log = p" "dl_sidecar log = chain_id_sidecar_name ?n" "dl_chain log = Some ?c"
    and disk: "disk_holds E R ?n key latest ident rs fs" and dok: "dir_ok ?n latest fs"
    using inv by (simp_all add: log_inv_def log_state_ok_def disk_holds_def)
  obtain r1 w1 where ro: "reopen_rotated E io (dw_tmp1 dw) ?r (fs, ?log) = (r1, w1)" by (meson surj_pair)
  obtain fs1 fs2 where w1: "w1 = (fs2, ?log)" and fs1: "fs1 = fs \<or> (\<exists>x c. fs1 = set_content (CHR ''.'' # x) c fs)"
    and cases: "r1 \<noteq> Inr () \<and> fs2 = fs1 \<or> (\<exists>n r'. map_of fs1 ?n = Some n \<and> r1 = map_err Io r' \<and>
       open_audit_file io (lp_dir p) ?n (AList.update ?r n (AList.delete ?n fs1)) = (r', fs2))"
    using reopen_cases [OF ro] d by auto
  have same1: "same_log ?n latest fs fs1" by (rule same_log_dot [OF name dok fs1])
  have disk1: "disk_holds E R ?n key latest ident rs fs1" by (rule disk_holds_same [OF disk same1])
  have m: "map_of fs1 (rotated_name ?n t j) = map_of fs (rotated_name ?n t j)" "map_of fs1 ?n = map_of fs ?n" for t j
    using same_log_map_of [OF name fs1] by blast+
  have disk2: "disk_holds E R ?n key ts ident rs fs2 \<and>
      (r1 = Inr () \<longrightarrow> content_of fs2 ?r = content_of fs1 ?n \<and> map_of fs2 ?n \<noteq> None)"
  proof (cases "r1 \<noteq> Inr () \<and> fs2 = fs1")
    case True
    then show ?thesis using disk_holds_mono [OF disk1 ts(1)] by simp
  next
    case False
    then obtain n r' where n: "map_of fs1 ?n = Some n"
        "open_audit_file io (lp_dir p) ?n (AList.update ?r n (AList.delete ?n fs1)) = (r', fs2)" "r1 = map_err Io r'"
      using cases by blast
    have ex: "map_of fs2 ?n \<noteq> None" if "r1 = Inr ()"
      using open_audit_cases [OF n(2)] n(3) that by (cases r') auto
    let ?fs = "AList.update ?r n (AList.delete ?n fs1)"
    have h: "disk_holds E R ?n key ts ident rs ?fs"
      by (rule disk_holds_rotate [OF disk1 ts _ _ n(1)]) (use free m in simp_all)
    then have s2: "same_log ?n ts ?fs fs2" using same_log_open [OF _ n(2)] by (simp add: disk_holds_def)
    have "?r \<in> set (disk_names ?n ?fs)"
      using rotate_dir [OF _ ts _ _ n(1)] disk1 free m by (simp add: disk_holds_def disk_names_def)
    then have "content_of fs2 ?r = content_of ?fs ?r" using s2 by (simp add: same_log_def)
    also have "\<dots> = content_of fs1 ?n" by (simp add: content_of_def map_of_update n(1))
    finally show ?thesis using disk_holds_same [OF h s2] ex by blast
  qed
  then have g: "grows ?n ts fs fs2"
    using disk by (simp add: grows_def disk_holds_def)
  show ?thesis
  proof (cases "r1 = Inr ()")
    case False
    then have "r \<noteq> Inr () \<and> fs' = fs2 \<and> log' = ?log"
      using rot ro w1 by (cases r1) (auto simp: rotate_to_def bind_step_def close_file_def)
    then show ?thesis using g by simp
  next
    case True
    obtain r2 c2 where l: "load_head_from_file E io fs2 ?r ?c = (r2, c2)" by fastforce
    have "concat (map (content_of fs1) (segment_names ?n fs1)) @ content_of fs2 ?r = log_text E key ident rs"
      using disk_holds_active [OF disk1] disk2 True by simp
    from load_head_suffix(1) [OF E _ _ this _ l] have c2: "c2 = ?c"
      using disk1 disk_holds_active [OF disk1] by (auto simp: disk_holds_def)
    have a: "adopt_id ?c i = ?c" for i by (rule adopt_id_Some) simp
    have "fs' = fs2 \<and> (r = Inr () \<longrightarrow> log' = ?log\<lparr>dl_chain := Some ?c, dl_open := True\<rparr>) \<and> (r \<noteq> Inr () \<longrightarrow> \<not> dl_open log')"
      using rot ro w1 True l d(3) a
      by (cases r2) (auto simp: rotate_to_def bind_step_def close_file_def c2 split: option.splits)
    then show ?thesis using g disk2 d True by (auto simp: log_inv_def log_state_ok_def)
  qed
qed

lemma rotation_target_Some:
  assumes "rotation_target name ts fs = Some rotated"
  shows "\<exists>k \<le> u32_max. rotated = rotated_name name ts k \<and> map_of fs (rotated_name name ts k) = None \<and>
    (\<forall>j < k. map_of fs (rotated_name name ts j) \<noteq> None)"
proof -
  obtain k where k: "free_slot (Suc (length fs)) (\<lambda>k. map_of fs (rotated_name name ts k) \<noteq> None) 0 = Some k"
    "rotated = rotated_name name ts k"
    using assms by (auto simp: rotation_target_def simp del: free_slot.simps)
  show ?thesis using free_slot_Some [OF k(1)] k(2) by auto
qed

lemma rotation_target_total:
  assumes "length fs \<le> u32_max"
  shows "rotation_target name ts fs \<noteq> None"
proof -
  have "\<exists>i \<le> length fs. map_of fs (rotated_name name ts i) = None"
  proof (rule ccontr)
    assume "\<not> ?thesis"
    then have sub: "rotated_name name ts ` {..length fs} \<subseteq> fst ` set fs" by (auto simp: map_of_eq_None_iff)
    have "card (rotated_name name ts ` {..length fs}) = Suc (length fs)"
      by (subst card_image) (auto intro: inj_onI rotated_name_inj)
    moreover have "card (fst ` set fs) \<le> length fs" by (metis card_length length_map set_map)
    ultimately show False using card_mono [OF _ sub] by simp
  qed
  then obtain i where "i \<le> length fs" "map_of fs (rotated_name name ts i) = None" by blast
  then show ?thesis
    using free_slot_total [of "\<lambda>k. map_of fs (rotated_name name ts k) \<noteq> None" i 0 "Suc (length fs)"] assms
    by (simp add: rotation_target_def del: free_slot.simps)
qed

lemma rotate_inner_step:
  assumes "log_name_ok (lp_name p)" "log_env_ok E R" "log_inv E R p key latest ident rs (fs, log)"
    and "latest \<le> dw_timestamp dw" "timestamp_ok (dw_timestamp dw)"
    and "rotate_inner E io dw (fs, log) = Some (r, (fs', log'))"
  shows "grows (lp_name p) (dw_timestamp dw) fs fs' \<and> (r \<noteq> Inr () \<longrightarrow> \<not> dl_open log') \<and>
    (r = Inr () \<longrightarrow> log_inv E R p key (dw_timestamp dw) ident rs (fs', log') \<and> dl_rotation log' = dl_rotation log)"
proof -
  have d: "dl_path log = p" using assms(3) by (simp add: log_inv_def log_state_ok_def)
  obtain rotated where t: "rotation_target (lp_name p) (dw_timestamp dw) fs = Some rotated"
    "rotate_to E io dw rotated (fs, log) = (r, (fs', log'))"
    using assms(6) by (auto simp: rotate_inner_def d)
  from rotation_target_Some [OF t(1)] obtain k where "k \<le> u32_max" "rotated = rotated_name (lp_name p) (dw_timestamp dw) k"
    "map_of fs (rotated_name (lp_name p) (dw_timestamp dw) k) = None"
    "\<forall>j < k. map_of fs (rotated_name (lp_name p) (dw_timestamp dw) j) \<noteq> None" by blast
  then show ?thesis using rotate_to_step [OF assms(1-5)] t(2) by blast
qed

lemma rotate_if_needed_step:
  assumes "log_name_ok (lp_name p)" "log_env_ok E R" "log_inv E R p key latest ident rs (fs, log)"
    and "latest \<le> dw_timestamp dw" "timestamp_ok (dw_timestamp dw)"
    and "rotate_if_needed E io dw (fs, log) = Some (r, (fs', log'))"
  shows "grows (lp_name p) (dw_timestamp dw) fs fs' \<and> (r \<noteq> Inr () \<longrightarrow> \<not> dl_open log') \<and>
    (r = Inr () \<longrightarrow> log_inv E R p key (dw_timestamp dw) ident rs (fs', log'))"
proof (cases "rotate_inner E io dw (fs, log) = Some (r, (fs', log'))")
  case True
  then show ?thesis using rotate_inner_step [OF assms(1-5)] by blast
next
  case False
  then have "r = Inr ()" "fs' = fs" "log' = log"
    using assms(6) by (auto simp: rotate_if_needed_def Let_def split: option.splits if_splits)
  moreover have "disk_holds E R (lp_name p) key (dw_timestamp dw) ident rs fs"
    using assms(3) disk_holds_mono [OF _ assms(4)] by (auto simp: log_inv_def)
  ultimately show ?thesis using assms(3) by (auto simp: log_inv_def disk_holds_def grows_def)
qed

lemma log_append_step:
  assumes "log_name_ok (lp_name p)" "log_env_ok E R" "log_inv E R p key latest ident rs (fs, log)" "rec \<in> R"
    and "latest \<le> dw_timestamp dw" "timestamp_ok (dw_timestamp dw)"
    and "log_append E io dw rec (fs, log) = Some (r, (fs', log'))"
  shows "grows (lp_name p) (dw_timestamp dw) fs fs' \<and> (r \<noteq> Inr () \<longrightarrow> \<not> dl_open log') \<and>
    (r = Inr () \<longrightarrow> log_inv E R p key (dw_timestamp dw) ident (rs @ [rec]) (fs', log'))"
proof -
  obtain r1 fs1 log1 where r1: "rotate_if_needed E io dw (fs, log) = Some (r1, (fs1, log1))"
    using assms(7) by (auto simp: log_append_def)
  note s = rotate_if_needed_step [OF assms(1-3) assms(5,6) r1]
  show ?thesis
  proof (cases "r1 = Inr ()")
    case False
    then have "r = r1" "fs' = fs1" "log' = log1" using assms(7) r1 by (auto simp: log_append_def split: sum.splits)
    then show ?thesis using s False by blast
  next
    case True
    then have inv: "log_inv E R p key (dw_timestamp dw) ident rs (fs1, log1)" using s by blast
    then obtain c where c: "dl_chain log1 = Some c" by (auto simp: log_inv_def log_state_ok_def)
    then have "append_chained E io dw rec c (fs1, log1) = (r, (fs', log'))"
      using assms(7) r1 True by (simp add: log_append_def)
    from append_chained_step [OF assms(1,2,4) inv c this] show ?thesis using s grows_trans by blast
  qed
qed

section \<open>Opening\<close>

text \<open>The file the head is read from: the active one, or the latest segment when the active one is empty.\<close>

definition head_file :: "string \<Rightarrow> dir \<Rightarrow> string" where
  "head_file name fs =
    (if content_of fs name = [] \<and> segment_names name fs \<noteq> [] then last (segment_names name fs) else name)"

definition tail_written :: "string \<Rightarrow> dir \<Rightarrow> bool" where
  "tail_written name fs \<longleftrightarrow> content_of fs (head_file name fs) \<noteq> [] \<or> disk_text name fs = []"

lemma open_chained_Inr:
  assumes "open_chained E io dw p key rotation fs = (Inr log, fs')" "io_fault io (AtMeta (lp_name p)) = None"
  shows "\<exists>c1 c. load_head_from_file E io fs (head_file (lp_name p) fs) (chain_new key) = (Inr (), c1) \<and>
    log = \<lparr>dl_path = p, dl_sidecar = chain_id_sidecar_name (lp_name p), dl_rotation = rotation, dl_open = True, dl_chain = Some c\<rparr> \<and>
    (fs' = fs \<and> (\<exists>i s. le_parse_uuid E s = Inr i \<and> c = adopt_id c1 i) \<or>
      c = snd (chain_id c1 (dw_chain_id dw)) \<and> (fs' = fs \<or> (\<exists>x y. fs' = set_content (CHR ''.'' # x) y fs)))"
proof -
  let ?n = "lp_name p"
  let ?opened = "\<lambda>c. \<lparr>dl_path = p, dl_sidecar = chain_id_sidecar_name ?n, dl_rotation = rotation, dl_open = True, dl_chain = Some c\<rparr>"
  have len: "(case file_len io fs ?n of Some n \<Rightarrow> n = 0 | None \<Rightarrow> True) \<longleftrightarrow> content_of fs ?n = []"
    using assms(2) by (auto simp: file_len_def attempt_def content_of_def split: option.splits)
  obtain head c1 where h: "(if content_of fs ?n = [] then and_then (map_err Io (latest_rotated_log io p fs)) (\<lambda>latest.
        Inr (case latest of Some name \<Rightarrow> name | None \<Rightarrow> ?n)) else Inr ?n) = (Inr head :: string core_result)"
      "load_head_from_file E io fs head (chain_new key) = (Inr (), c1)"
    and rest: "(case read_chain_id_sidecar E io fs (if head = ?n then chain_id_sidecar_name ?n else chain_id_sidecar_name head) of
        Some ident \<Rightarrow> (Inr (?opened (adopt_id c1 ident)), fs)
      | None \<Rightarrow> (let (ident, chain) = chain_id c1 (dw_chain_id dw)
          in bind_step (map_err_step (\<lambda>e. Io (''persist audit chain id '' @ path_text (lp_dir p) (chain_id_sidecar_name ?n) @ '': '' @ e))
              (write_chain_id_sidecar io (dw_tmp1 dw) (lp_dir p) (chain_id_sidecar_name ?n) ident))
            (\<lambda>_ fs. (Inr (?opened chain), fs)) fs)) = (Inr log, fs')"
    using assms(1) unfolding open_chained_def Let_def len
    by (auto simp: result_simps split: sum.splits prod.splits)
  have "head = head_file ?n fs"
    using h(1) rotated_logs_names [of io p fs]
    by (auto simp: head_file_def latest_rotated_log_def result_simps split: if_splits)
  moreover obtain x where x: "chain_id_sidecar_name ?n = CHR ''.'' # x" using sidecar_name_dot by blast
  moreover have "fs' = fs \<or> (\<exists>x c. fs' = set_content (CHR ''.'' # x) c fs)"
    if "write_chain_id_sidecar io (dw_tmp1 dw) (lp_dir p) (chain_id_sidecar_name ?n) i fs = (r, fs')" for i r
    using sidecar_write_cases [OF that [unfolded x]] .
  ultimately show ?thesis using h(2) rest
    by (auto simp: bind_step_Inr map_err_step_Inr read_chain_id_sidecar_def ok_of_def split: option.splits sum.splits prod.splits node.splits if_splits)
qed

lemma segments_split_last:
  "xs \<noteq> [] \<Longrightarrow> concat (map f xs) = concat (map f (butlast xs)) @ f (last xs)"
  by (cases xs rule: rev_cases) simp_all

lemma head_file_text:
  assumes "disk_holds E R name key latest ident rs fs"
  shows "\<exists>before. before @ content_of fs (head_file name fs) = log_text E key ident rs \<and> closed_text before"
proof (cases "content_of fs name = [] \<and> segment_names name fs \<noteq> []")
  case True
  have "list_all closed_text (map (content_of fs) (butlast (segment_names name fs)))"
    using assms in_set_butlastD [of _ "segment_names name fs"] by (fastforce simp: disk_holds_def disk_names_def list_all_iff)
  from closed_text_concat [OF this] show ?thesis
    using True disk_holds_active [OF assms] segments_split_last [of "segment_names name fs" "content_of fs"]
    by (intro exI [of _ "concat (map (content_of fs) (butlast (segment_names name fs)))"]) (simp add: head_file_def)
next
  case False
  then have "head_file name fs = name" by (auto simp: head_file_def)
  then show ?thesis using disk_holds_active [OF assms] by auto
qed

lemma log_text_Nil: "log_env_ok E R \<Longrightarrow> set rs \<subseteq> R \<Longrightarrow> uuid_ok E ident \<Longrightarrow> log_text E key ident rs = [] \<longleftrightarrow> rs = []"
  by (cases rs) (simp_all add: log_text_def log_lines_def)

lemma open_chained_step:
  assumes name: "log_name_ok (lp_name p)" and E: "log_env_ok E R" and uuid: "uuid_ok E (dw_chain_id dw)"
    and disk: "disk_holds E R (lp_name p) key latest ident rs fs" "tail_written (lp_name p) fs"
    and active: "map_of fs (lp_name p) \<noteq> None"
    and op: "open_chained E io dw p key rotation fs = (Inr log, fs')" "io_fault io (AtMeta (lp_name p)) = None"
  shows "\<exists>ident. log_inv E R p key latest ident rs (fs', log)"
proof -
  let ?n = "lp_name p" and ?h = "head_of E key zero_hash rs"
  obtain c1 c where load: "load_head_from_file E io fs (head_file ?n fs) (chain_new key) = (Inr (), c1)"
    and log: "log = \<lparr>dl_path = p, dl_sidecar = chain_id_sidecar_name ?n, dl_rotation = rotation, dl_open = True, dl_chain = Some c\<rparr>"
    and c: "fs' = fs \<and> (\<exists>i s. le_parse_uuid E s = Inr i \<and> c = adopt_id c1 i) \<or>
      c = snd (chain_id c1 (dw_chain_id dw)) \<and> (fs' = fs \<or> (\<exists>x y. fs' = set_content (CHR ''.'' # x) y fs))"
    using open_chained_Inr [OF op] by blast
  have dok: "dir_ok ?n latest fs" and R: "set rs \<subseteq> R" and id: "uuid_ok E ident"
    and t: "disk_text ?n fs = log_text E key ident rs"
    using disk(1) by (simp_all add: disk_holds_def)
  have "fs' = fs \<or> (\<exists>x y. fs' = set_content (CHR ''.'' # x) y fs)" using c by blast
  then have active': "map_of fs' ?n \<noteq> None" using same_log_map_of [OF name] active by metis
  have "same_log ?n latest fs fs'" using c same_log_dot [OF name dok] by blast
  then have disk': "disk_holds E R ?n key latest ident rs fs'" by (rule disk_holds_same [OF disk(1)])
  obtain before where b: "before @ content_of fs (head_file ?n fs) = log_text E key ident rs" "closed_text before"
    using head_file_text [OF disk(1)] by blast
  show ?thesis
  proof (cases "content_of fs (head_file ?n fs) = []")
    case False
    then have "c1 = (chain_new key)\<lparr>hc_head := ?h, hc_id := Some ident\<rparr>"
      using load_head_suffix(2) [OF E R id b load] by blast
    then have "c = \<lparr>hc_root = key, hc_head = ?h, hc_id = Some ident\<rparr>"
      using c by (auto simp: adopt_id_def chain_id_def chain_new_def)
    then show ?thesis using disk' active' by (auto simp: log_inv_def log_state_ok_def log)
  next
    case True
    then have c1: "c1 = chain_new key" using load_head_suffix(3) [OF E R id b load] by blast
    have rs: "rs = []" using True disk(2) t log_text_Nil [OF E R id, of key] by (simp add: tail_written_def)
    have u: "uuid_ok E i" if "le_parse_uuid E s = Inr i" for s i using E that unfolding log_env_ok_def by blast
    have "\<exists>i. uuid_ok E i \<and> c = \<lparr>hc_root = key, hc_head = zero_hash, hc_id = Some i\<rparr>"
      using c uuid u by (auto simp: c1 adopt_id_def chain_id_def chain_new_def)
    then obtain i where i: "uuid_ok E i" "c = \<lparr>hc_root = key, hc_head = zero_hash, hc_id = Some i\<rparr>" by blast
    have "disk_holds E R ?n key latest i rs fs'" using disk' i(1) by (simp add: disk_holds_def log_text_def rs)
    then show ?thesis using i(2) active' by (auto simp: log_inv_def log_state_ok_def log rs)
  qed
qed

lemma open_internal_step:
  assumes name: "log_name_ok (lp_name p)" and E: "log_env_ok E R" and uuid: "uuid_ok E (dw_chain_id dw)"
    and disk: "disk_holds E R (lp_name p) key latest ident rs fs" "tail_written (lp_name p) fs"
    and op: "open_internal E io dw p (Some key) rotation fs = (Inr log, fs')" "io_fault io (AtMeta (lp_name p)) = None"
  shows "\<exists>ident. log_inv E R p key latest ident rs (fs', log)"
proof -
  obtain fs1 where o: "open_audit_file io (lp_dir p) (lp_name p) fs = (Inr (), fs1)"
      "open_chained E io dw p key rotation fs1 = (Inr log, fs')"
    using op(1) by (auto simp: open_internal_def result_simps split: sum.splits)
  have dok: "dir_ok (lp_name p) latest fs" using disk(1) by (simp add: disk_holds_def)
  note s = same_log_open [OF dok o(1)]
  have "segment_names (lp_name p) fs1 = segment_names (lp_name p) fs"
    "\<forall>e \<in> set (disk_names (lp_name p) fs). content_of fs1 e = content_of fs e" using s by (simp_all add: same_log_def)
  then have "head_file (lp_name p) fs1 = head_file (lp_name p) fs \<and>
      content_of fs1 (head_file (lp_name p) fs) = content_of fs (head_file (lp_name p) fs)"
    by (simp add: head_file_def disk_names_def)
  then have "tail_written (lp_name p) fs1" using disk(2) same_log_text [OF s] by (simp add: tail_written_def)
  moreover have "map_of fs1 (lp_name p) \<noteq> None" using open_audit_cases [OF o(1)] by simp
  ultimately show ?thesis by (rule open_chained_step [OF name E uuid disk_holds_same [OF disk(1) s] _ _ o(2) op(2)])
qed

end
