(* ===== verification/AuditLog.thy ===== *)
theory AuditLog
  imports LogInvariant
begin

text \<open>
  The properties of the decision log: what its files hold after any sequence of operations, what a
  failure leaves behind, and where the recovery falls short.
\<close>

section \<open>Reachable logs\<close>

text \<open>A directory without a trace of the log: no segment, and no active file or an empty one.\<close>

definition fresh_dir :: "string \<Rightarrow> dir \<Rightarrow> bool" where
  "fresh_dir name fs \<longleftrightarrow> distinct_keys fs \<and> (map_of fs name = None \<or> map_of fs name = Some (Regular [])) \<and>
    list_all (\<lambda>(e, n). \<not> is_segment_name name e) fs"

text \<open>
  The logs a chained writer goes through, with the records appended so far and the latest rotation
  timestamp: it opens a fresh directory, appends and rotates successfully with clocks that do not
  go back, and is opened again by a new process.  Reading the size of the active file must not fail
  on reopening, and the file the head is read from must not be an empty segment after full ones.
\<close>

inductive log_reach ::
  "log_env \<Rightarrow> decision_record set \<Rightarrow> log_path \<Rightarrow> string \<Rightarrow> string \<Rightarrow> decision_record list \<Rightarrow> world \<Rightarrow> bool"
  for E R p key where
  opened: "fresh_dir (lp_name p) fs \<Longrightarrow> uuid_ok E (dw_chain_id dw) \<Longrightarrow> io_fault io (AtMeta (lp_name p)) = None \<Longrightarrow>
    open_internal E io dw p (Some key) rotation fs = (Inr log, fs') \<Longrightarrow> log_reach E R p key [] [] (fs', log)"
| appended: "log_reach E R p key latest rs w \<Longrightarrow> rec \<in> R \<Longrightarrow> latest \<le> dw_timestamp dw \<Longrightarrow>
    timestamp_ok (dw_timestamp dw) \<Longrightarrow> log_append E io dw rec w = Some (Inr (), w') \<Longrightarrow>
    log_reach E R p key (dw_timestamp dw) (rs @ [rec]) w'"
| rotated: "log_reach E R p key latest rs w \<Longrightarrow> latest \<le> dw_timestamp dw \<Longrightarrow> timestamp_ok (dw_timestamp dw) \<Longrightarrow>
    rotate_inner E io dw w = Some (Inr (), w') \<Longrightarrow> log_reach E R p key (dw_timestamp dw) rs w'"
| reopened: "log_reach E R p key latest rs (fs, log) \<Longrightarrow> uuid_ok E (dw_chain_id dw) \<Longrightarrow>
    io_fault io (AtMeta (lp_name p)) = None \<Longrightarrow> tail_written (lp_name p) fs \<Longrightarrow>
    open_internal E io dw p (Some key) rotation fs = (Inr log', fs') \<Longrightarrow> log_reach E R p key latest rs (fs', log')"

lemma fresh_dir_holds:
  assumes "fresh_dir name fs" "uuid_ok E ident"
  shows "disk_holds E R name key [] ident [] fs \<and> tail_written name fs"
proof -
  have ns: "\<not> is_segment_name name e" if "map_of fs e = Some n" for e n
    using assms(1) map_of_SomeD [OF that] by (auto simp: fresh_dir_def list_all_iff)
  have "filter (\<lambda>(e, n). is_segment_name name e \<and> n \<noteq> Special) fs = []"
    using assms(1) by (auto simp: fresh_dir_def list_all_iff filter_empty_conv)
  then have s: "segment_names name fs = []" by (simp add: segment_names_def)
  have c: "content_of fs name = []" using assms(1) by (auto simp: fresh_dir_def content_of_def)
  have "dir_ok name [] fs" using assms(1) ns by (auto simp: dir_ok_def fresh_dir_def)
  then show ?thesis
    using s c assms(2) by (simp add: disk_holds_def disk_text_def disk_names_def log_text_def log_lines_def closed_text_def tail_written_def head_file_def)
qed

lemma reach_inv:
  assumes "log_env_ok E R" "log_name_ok (lp_name p)"
  shows "log_reach E R p key latest rs w \<Longrightarrow> \<exists>ident. log_inv E R p key latest ident rs w"
proof (induction rule: log_reach.induct)
  case (opened fs dw io rotation log fs')
  then show ?case using open_internal_step [OF assms(2,1)] fresh_dir_holds by blast
next
  case (appended latest rs w rec dw io w')
  then show ?case using log_append_step [OF assms(2,1)] by (metis surj_pair)
next
  case (rotated latest rs w dw io w')
  then show ?case using rotate_inner_step [OF assms(2,1)] by (metis surj_pair)
next
  case (reopened latest rs fs log dw io rotation log' fs')
  then obtain ident where "log_inv E R p key latest ident rs (fs, log)" by blast
  then have "disk_holds E R (lp_name p) key latest ident rs fs" by (simp add: log_inv_def)
  then show ?case using open_internal_step [OF assms(2,1)] reopened by blast
qed

section \<open>Reading back\<close>

lemma rotated_logs_no_faults:
  assumes "lp_dir p \<noteq> []"
  shows "rotated_logs no_faults p fs = Inr (segment_names (lp_name p) fs)"
proof -
  have "scan_entries no_faults name fs = Inr (map fst (filter (\<lambda>(e, n). is_segment_name name e \<and> n \<noteq> Special) fs))" for name
  proof (induction fs)
    case (Cons x fs)
    then show ?case by (cases x; cases "is_segment_name name (fst x)") simp_all
  qed simp
  then show ?thesis using assms by (simp add: rotated_logs_def open_dir_def segment_names_def)
qed

lemma open_existing_no_faults:
  assumes "dir_ok name latest fs" "map_of fs name \<noteq> None" "e \<in> set (disk_names name fs)"
  shows "open_existing_audit_file no_faults d fs e = Inr (content_of fs e)"
proof -
  have "\<exists>c. map_of fs e = Some (Regular c)"
  proof (cases "e = name")
    case True
    obtain n where "map_of fs name = Some n" "n \<noteq> Special" using assms(1,2) by (auto simp: dir_ok_def)
    then show ?thesis using True by (cases n) auto
  next
    case False
    then obtain n where n: "(e, n) \<in> set fs" "is_segment_name name e" "n \<noteq> Special"
      using assms(3) by (auto simp: disk_names_def segment_names_def)
    then have "map_of fs e = Some n" using assms(1) by (intro map_of_is_SomeI) (simp_all add: dir_ok_def)
    then show ?thesis using n(3) by (cases n) auto
  qed
  then show ?thesis by (auto simp: open_existing_audit_file_def validate_audit_path_def content_of_def)
qed

lemma inv_lines:
  assumes "log_env_ok E R" "disk_holds E R name key latest ident rs fs"
  shows "text_lines (concat (map (content_of fs) (disk_names name fs)))
    = map (\<lambda>c. Inr (line_text E c)) (chained_of E key ident zero_hash rs)"
proof -
  have "\<forall>c \<in> set (chained_of E key ident zero_hash rs). chained_codec_ok E c"
    using chained_of_codec [OF assms(1)] assms(2) by (auto simp: disk_holds_def)
  from text_lines_log_lines [OF this] show ?thesis
    using assms(2) by (simp add: disk_holds_def disk_text_def log_text_def)
qed

lemma inv_verifies:
  assumes "log_env_ok E R" "lp_dir p \<noteq> []" "log_inv E R p key latest ident rs (fs, log)"
  shows "verify_chain E no_faults fresh p fs key = Inr (if rs = [] then fresh else ident)"
proof -
  let ?n = "lp_name p"
  have disk: "disk_holds E R ?n key latest ident rs fs" and act: "map_of fs ?n \<noteq> None"
    using assms(3) by (simp_all add: log_inv_def)
  have o: "\<forall>m \<in> set (disk_names ?n fs). open_existing_audit_file no_faults (lp_dir p) fs m = Inr (content_of fs m)
      \<and> closed_text (content_of fs m)"
    using open_existing_no_faults [OF _ act] disk by (auto simp: disk_holds_def list_all_iff)
  have root: "hc_root (chain_new key) = key" by (simp add: chain_new_def)
  have v: "verify_lines E (chain_new key) [] 0 (text_lines (concat (map (content_of fs) (disk_names ?n fs)))) (None, zero_hash, 0)
      = Inr (if rs = [] then None else Some ident, head_of E key zero_hash rs, 0 + length rs)"
    unfolding inv_lines [OF assms(1) disk]
    by (rule verify_linked_lines [OF assms(1) _ root]) (use disk in \<open>simp_all add: disk_holds_def zero_hash_def\<close>)
  have "verify_files E no_faults (chain_new key) (lp_dir p) fs (disk_names ?n fs) (None, zero_hash, 0)
      = Inr (if rs = [] then None else Some ident, head_of E key zero_hash rs, 0 + length rs)"
    by (rule verify_files_text [OF o v])
  then show ?thesis
    by (simp add: verify_chain_def verify_chain_paths_def rotated_logs_no_faults [OF assms(2)] disk_names_def)
qed

lemma parse_mixed_line:
  assumes "chained_codec_ok E c"
  shows "parse_mixed E path (line_text E c) i = Inr (cr_record c)"
  using chained_codec_okD(6,7) [OF assms] by (simp add: parse_mixed_def split: sum.splits)

lemma read_lines_line_texts:
  assumes "\<forall>c \<in> set cs. chained_codec_ok E c"
  shows "read_lines (parse_mixed E path) i (map (\<lambda>c. Inr (line_text E c)) cs) = Inr (map cr_record cs)"
  using assms
proof (induction cs arbitrary: i)
  case (Cons c cs)
  then have "trim (line_text E c) \<noteq> []" using trim_braces [OF chained_codec_okD(3,4,5)] chained_codec_okD(3) by simp
  then show ?case using Cons by (simp add: parse_mixed_line)
qed simp

lemma read_files_lines:
  assumes "\<forall>m \<in> set names. open_existing_audit_file io d fs m = Inr (content_of fs m)"
    and "\<forall>c \<in> set cs. chained_codec_ok E c"
    and "concat (map (\<lambda>m. text_lines (content_of fs m)) names) = map (\<lambda>c. Inr (line_text E c)) cs"
  shows "read_all_mixed_paths E io d fs names = Inr (map cr_record cs)"
  using assms
proof (induction names arbitrary: cs)
  case (Cons m names)
  have "text_lines (content_of fs m) @ concat (map (\<lambda>m. text_lines (content_of fs m)) names)
      = map (\<lambda>c. Inr (line_text E c)) cs"
    using Cons.prems(3) by simp
  then obtain us vs where uv: "cs = us @ vs" "text_lines (content_of fs m) = map (\<lambda>c. Inr (line_text E c)) us"
      "concat (map (\<lambda>m. text_lines (content_of fs m)) names) = map (\<lambda>c. Inr (line_text E c)) vs"
    by (auto simp: append_eq_map_conv)
  have "read_all_mixed_paths E io d fs names = Inr (map cr_record vs)"
    using Cons.prems(1,2) uv by (intro Cons.IH) auto
  then show ?case using Cons.prems(1,2) read_lines_line_texts [of us E] uv by simp
qed simp

lemma inv_reads:
  assumes "log_env_ok E R" "lp_dir p \<noteq> []" "log_inv E R p key latest ident rs (fs, log)"
  shows "read_all E no_faults p fs = Inr rs"
proof -
  let ?n = "lp_name p" and ?cs = "chained_of E key ident zero_hash rs"
  have disk: "disk_holds E R ?n key latest ident rs fs" and act: "map_of fs ?n \<noteq> None"
    using assms(3) by (simp_all add: log_inv_def)
  have o: "\<forall>m \<in> set (disk_names ?n fs). open_existing_audit_file no_faults (lp_dir p) fs m = Inr (content_of fs m)"
    using open_existing_no_faults [OF _ act] disk by (auto simp: disk_holds_def)
  have c: "\<forall>c \<in> set ?cs. chained_codec_ok E c"
    using chained_of_codec [OF assms(1)] disk by (auto simp: disk_holds_def)
  have "concat (map text_lines (map (content_of fs) (disk_names ?n fs))) = map (\<lambda>c. Inr (line_text E c)) ?cs"
    using inv_lines [OF assms(1) disk] text_lines_concat [of "map (content_of fs) (disk_names ?n fs)"] disk
    by (simp add: disk_holds_def)
  then have "read_all_mixed_paths E no_faults (lp_dir p) fs (disk_names ?n fs) = Inr (map cr_record ?cs)"
    using read_files_lines [OF o c] by (simp add: comp_def)
  then show ?thesis
    by (simp add: read_all_def rotated_logs_no_faults [OF assms(2)] disk_names_def chained_of_records)
qed

section \<open>An instance of the packages\<close>

definition sample_line :: "chained_record \<Rightarrow> string" where
  "sample_line c = ''{'' @ join_with CHR ''-'' (map (hex_encode plain_hex) [cr_prev_hash c, cr_record_hash c, cr_chain_id c]) @ ''}''"

definition sample_fields :: "string \<Rightarrow> string list" where
  "sample_fields s = map (\<lambda>x. case hex_decode plain_hex x of Inr b \<Rightarrow> b | Inl _ \<Rightarrow> []) (split_on CHR ''-'' (butlast (tl s)))"

definition sample_chained :: "decision_record \<Rightarrow> string \<Rightarrow> string + chained_record" where
  "sample_chained r s =
    (case sample_fields s of
       [a, b, i] \<Rightarrow> Inr \<lparr>cr_prev_hash = a, cr_record_hash = b, cr_chain_id = i, cr_record = r\<rparr>
     | _ \<Rightarrow> Inl ''not a record'')"

text \<open>An instance for one record \<open>r\<close>: lines of three hexadecimal fields, and a truncating hash.\<close>

definition sample_log_env :: "decision_record \<Rightarrow> log_env" where
  "sample_log_env r =
    \<lparr>le_hmac = (\<lambda>k m. take HASH_LEN (k @ rev m @ zero_hash)), le_text = plain_text, le_rec = sample_record_env,
     le_chained_to_vec = (\<lambda>c. Inr (sample_line c)), le_chained_from_str = sample_chained r,
     le_record_to_vec = (\<lambda>_. Inl ''unused''), le_record_from_str = (\<lambda>_. Inl ''not a plain record''),
     le_value_from_slice = (\<lambda>s. map_sum (\<lambda>e. e) (\<lambda>c. Object [(''record_hash'', String (cr_record_hash c)),
        (''chain_id'', String (cr_chain_id c))]) (sample_chained r (butlast s))),
     le_parse_uuid = Inr\<rparr>"

lemma utf8_valid_ascii: "\<forall>c \<in> set s. (of_char c :: nat) \<le> 127 \<Longrightarrow> utf8_valid s"
  by (induction s) (auto simp: utf8_lead_def Let_def)

lemma hex_digit_ascii: "d < 16 \<Longrightarrow> (of_char (hex_digit d) :: nat) \<le> 127 \<and> hex_digit d \<noteq> CHR 0x0A \<and> hex_digit d \<noteq> CHR ''-''"
  by (auto simp: hex_digit_def of_char_of char_of_eq_iff take_bit_eq_mod)

lemma hex_encode_ascii:
  assumes "x \<in> set (hex_encode plain_hex b)"
  shows "(of_char x :: nat) \<le> 127 \<and> x \<noteq> CHR 0x0A \<and> x \<noteq> CHR ''-''"
proof -
  obtain c where "x = hex_digit (of_char c div 16) \<or> x = hex_digit (of_char c mod 16)"
    using assms by (auto simp: plain_hex_def show_hex2_def)
  then show ?thesis using hex_digit_ascii [OF of_char_div [of c]] hex_digit_ascii [of "of_char c mod 16"] by auto
qed

lemma sample_log_env_ok: "log_env_ok (sample_log_env r) {r}"
proof -
  have codec: "chained_codec_ok (sample_log_env r) c" if c: "cr_record c = r" for c
  proof -
    let ?fs = "map (hex_encode plain_hex) [cr_prev_hash c, cr_record_hash c, cr_chain_id c]"
    have a: "(of_char x :: nat) \<le> 127 \<and> x \<noteq> CHR 0x0A" if "x \<in> set (sample_line c)" for x
      using that hex_encode_ascii by (auto simp: sample_line_def)
    have "split_on CHR ''-'' (join_with CHR ''-'' ?fs) = ?fs"
      by (rule split_on_join_with) (use hex_encode_ascii in auto)
    then have "sample_fields (sample_line c) = [cr_prev_hash c, cr_record_hash c, cr_chain_id c]"
      using plain_hex_ok by (simp add: sample_fields_def sample_line_def hex_codec_ok_def butlast_append del: join_with.simps)
    then have "sample_chained r (sample_line c) = Inr c"
      using c by (simp add: sample_chained_def)
    moreover have "utf8_valid (sample_line c)" using a by (intro utf8_valid_ascii) blast
    moreover have "CHR 0x0A \<notin> set (sample_line c)" using a by blast
    moreover have "sample_line c \<noteq> []" "hd (sample_line c) = CHR ''{''" "last (sample_line c) = CHR ''}''"
      by (simp_all add: sample_line_def)
    ultimately show ?thesis
      by (simp add: chained_codec_ok_def sample_log_env_def get_str_def)
  qed
  have "min a n + (min b (n - a) + (n - (a + b))) = n" for a b n :: nat
    by (simp add: min_def)
  then show ?thesis
    using codec plain_hex_ok
    by (simp add: log_env_ok_def uuid_ok_def sample_log_env_def sample_record_env_def zero_hash_def)
qed

section \<open>Appending without faults\<close>

definition tmp_free :: "draws \<Rightarrow> log_path \<Rightarrow> dir \<Rightarrow> bool" where
  "tmp_free dw p fs \<longleftrightarrow> map_of fs (''.'' @ chain_id_sidecar_name (lp_name p) @ ''.'' @ dw_tmp2 dw @ ''.new'') = None"

lemma ensure_sidecar_no_faults:
  assumes "lp_dir p \<noteq> []" "tmp_free dw p fs"
  shows "fst (ensure_sidecar E no_faults (dw_tmp2 dw) (lp_dir p) (chain_id_sidecar_name (lp_name p)) ident fs) = Inr ()"
  using assms by (simp add: ensure_sidecar_def write_chain_id_sidecar_def tmp_free_def open_dir_def)

lemma write_line_no_faults: "fst (write_line_durably no_faults name line fs) = Inr ()"
  by (simp add: write_line_durably_def)

lemma append_live:
  assumes E: "log_env_ok E R" and inv: "log_inv E R p key latest ident rs (fs, log)" and rec: "rec \<in> R"
    and dir: "lp_dir p \<noteq> []" "tmp_free dw p fs" and op: "dl_open log" "dl_rotation log = None"
  shows "\<exists>w'. log_append E no_faults dw rec (fs, log) = Some (Inr (), w') \<and> dl_open (snd w')"
proof -
  let ?c = "\<lparr>hc_root = key, hc_head = head_of E key zero_hash rs, hc_id = Some ident\<rparr>"
  have d: "dl_path log = p" "dl_sidecar log = chain_id_sidecar_name (lp_name p)" "dl_chain log = Some ?c" "uuid_ok E ident"
    using inv by (simp_all add: log_inv_def log_state_ok_def disk_holds_def)
  obtain r fs' log' where app: "append_chained E no_faults dw rec ?c (fs, log) = (r, (fs', log'))" by (metis surj_pair)
  have codec: "le_chained_to_vec E \<lparr>cr_prev_hash = a, cr_record_hash = b, cr_chain_id = ident, cr_record = rec\<rparr> \<noteq> Inl e" for a b e
  proof -
    have "chained_codec_ok E \<lparr>cr_prev_hash = a, cr_record_hash = b, cr_chain_id = ident, cr_record = rec\<rparr>"
      using E d(4) rec by (simp add: log_env_ok_def)
    then show ?thesis by (auto simp: chained_codec_ok_def)
  qed
  have id: "hc_id ?c = Some ident" by simp
  from id app have "r = Inr () \<and> dl_open log'"
  proof (cases rule: append_chained_cases)
    case (sidecar e)
    then show ?thesis using ensure_sidecar_no_faults [OF dir, of E ident] d by simp
  next
    case unavailable
    then show ?thesis using op by simp
  next
    case (written fs1 r1 h)
    have "r1 = Inr ()"
      using written(3) codec write_line_no_faults by (auto simp: persist_chained_def split: sum.splits) (metis fst_conv)
    then show ?thesis using written op by simp
  qed
  then show ?thesis using app op d by (simp add: log_append_def rotate_if_needed_def)
qed

text \<open>A disk that fails after three bytes of a line.\<close>

definition full_disk :: io_faults where
  "full_disk = \<lparr>io_fault = (\<lambda>s. if s = AtWrite then Some ''No space left on device (os error 28)'' else None), io_written = 3\<rparr>"

lemma write_line_full_disk: "fst (write_line_durably full_disk name line fs) \<noteq> Inr ()"
  by (simp add: write_line_durably_def full_disk_def attempt_def Let_def)

lemma append_full_disk:
  assumes inv: "log_inv E R p key latest ident rs (fs, log)" and op: "dl_rotation log = None"
  shows "\<exists>e fs' log'. log_append E full_disk dw rec (fs, log) = Some (Inl e, (fs', log'))"
proof -
  let ?c = "\<lparr>hc_root = key, hc_head = head_of E key zero_hash rs, hc_id = Some ident\<rparr>"
  have d: "dl_chain log = Some ?c" using inv by (simp add: log_inv_def log_state_ok_def)
  obtain r fs' log' where app: "append_chained E full_disk dw rec ?c (fs, log) = (r, (fs', log'))" by (metis surj_pair)
  have id: "hc_id ?c = Some ident" by simp
  from id app have "r \<noteq> Inr ()"
  proof (cases rule: append_chained_cases)
    case (written fs1 r1 h)
    then have "r1 \<noteq> Inr ()"
      using write_line_full_disk by (auto simp: persist_chained_def split: sum.splits) (metis fst_conv)
    then show ?thesis using written by blast
  qed simp_all
  then show ?thesis using app op d by (cases r) (auto simp: log_append_def rotate_if_needed_def)
qed

section \<open>A run of the log\<close>

definition sample_rec :: decision_record where
  "sample_rec = from_decision sample_record_env ''u'' 0 (sample_decision Deny (sample_request ''alice'')) None None"

definition sample_draws :: draws where
  "sample_draws = \<lparr>dw_timestamp = ''20250101T000000000000Z'', dw_chain_id = ''id'', dw_tmp1 = ''t1'', dw_tmp2 = ''t2''\<rparr>"

definition sample_path :: log_path where
  "sample_path = \<lparr>lp_dir = ''d'', lp_name = ''a.log''\<rparr>"

abbreviation sample_env :: log_env where
  "sample_env \<equiv> sample_log_env sample_rec"

definition sample_opened :: "decision_log core_result \<times> dir" where
  "sample_opened = open_internal sample_env no_faults sample_draws sample_path (Some ''k'') None []"

lemma sample_opened_ok:
  "\<not> isl (fst sample_opened) \<and> is_healthy (projr (fst sample_opened)) \<and> dl_rotation (projr (fst sample_opened)) = None \<and>
   tmp_free sample_draws sample_path (snd sample_opened)"
  by code_simp

lemma sample_draws_ok:
  "timestamp_ok (dw_timestamp sample_draws)" "[] \<le> dw_timestamp sample_draws" "lp_dir sample_path \<noteq> []"
  "log_name_ok (lp_name sample_path)"
  by code_simp+

lemma sample_log_reach:
  obtains fs log where "log_reach sample_env {sample_rec} sample_path ''k'' [] [] (fs, log)"
    "is_healthy log" "dl_rotation log = None" "tmp_free sample_draws sample_path fs"
proof -
  let ?log = "projr (fst sample_opened)" and ?fs = "snd sample_opened"
  have "sample_opened = (Inr ?log, ?fs)" using sample_opened_ok by (metis prod.collapse sum.collapse(2))
  then have "open_internal sample_env no_faults sample_draws sample_path (Some ''k'') None [] = (Inr ?log, ?fs)"
    by (simp only: sample_opened_def)
  then have "log_reach sample_env {sample_rec} sample_path ''k'' [] [] (?fs, ?log)"
    by (intro log_reach.opened [of _ "[]"]) (simp_all add: fresh_dir_def uuid_ok_def sample_log_env_def no_faults_def)
  with sample_opened_ok show thesis by (intro that) blast+
qed

section \<open>Properties\<close>


text \<open>
  C8: an append that returns an error has not damaged the log.  The bytes on disk before it, over all
  segments and the active file, are still there as a prefix, and the log refuses to call itself
  healthy, whichever of the file operations failed and however much of the line was written.
\<close>

theorem failed_append_keeps_log:
  assumes "log_env_ok E R" "log_name_ok (lp_name p)" "log_reach E R p key latest rs (fs, log)"
    and "rec \<in> R" "latest \<le> dw_timestamp dw" "timestamp_ok (dw_timestamp dw)"
    and "log_append E io dw rec (fs, log) = Some (Inl e, (fs', log'))"
  shows "(\<exists>t. disk_text (lp_name p) fs' = disk_text (lp_name p) fs @ t) \<and> \<not> is_healthy log'"
proof -
  obtain ident where "log_inv E R p key latest ident rs (fs, log)"
    using reach_inv [OF assms(1,2,3)] by blast
  from log_append_step [OF assms(2,1) this assms(4-7)] show ?thesis
    by (simp add: grows_def is_healthy_def)
qed

text \<open>
  C35: a healthy log without a rotation threshold, on a disk without faults, accepts every record, and
  stays healthy.
\<close>

theorem healthy_append_succeeds:
  assumes "log_env_ok E R" "log_name_ok (lp_name p)" "lp_dir p \<noteq> []" "log_reach E R p key latest rs (fs, log)"
    and "rec \<in> R" "is_healthy log" "dl_rotation log = None" "tmp_free dw p fs"
  shows "\<exists>w'. log_append E no_faults dw rec (fs, log) = Some (Inr (), w') \<and> is_healthy (snd w')"
proof -
  obtain ident where "log_inv E R p key latest ident rs (fs, log)"
    using reach_inv [OF assms(1,2,4)] by blast
  from append_live [OF assms(1) this assms(5,3,8)] show ?thesis using assms(6,7) by (simp add: is_healthy_def)
qed

text \<open>
  C36: the search for a free segment name ends: in a directory with fewer than 2^32 entries every
  append and every rotation returns, whatever fails on the way.
\<close>

theorem rotation_terminates:
  assumes "length fs \<le> u32_max"
  shows "rotate_inner E io dw (fs, log) \<noteq> None \<and> log_append E io dw rec (fs, log) \<noteq> None"
proof -
  have r: "rotate_inner E io dw (fs, log) \<noteq> None"
    using rotation_target_total [OF assms] by (simp add: rotate_inner_def)
  then have "rotate_if_needed E io dw (fs, log) \<noteq> None"
    by (simp add: rotate_if_needed_def Let_def split: option.split)
  then show ?thesis using r by (simp add: log_append_def)
qed



theorem failed_append_keeps_log_witness:
  "\<exists>fs log e fs' log'. log_append sample_env full_disk sample_draws sample_rec (fs, log) = Some (Inl e, (fs', log')) \<and>
     \<not> is_healthy log'"
proof -
  obtain fs log where r: "log_reach sample_env {sample_rec} sample_path ''k'' [] [] (fs, log)" "dl_rotation log = None"
    by (rule sample_log_reach)
  obtain ident where "log_inv sample_env {sample_rec} sample_path ''k'' [] ident [] (fs, log)"
    using reach_inv [OF sample_log_env_ok sample_draws_ok(4) r(1)] by blast
  then obtain e fs' log' where a: "log_append sample_env full_disk sample_draws sample_rec (fs, log) = Some (Inl e, (fs', log'))"
    using append_full_disk [OF _ r(2)] by blast
  have "sample_rec \<in> {sample_rec}" by simp
  then show ?thesis
    using failed_append_keeps_log [OF sample_log_env_ok sample_draws_ok(4) r(1) _ sample_draws_ok(2,1) a] a by blast
qed

theorem healthy_append_succeeds_witness:
  "\<exists>fs log w'. log_append sample_env no_faults sample_draws sample_rec (fs, log) = Some (Inr (), w') \<and> is_healthy (snd w')"
proof -
  obtain fs log where r: "log_reach sample_env {sample_rec} sample_path ''k'' [] [] (fs, log)"
      "is_healthy log" "dl_rotation log = None" "tmp_free sample_draws sample_path fs"
    by (rule sample_log_reach)
  from healthy_append_succeeds [OF sample_log_env_ok sample_draws_ok(4,3) r(1) _ r(2,3,4)] show ?thesis by blast
qed

definition sample_log :: decision_log where
  "sample_log = \<lparr>dl_path = sample_path, dl_sidecar = [], dl_rotation = Some 0, dl_open = True, dl_chain = None\<rparr>"

theorem rotation_terminates_witness:
  "length [(''a.log'', Regular [])] \<le> u32_max \<and>
   log_append sample_env full_disk sample_draws sample_rec ([(''a.log'', Regular [])], sample_log) \<noteq> None"
proof -
  have "length [(''a.log'', Regular [])] \<le> u32_max" by (simp add: u32_max_def)
  then show ?thesis using rotation_terminates [of "[(''a.log'', Regular [])]"] by blast
qed

section \<open>Where recovery falls short\<close>

text \<open>
  A log whose active file and latest segment are both empty, as after two rotations in a row, is
  reopened with the head of an empty chain, whatever the older segments hold.
\<close>

theorem reopening_forgets_head:
  assumes "io_fault io (AtMeta (lp_name p)) = None" "content_of fs (lp_name p) = []"
    and "segment_names (lp_name p) fs \<noteq> []" "content_of fs (last (segment_names (lp_name p) fs)) = []"
    and "open_chained E io dw p key rotation fs = (Inr log, fs')"
  shows "\<exists>c. dl_chain log = Some c \<and> hc_head c = zero_hash"
proof -
  have h: "head_file (lp_name p) fs = last (segment_names (lp_name p) fs)" using assms(2,3) by (simp add: head_file_def)
  obtain c1 c where c: "load_head_from_file E io fs (head_file (lp_name p) fs) (chain_new key) = (Inr (), c1)"
      "dl_chain log = Some c" "hc_head c = hc_head c1"
    using open_chained_Inr [OF assms(5,1)] by (auto simp: adopt_id_def chain_id_def split: option.splits)
  then have "c1 = chain_new key"
    using assms(4) by (auto simp: load_head_from_file_def h byte_lines_def split: sum.splits if_splits)
  then show ?thesis using c by (simp add: chain_new_def)
qed

text \<open>
  A chained log with a bare file name is never opened: the parent of such a path is the empty path,
  which cannot be listed.
\<close>

theorem bare_file_name_refused:
  assumes "lp_dir p = []"
  shows "\<not> is_ok (fst (open_chained E io dw p key rotation fs))"
  using assms by (simp add: open_chained_def rotated_logs_def open_dir_def Let_def)

end
