(* ===== verification/NetAddr.thy ===== *)
theory NetAddr
  imports Trace
begin

text \<open>
  Addresses of \<open>std::net\<close>: the parsers of \<open>IpAddr\<close> and \<open>SocketAddr\<close> in the order the standard library
  tries their alternatives, and the loopback test.  A parser takes the text left to read and returns
  its value with the rest of the text.
\<close>

section \<open>Addresses\<close>

datatype ip_addr = V4 "nat list" | V6 "nat list"

fun is_loopback :: "ip_addr \<Rightarrow> bool" where
  "is_loopback (V4 octets) = (octets ! 0 = 127)"
| "is_loopback (V6 groups) = (groups = [0, 0, 0, 0, 0, 0, 0, 1])"

text \<open>The flow label of a parsed address is always zero and is left out.\<close>

datatype socket_addr =
    SocketV4 (sa_octets: "nat list") (sa_port: nat)
  | SocketV6 (sa_groups: "nat list") (sa_port: nat) (sa_scope: nat)

fun addr_ip :: "socket_addr \<Rightarrow> ip_addr" where
  "addr_ip (SocketV4 octets port) = V4 octets"
| "addr_ip (SocketV6 groups port scope) = V6 groups"

section \<open>Parsers\<close>

fun read_char :: "char \<Rightarrow> string \<Rightarrow> string option" where
  "read_char c (x # s) = (if x = c then Some s else None)"
| "read_char c [] = None"

text \<open>Digits as long as they last: the value, their number and the rest; too many or too large is an error.\<close>

fun read_digits ::
  "(char \<Rightarrow> nat option) \<Rightarrow> nat \<Rightarrow> nat \<Rightarrow> nat option \<Rightarrow> nat \<Rightarrow> nat \<Rightarrow> string \<Rightarrow> (nat \<times> nat \<times> string) option" where
  "read_digits val radix bound digits acc n [] = Some (acc, n, [])"
| "read_digits val radix bound digits acc n (c # s) =
    (case val c of
       None \<Rightarrow> Some (acc, n, c # s)
     | Some d \<Rightarrow>
       if acc * radix + d > bound \<or> (case digits of Some m \<Rightarrow> Suc n > m | None \<Rightarrow> False) then None
       else read_digits val radix bound digits (acc * radix + d) (Suc n) s)"

definition read_number ::
  "(char \<Rightarrow> nat option) \<Rightarrow> nat \<Rightarrow> nat \<Rightarrow> nat option \<Rightarrow> bool \<Rightarrow> string \<Rightarrow> (nat \<times> string) option" where
  "read_number val radix bound digits allow_zero_prefix s =
    (case read_digits val radix bound digits 0 0 s of
       None \<Rightarrow> None
     | Some (v, n, rest) \<Rightarrow>
       if n = 0 then None
       else if \<not> allow_zero_prefix \<and> hd s = CHR ''0'' \<and> n > 1 then None
       else Some (v, rest))"

text \<open>An element of a sequence: every one but the first follows the separator.\<close>

definition read_separator :: "char \<Rightarrow> nat \<Rightarrow> (string \<Rightarrow> ('a \<times> string) option) \<Rightarrow> string \<Rightarrow> ('a \<times> string) option" where
  "read_separator sep index inner s =
    (if index > 0 then Option.bind (read_char sep s) inner else inner s)"

definition read_octet :: "string \<Rightarrow> (nat \<times> string) option" where
  "read_octet = read_number digit_value 10 255 (Some 3) False"

fun read_octets :: "nat \<Rightarrow> nat \<Rightarrow> string \<Rightarrow> (nat list \<times> string) option" where
  "read_octets 0 i s = Some ([], s)"
| "read_octets (Suc n) i s =
    Option.bind (read_separator CHR ''.'' i read_octet s) (\<lambda>(v, s).
    map_option (apfst ((#) v)) (read_octets n (Suc i) s))"

definition read_ipv4 :: "string \<Rightarrow> (nat list \<times> string) option" where
  "read_ipv4 = read_octets 4 0"

definition read_group :: "string \<Rightarrow> (nat \<times> string) option" where
  "read_group = read_number hex_value 16 65535 (Some 4) True"

text \<open>
  At most \<open>n\<close> more groups, the next with the given index: an embedded IPv4 address stands for two and
  ends the sequence, which the flag records.
\<close>

fun read_groups :: "nat \<Rightarrow> nat \<Rightarrow> string \<Rightarrow> nat list \<times> bool \<times> string" where
  "read_groups 0 i s = ([], False, s)"
| "read_groups (Suc n) i s =
    (case (if n > 0 then read_separator CHR '':'' i read_ipv4 s else None) of
       Some (v4, s) \<Rightarrow> ([v4 ! 0 * 256 + v4 ! 1, v4 ! 2 * 256 + v4 ! 3], True, s)
     | None \<Rightarrow>
       (case read_separator CHR '':'' i read_group s of
          None \<Rightarrow> ([], False, s)
        | Some (g, s) \<Rightarrow> apfst ((#) g) (read_groups n (Suc i) s)))"

definition read_ipv6 :: "string \<Rightarrow> (nat list \<times> string) option" where
  "read_ipv6 s =
    (let (head, head_ipv4, s) = read_groups 8 0 s in
     if length head = 8 then Some (head, s)
     else if head_ipv4 then None
     else Option.bind (strip_prefix ''::'' s) (\<lambda>s.
       let (tail, _, s) = read_groups (8 - (length head + 1)) 0 s
       in Some (head @ replicate (8 - length head - length tail) 0 @ tail, s)))"

definition read_port :: "string \<Rightarrow> (nat \<times> string) option" where
  "read_port s = Option.bind (read_char CHR '':'' s) (read_number digit_value 10 65535 None True)"

definition read_scope_id :: "string \<Rightarrow> (nat \<times> string) option" where
  "read_scope_id s = Option.bind (read_char CHR ''%'' s) (read_number digit_value 10 u32_max None True)"

text \<open>The IPv6 parser is tried only when the IPv4 one reads nothing; then the whole text must be used up.\<close>

definition parse_ip :: "string \<Rightarrow> ip_addr option" where
  "parse_ip s =
    (case (case read_ipv4 s of
             Some (o4, rest) \<Rightarrow> Some (V4 o4, rest)
           | None \<Rightarrow> map_option (apfst V6) (read_ipv6 s)) of
       Some (ip, []) \<Rightarrow> Some ip
     | _ \<Rightarrow> None)"

definition read_socket_v4 :: "string \<Rightarrow> (socket_addr \<times> string) option" where
  "read_socket_v4 s =
    Option.bind (read_ipv4 s) (\<lambda>(o4, s). map_option (apfst (SocketV4 o4)) (read_port s))"

definition read_socket_v6 :: "string \<Rightarrow> (socket_addr \<times> string) option" where
  "read_socket_v6 s =
    Option.bind (read_char CHR ''['' s) (\<lambda>s.
    Option.bind (read_ipv6 s) (\<lambda>(groups, s).
    let (scope, s) = (case read_scope_id s of Some r \<Rightarrow> r | None \<Rightarrow> (0, s)) in
    Option.bind (read_char CHR '']'' s) (\<lambda>s.
    map_option (apfst (\<lambda>port. SocketV6 groups port scope)) (read_port s))))"

definition parse_socket_addr :: "string \<Rightarrow> socket_addr option" where
  "parse_socket_addr s =
    (case (case read_socket_v4 s of Some r \<Rightarrow> Some r | None \<Rightarrow> read_socket_v6 s) of
       Some (a, []) \<Rightarrow> Some a
     | _ \<Rightarrow> None)"

section \<open>Well-formed addresses\<close>

fun socket_wf :: "socket_addr \<Rightarrow> bool" where
  "socket_wf (SocketV4 octets port) = (length octets = 4 \<and> list_all (\<lambda>b. b \<le> 255) octets \<and> port \<le> 65535)"
| "socket_wf (SocketV6 groups port scope) =
    (length groups = 8 \<and> list_all (\<lambda>g. g \<le> 65535) groups \<and> port \<le> 65535 \<and> scope \<le> u32_max)"

lemma read_digits_bound:
  "read_digits val radix bound digits acc n s = Some (v, m, rest) \<Longrightarrow> acc \<le> bound \<Longrightarrow> v \<le> bound"
  by (induction val radix bound digits acc n s rule: read_digits.induct) (auto split: option.splits if_splits)

lemma read_number_bound: "read_number val radix bound digits z s = Some (v, rest) \<Longrightarrow> v \<le> bound"
  by (auto simp: read_number_def split: option.splits if_splits dest: read_digits_bound)

lemma read_separatorD: "read_separator sep i inner s = Some r \<Longrightarrow> \<exists>s'. inner s' = Some r"
  by (auto simp: read_separator_def bind_eq_Some_conv split: if_splits)

lemma read_octets_wf:
  "read_octets n i s = Some (vs, rest) \<Longrightarrow> length vs = n \<and> list_all (\<lambda>b. b \<le> 255) vs"
proof (induction n arbitrary: i s vs rest)
  case (Suc n)
  then obtain v s1 ws where v: "read_separator CHR ''.'' i read_octet s = Some (v, s1)"
      "read_octets n (Suc i) s1 = Some (ws, rest)" "vs = v # ws"
    by (auto simp: bind_eq_Some_conv)
  then have "v \<le> 255" using read_separatorD [OF v(1)] by (auto simp: read_octet_def dest: read_number_bound)
  then show ?case using v Suc.IH [OF v(2)] by simp
qed simp

lemma read_ipv4_wf: "read_ipv4 s = Some (vs, rest) \<Longrightarrow> length vs = 4 \<and> list_all (\<lambda>b. b \<le> 255) vs"
  using read_octets_wf by (simp add: read_ipv4_def)

lemma octet_pairs:
  assumes "read_ipv4 s = Some (vs, rest)"
  shows "vs ! 0 * 256 + vs ! 1 \<le> 65535 \<and> vs ! 2 * 256 + vs ! 3 \<le> 65535"
proof -
  obtain a b c d where "vs = [a, b, c, d]" "a \<le> 255" "b \<le> 255" "c \<le> 255" "d \<le> 255"
    using read_ipv4_wf [OF assms] by (auto simp: length_Suc_conv numeral_eq_Suc)
  then show ?thesis by simp
qed

lemma read_groups_wf:
  "read_groups n i s = (gs, v4, rest) \<Longrightarrow> length gs \<le> n \<and> list_all (\<lambda>g. g \<le> 65535) gs"
proof (induction n arbitrary: i s gs v4 rest)
  case (Suc n)
  show ?case
  proof (cases "if n > 0 then read_separator CHR '':'' i read_ipv4 s else None")
    case (Some r)
    then have "n > 0" "read_separator CHR '':'' i read_ipv4 s = Some r" by (auto split: if_splits)
    then obtain s' vs rs where "read_ipv4 s' = Some (vs, rs)" "r = (vs, rs)"
      using read_separatorD by (metis surj_pair)
    then show ?thesis using Suc.prems Some octet_pairs \<open>n > 0\<close> by auto
  next
    case None
    show ?thesis
    proof (cases "read_separator CHR '':'' i read_group s")
      case none: None
      then show ?thesis using Suc.prems None by simp
    next
      case (Some r)
      obtain g s1 where r: "r = (g, s1)" by fastforce
      obtain hs b rs where h: "read_groups n (Suc i) s1 = (hs, b, rs)" by (metis surj_pair)
      have "g \<le> 65535" using read_separatorD [OF Some] r by (auto simp: read_group_def dest: read_number_bound)
      then show ?thesis using Suc.prems None Some r h Suc.IH [OF h] by auto
    qed
  qed
qed simp

lemma read_ipv6_wf:
  assumes "read_ipv6 s = Some (gs, rest)"
  shows "length gs = 8 \<and> list_all (\<lambda>g. g \<le> 65535) gs"
proof -
  obtain hs b s1 where h: "read_groups 8 0 s = (hs, b, s1)" by (metis surj_pair)
  note hw = read_groups_wf [OF h]
  show ?thesis
  proof (cases "length hs = 8")
    case True
    then show ?thesis using assms h hw by (simp add: read_ipv6_def)
  next
    case False
    then obtain s2 where s2: "strip_prefix ''::'' s1 = Some s2"
      using assms h by (auto simp: read_ipv6_def bind_eq_Some_conv split: if_splits)
    obtain ts c s3 where t: "read_groups (8 - (length hs + 1)) 0 s2 = (ts, c, s3)" by (metis surj_pair)
    then have "gs = hs @ replicate (8 - length hs - length ts) 0 @ ts"
      using assms h s2 False by (simp add: read_ipv6_def split: if_splits)
    then show ?thesis using hw read_groups_wf [OF t] False by (auto simp: list_all_iff)
  qed
qed

lemma parse_socket_addr_wf:
  assumes "parse_socket_addr s = Some a"
  shows "socket_wf a"
proof -
  have port: "n \<le> 65535" if "read_port u = Some (n, v)" for u n v
    using that by (auto simp: read_port_def bind_eq_Some_conv dest: read_number_bound)
  have scope: "n \<le> u32_max" if "read_scope_id u = Some (n, v)" for u n v
    using that by (auto simp: read_scope_id_def bind_eq_Some_conv dest: read_number_bound)
  have v4: "socket_wf b" if "read_socket_v4 s = Some (b, r)" for b r
    using that port by (auto simp: read_socket_v4_def bind_eq_Some_conv dest: read_ipv4_wf)
  have v6: "socket_wf b" if "read_socket_v6 s = Some (b, r)" for b r
    using that port scope read_ipv6_wf
    by (fastforce simp: read_socket_v6_def bind_eq_Some_conv Let_def split: option.splits prod.splits)
  show ?thesis
    using assms v4 v6 by (auto simp: parse_socket_addr_def split: option.splits list.splits)
qed

end
