(* ===== verification/Listener.thy ===== *)
theory Listener
  imports NetAddr Cache DecisionLog
begin

text \<open>
  Configuration of the server (\<open>agentguard-server/src/listener.rs\<close>, \<open>main.rs\<close>) and the checks \<open>run\<close>
  (\<open>server.rs\<close>) makes before it loads anything: where it listens, how callers authenticate, and which
  combinations of the two it refuses.  Errors are values that carry what their texts interpolate.
\<close>

section \<open>Listeners\<close>

datatype config_error =
    BadTcpAddr | BadTlsAddr | MalformedTlsQuery string | DuplicateTlsQuery string
  | TlsCertMissing | TlsKeyMissing | UnixNotImplemented | UnknownScheme string
  | AuthNotUnicode | EmptyKeyPath | UnknownAuthMode string | KeyFileMissing | KeyFileTwice
  | BadGrpcAddr string | GrpcNotLoopback | UnauthenticatedPublic
  | BadCacheConfig string | BadAuditRotation string | AuditRotationNotUnicode
  | TlsNotReadable string string string | TlsNotRegular string string | TlsEmpty string string

datatype listener = Tcp socket_addr | Tls (tls_addr: socket_addr) (tls_cert: string) (tls_key: string)

fun listener_addr :: "listener \<Rightarrow> socket_addr" where
  "listener_addr (Tcp addr) = addr"
| "listener_addr (Tls addr cert key) = addr"

definition is_public :: "listener \<Rightarrow> bool" where
  "is_public l = (\<not> is_loopback (addr_ip (listener_addr l)))"

fun tls_query :: "string list \<Rightarrow> (string \<times> string) list \<Rightarrow> config_error + (string \<times> string) list" where
  "tls_query [] parts = Inr parts"
| "tls_query (kv # kvs) parts =
    (case split_once CHR ''='' kv of
       None \<Rightarrow> Inl (MalformedTlsQuery kv)
     | Some (k, v) \<Rightarrow>
       if map_of parts k \<noteq> None then Inl (DuplicateTlsQuery k)
       else tls_query kvs (AList.update k v parts))"

definition listener_parse :: "string \<Rightarrow> config_error + listener" where
  "listener_parse s =
    (case strip_prefix ''tcp://'' s of
       Some rest \<Rightarrow> and_then (ok_or BadTcpAddr (parse_socket_addr rest)) (\<lambda>addr. Inr (Tcp addr))
     | None \<Rightarrow>
       (case strip_prefix ''tls://'' s of
          Some rest \<Rightarrow>
            (let (addr, qs) = (case split_once CHR ''?'' rest of Some (a, q) \<Rightarrow> (a, q) | None \<Rightarrow> (rest, [])) in
             and_then (tls_query (filter (\<lambda>kv. kv \<noteq> []) (split_on CHR ''&'' qs)) []) (\<lambda>parts.
             and_then (ok_or TlsCertMissing (map_of parts ''cert'')) (\<lambda>cert.
             and_then (ok_or TlsKeyMissing (map_of parts ''key'')) (\<lambda>key.
             and_then (ok_or BadTlsAddr (parse_socket_addr addr)) (\<lambda>addr. Inr (Tls addr cert key))))))
        | None \<Rightarrow>
          if starts_with s ''unix://'' then Inl UnixNotImplemented else Inl (UnknownScheme s)))"

section \<open>Authentication modes\<close>

datatype auth_config = AuthDisabled | AuthApiKey string

fun parse_env_value :: "string option \<Rightarrow> config_error + auth_config" where
  "parse_env_value None = Inr AuthDisabled"
| "parse_env_value (Some value) =
    (if value = [] \<or> value = ''disabled'' then Inr AuthDisabled
     else case strip_prefix ''apikey:'' value of
       Some path \<Rightarrow> if path \<noteq> [] then Inr (AuthApiKey path) else Inl EmptyKeyPath
     | None \<Rightarrow> Inl (UnknownAuthMode value))"

fun auth_from_env :: "env_var \<Rightarrow> config_error + auth_config" where
  "auth_from_env (EnvValue value) = parse_env_value (Some value)"
| "auth_from_env EnvAbsent = parse_env_value None"
| "auth_from_env EnvNotUnicode = Inl AuthNotUnicode"

text \<open>The command line of the binary: a mode and a key file.\<close>

definition cli_auth_config :: "string \<Rightarrow> string option \<Rightarrow> config_error + auth_config" where
  "cli_auth_config mode key_file =
    (if mode = ''disabled'' then Inr AuthDisabled
     else if mode = ''apikey'' then and_then (ok_or KeyFileMissing key_file) (\<lambda>path. Inr (AuthApiKey path))
     else if starts_with mode ''apikey:'' then
       (if key_file \<noteq> None then Inl KeyFileTwice
        else let path = strip_all (length mode) [''apikey:''] mode in
          if path = [] then Inl EmptyKeyPath else Inr (AuthApiKey path))
     else Inl (UnknownAuthMode mode))"

section \<open>Server configuration\<close>

record server_config =
  sc_listener :: listener
  sc_store_root :: string
  sc_audit_log :: "string option"
  sc_chain_secret :: "string option"
  sc_auth :: auth_config
  sc_grpc_listener :: "socket_addr option"

definition parse_grpc_listener :: "string option \<Rightarrow> config_error + socket_addr option" where
  "parse_grpc_listener value =
    (case value of
       None \<Rightarrow> Inr None
     | Some raw \<Rightarrow>
       if raw = [] then Inr None
       else and_then (ok_or (BadGrpcAddr raw) (parse_socket_addr raw)) (\<lambda>addr. Inr (Some addr)))"

definition env_or :: "env_var \<Rightarrow> string \<Rightarrow> string" where
  "env_or v dflt = (case env_ok v of Some s \<Rightarrow> s | None \<Rightarrow> dflt)"

definition config_from_env :: "(string \<Rightarrow> env_var) \<Rightarrow> config_error + server_config" where
  "config_from_env env =
    and_then (listener_parse (env_or (env ''AGENTGUARD_LISTEN'') ''tcp://127.0.0.1:8443'')) (\<lambda>listener.
    and_then (auth_from_env (env ''AGENTGUARD_AUTH'')) (\<lambda>auth.
    and_then (parse_grpc_listener (env_ok (env ''AGENTGUARD_GRPC_LISTEN''))) (\<lambda>grpc.
    Inr \<lparr>sc_listener = listener, sc_store_root = env_or (env ''AGENTGUARD_STORE'') ''.agentguard'',
      sc_audit_log = Some (env_or (env ''AGENTGUARD_AUDIT'') ''.audit/decisions.jsonl''),
      sc_chain_secret = env_ok (env ''AGENTGUARD_CHAIN_SECRET''), sc_auth = auth, sc_grpc_listener = grpc\<rparr>)))"

text \<open>The configuration \<open>main\<close> builds from its command line, and the remaining variable.\<close>

record cli_args =
  cli_listen :: string
  cli_store :: string
  cli_audit :: string
  cli_auth :: string
  cli_auth_key_file :: "string option"
  cli_grpc_listen :: string

definition cli_config :: "cli_args \<Rightarrow> env_var \<Rightarrow> config_error + server_config" where
  "cli_config cli chain_secret =
    and_then (listener_parse (cli_listen cli)) (\<lambda>listener.
    and_then (cli_auth_config (cli_auth cli) (cli_auth_key_file cli)) (\<lambda>auth.
    and_then (if cli_grpc_listen cli = [] then Inr None
        else and_then (ok_or (BadGrpcAddr (cli_grpc_listen cli)) (parse_socket_addr (cli_grpc_listen cli))) (\<lambda>addr. Inr (Some addr))) (\<lambda>grpc.
    Inr \<lparr>sc_listener = listener, sc_store_root = cli_store cli, sc_audit_log = Some (cli_audit cli),
      sc_chain_secret = env_ok chain_secret, sc_auth = auth, sc_grpc_listener = grpc\<rparr>)))"

section \<open>The checks before startup\<close>

text \<open>\<open>meta\<close> is \<open>std::fs::metadata\<close>: an error text, or whether the path is a regular file and its length.\<close>

fun validate_tls_files :: "(string \<Rightarrow> string + bool \<times> nat) \<Rightarrow> (string \<times> string) list \<Rightarrow> config_error + unit" where
  "validate_tls_files meta [] = Inr ()"
| "validate_tls_files meta ((label, path) # rest) =
    and_then (map_err (TlsNotReadable label path) (meta path)) (\<lambda>(is_file, len).
    if \<not> is_file then Inl (TlsNotRegular label path)
    else if len = 0 then Inl (TlsEmpty label path)
    else validate_tls_files meta rest)"

definition validate_tls_paths :: "(string \<Rightarrow> string + bool \<times> nat) \<Rightarrow> string \<Rightarrow> string \<Rightarrow> config_error + unit" where
  "validate_tls_paths meta cert key = validate_tls_files meta [(''cert'', cert), (''key'', key)]"

definition validate_grpc_listener :: "socket_addr \<Rightarrow> config_error + unit" where
  "validate_grpc_listener addr = (if \<not> is_loopback (addr_ip addr) then Inl GrpcNotLoopback else Inr ())"

definition parse_audit_rotation :: "string option \<Rightarrow> config_error + nat option" where
  "parse_audit_rotation value =
    (case value of
       None \<Rightarrow> Inr None
     | Some v \<Rightarrow> and_then (map_err BadAuditRotation (parse_rotation v)) (\<lambda>n. Inr (Some n)))"

definition validate_listener_security ::
  "listener \<Rightarrow> socket_addr option \<Rightarrow> auth_config \<Rightarrow> bool \<Rightarrow> config_error + unit" where
  "validate_listener_security l grpc auth allow_loopback_bypass =
    and_then (case grpc of Some addr \<Rightarrow> validate_grpc_listener addr | None \<Rightarrow> Inr ()) (\<lambda>_.
    if auth = AuthDisabled \<and> is_public l \<and> \<not> allow_loopback_bypass then Inl UnauthenticatedPublic
    else Inr ())"

definition ascii_lower :: "char \<Rightarrow> char" where
  "ascii_lower c = (let n = of_char c in if 65 \<le> n \<and> n \<le> (90 :: nat) then char_of (n + 32) else c)"

definition loopback_bypass :: "env_var \<Rightarrow> bool" where
  "loopback_bypass v = (case env_ok v of Some s \<Rightarrow> s = ''1'' \<or> map ascii_lower s = ''true'' | None \<Rightarrow> False)"

definition cache_env :: "(string \<Rightarrow> env_var) \<Rightarrow> string \<Rightarrow> string + string option" where
  "cache_env env name =
    (case env name of
       EnvValue v \<Rightarrow> Inr (Some v)
     | EnvAbsent \<Rightarrow> Inr None
     | EnvNotUnicode \<Rightarrow> Inl (name @ '' must be valid Unicode''))"

definition try_config_from_env :: "(string \<Rightarrow> string + duration) \<Rightarrow> (string \<Rightarrow> env_var) \<Rightarrow> string + cache_config" where
  "try_config_from_env parse_duration env =
    and_then (cache_env env ''AGENTGUARD_CACHE_TTL'') (\<lambda>ttl.
    and_then (cache_env env ''AGENTGUARD_DENY_CACHE_TTL'') (\<lambda>deny_ttl.
    and_then (cache_env env ''AGENTGUARD_CACHE_CAPACITY'') (\<lambda>capacity.
    try_config_from_overrides parse_duration ttl deny_ttl capacity)))"

text \<open>What \<open>run\<close> settles before it loads keys and policies: the cache limits, the rotation threshold, the bypass.\<close>

definition run_checks ::
  "(string \<Rightarrow> string + duration) \<Rightarrow> (string \<Rightarrow> string + bool \<times> nat) \<Rightarrow> (string \<Rightarrow> env_var) \<Rightarrow> server_config
    \<Rightarrow> config_error + cache_config \<times> nat option \<times> bool" where
  "run_checks parse_duration meta env cfg =
    and_then (map_err BadCacheConfig (try_config_from_env parse_duration env)) (\<lambda>cache.
    and_then (case env ''AGENTGUARD_AUDIT_MAX_BYTES'' of
        EnvValue v \<Rightarrow> parse_audit_rotation (Some v)
      | EnvAbsent \<Rightarrow> parse_audit_rotation None
      | EnvNotUnicode \<Rightarrow> Inl AuditRotationNotUnicode) (\<lambda>rotation.
    and_then (case sc_listener cfg of Tls _ cert key \<Rightarrow> validate_tls_paths meta cert key | Tcp _ \<Rightarrow> Inr ()) (\<lambda>_.
    let bypass = loopback_bypass (env ''AGENTGUARD_ALLOW_LOOPBACK_BYPASS'') in
    and_then (validate_listener_security (sc_listener cfg) (sc_grpc_listener cfg) (sc_auth cfg) bypass) (\<lambda>_.
    Inr (cache, rotation, bypass)))))"


section \<open>Properties\<close>

lemma listener_parse_addr_wf: "listener_parse s = Inr l \<Longrightarrow> socket_wf (listener_addr l)"
  by (auto simp: listener_parse_def result_simps parse_socket_addr_wf split: option.splits prod.splits)

lemma tls_query_pairs:
  "tls_query kvs parts = Inr out \<Longrightarrow>
    \<exists>ps. map (split_once CHR ''='') kvs = map Some ps \<and> distinct (map fst ps) \<and>
      (\<forall>k \<in> fst ` set ps. map_of parts k = None) \<and> map_of out = map_of parts ++ map_of ps"
proof (induction kvs parts rule: tls_query.induct)
  case (2 kv kvs parts)
  then obtain k v where kv: "split_once CHR ''='' kv = Some (k, v)" "map_of parts k = None"
      "tls_query kvs (AList.update k v parts) = Inr out"
    by (auto split: option.splits if_splits)
  from "2.IH" [OF kv(1) refl] kv obtain ps where ps: "map (split_once CHR ''='') kvs = map Some ps" "distinct (map fst ps)"
      "\<forall>j \<in> fst ` set ps. map_of (AList.update k v parts) j = None" "map_of out = map_of (AList.update k v parts) ++ map_of ps"
    by auto
  have "k \<notin> fst ` set ps" using ps(3) by (auto simp: update_conv')
  have n: "map_of parts j = None" if "j \<in> fst ` set ps" for j
    using ps(3) that by (auto simp: update_conv' split: if_splits)
  have "map_of out = map_of parts ++ map_of ((k, v) # ps)"
    using ps(4) \<open>k \<notin> fst ` set ps\<close> by (auto simp: update_conv' map_add_def fun_eq_iff map_of_eq_None_iff split: option.splits)
  moreover have "\<forall>j \<in> fst ` set ((k, v) # ps). map_of parts j = None" using n kv(2) by auto
  moreover have "distinct (map fst ((k, v) # ps))" "map (split_once CHR ''='') (kv # kvs) = map Some ((k, v) # ps)"
    using ps(1,2) kv(1) \<open>k \<notin> fst ` set ps\<close> by simp_all
  ultimately show ?case by blast
qed simp

text \<open>
  A listener the parser accepts has an address within the ranges of its family (four octets or
  eight groups, a 16-bit port).  A TCP listener is the address after its scheme; a TLS listener has a
  query of key-value pairs with distinct keys, and the certificate and the key are the values there.
\<close>

theorem parsed_listener_well_formed:
  assumes "listener_parse s = Inr l"
  shows "socket_wf (listener_addr l) \<and>
    (case l of
       Tcp a \<Rightarrow> \<exists>rest. s = ''tcp://'' @ rest \<and> parse_socket_addr rest = Some a
     | Tls a cert key \<Rightarrow> \<exists>addr q ps. s = ''tls://'' @ addr @ ''?'' @ q \<and> parse_socket_addr addr = Some a \<and>
         map (split_once CHR ''='') (filter (\<lambda>kv. kv \<noteq> []) (split_on CHR ''&'' q)) = map Some ps \<and>
         distinct (map fst ps) \<and> (''cert'', cert) \<in> set ps \<and> (''key'', key) \<in> set ps)"
proof (cases l)
  case (Tcp a)
  then obtain rest where "strip_prefix ''tcp://'' s = Some rest" "parse_socket_addr rest = Some a"
    using assms by (auto simp: listener_parse_def result_simps split: option.splits prod.splits if_splits)
  then have "s = ''tcp://'' @ rest \<and> parse_socket_addr rest = Some a" by (simp only: strip_prefix_Some)
  then show ?thesis using Tcp listener_parse_addr_wf [OF assms] by (simp only: listener.case) blast
next
  case (Tls a cert key)
  obtain rest where r: "strip_prefix ''tls://'' s = Some rest"
    and p: "(let (addr, qs) = (case split_once CHR ''?'' rest of Some (a, q) \<Rightarrow> (a, q) | None \<Rightarrow> (rest, [])) in
             and_then (tls_query (filter (\<lambda>kv. kv \<noteq> []) (split_on CHR ''&'' qs)) []) (\<lambda>parts.
             and_then (ok_or TlsCertMissing (map_of parts ''cert'')) (\<lambda>cert.
             and_then (ok_or TlsKeyMissing (map_of parts ''key'')) (\<lambda>key.
             and_then (ok_or BadTlsAddr (parse_socket_addr addr)) (\<lambda>addr. Inr (Tls addr cert key)))))) = Inr (Tls a cert key)"
    using assms Tls unfolding listener_parse_def
    by (auto simp: result_simps split: option.splits if_splits)
  have "split_once CHR ''?'' rest \<noteq> None"
  proof
    assume "split_once CHR ''?'' rest = None"
    then show False using p by simp
  qed
  then obtain addr q where q: "split_once CHR ''?'' rest = Some (addr, q)" by auto
  then obtain parts where parts: "tls_query (filter (\<lambda>kv. kv \<noteq> []) (split_on CHR ''&'' q)) [] = Inr parts"
      "map_of parts ''cert'' = Some cert" "map_of parts ''key'' = Some key" "parse_socket_addr addr = Some a"
    using p by (auto simp: result_simps)
  from tls_query_pairs [OF parts(1)] obtain ps
    where ps: "map (split_once CHR ''='') (filter (\<lambda>kv. kv \<noteq> []) (split_on CHR ''&'' q)) = map Some ps"
      "distinct (map fst ps)" "map_of parts = map_of ps" by auto
  moreover have "rest = addr @ ''?'' @ q" using q by (rule split_once_SomeD)
  moreover have "(''cert'', cert) \<in> set ps" "(''key'', key) \<in> set ps" using parts ps(3) by (simp_all add: map_of_SomeD)
  moreover have "s = ''tls://'' @ rest" using r by (simp only: strip_prefix_Some)
  ultimately show ?thesis using Tls parts(4) listener_parse_addr_wf [OF assms] by (simp only: listener.case) blast
qed

lemma read_octets_numeral:
  "read_octets (numeral v) i s =
    Option.bind (read_separator CHR ''.'' i read_octet s) (\<lambda>(x, s).
    map_option (apfst ((#) x)) (read_octets (pred_numeral v) (Suc i) s))"
  by (simp add: numeral_eq_Suc)

lemma read_groups_numeral:
  "read_groups (numeral v) i s =
    (case (if pred_numeral v > 0 then read_separator CHR '':'' i read_ipv4 s else None) of
       Some (v4, s) \<Rightarrow> ([v4 ! 0 * 256 + v4 ! 1, v4 ! 2 * 256 + v4 ! 3], True, s)
     | None \<Rightarrow>
       (case read_separator CHR '':'' i read_group s of
          None \<Rightarrow> ([], False, s)
        | Some (g, s) \<Rightarrow> apfst ((#) g) (read_groups (pred_numeral v) (Suc i) s)))"
  by (simp add: numeral_eq_Suc)

lemma replicate_pred_numeral: "replicate (numeral v) x = x # replicate (pred_numeral v) x"
  by (simp add: numeral_eq_Suc)

lemmas net_eval = parse_socket_addr_def read_socket_v4_def read_socket_v6_def read_ipv4_def read_ipv6_def read_separator_def
  read_octet_def read_group_def read_number_def read_port_def read_scope_id_def digit_value_def hex_value_def
  read_octets_numeral read_groups_numeral replicate_pred_numeral

theorem parsed_listener_well_formed_witness:
  "listener_parse ''tls://[::1]:8443?cert=c.pem&key=k.pem'' = Inr (Tls (SocketV6 [0, 0, 0, 0, 0, 0, 0, 1] 8443 0) ''c.pem'' ''k.pem'') \<and>
   socket_wf (SocketV6 [0, 0, 0, 0, 0, 0, 0, 1] 8443 0)"
proof -
  have p: "listener_parse ''tls://[::1]:8443?cert=c.pem&key=k.pem'' = Inr (Tls (SocketV6 [0, 0, 0, 0, 0, 0, 0, 1] 8443 0) ''c.pem'' ''k.pem'')"
    by (simp add: listener_parse_def split_once_def net_eval)
  from parsed_listener_well_formed [OF this] p show ?thesis by simp
qed

lemma loopback_bypassD:
  "loopback_bypass v \<Longrightarrow> \<exists>s. v = EnvValue s \<and> (s = ''1'' \<or> map ascii_lower s = ''true'')"
  by (cases v) (simp_all add: loopback_bypass_def)


end
