(* ===== verification/Revocation.thy ===== *)
theory Revocation
  imports Delegation NetAddr
begin

text \<open>
  Revocation of delegated grants: the port \<open>DelegationRevocationStore\<close> and the checks of the verifier
  that use it (\<open>agentguard-core/src/delegation.rs\<close>), and its adapter to a Redis-compatible service
  (\<open>agentguard-redis-store/src/lib.rs\<close>).  The URL, hash, hexadecimal and JSON packages and the service
  at the other end of the connection are parameters; time is given in whole Unix seconds.
\<close>

section \<open>The verifier\<close>

definition verify_with_revocation_store ::
  "jws_env \<Rightarrow> delegation_verifier \<Rightarrow> string \<Rightarrow> string \<Rightarrow> int \<Rightarrow> (string \<Rightarrow> int \<Rightarrow> 's \<Rightarrow> bool core_result \<times> 's)
    \<Rightarrow> 's \<Rightarrow> verified_delegation core_result \<times> 's" where
  "verify_with_revocation_store E V token expected_aud now is_revoked s =
    (case verify E V token expected_aud now of
       Inl e \<Rightarrow> (Inl e, s)
     | Inr verified \<Rightarrow>
       bind_step (is_revoked (jti (vd_claims verified)) now) (\<lambda>revoked s.
         if revoked then (Inl (TokenRevoked (jti (vd_claims verified))), s) else (Inr verified, s)) s)"

definition verifier_revoke ::
  "delegation_verifier \<Rightarrow> verified_delegation \<Rightarrow> (string \<Rightarrow> int \<Rightarrow> 's \<Rightarrow> unit core_result \<times> 's) \<Rightarrow> 's \<Rightarrow> unit core_result \<times> 's" where
  "verifier_revoke V verified revoke =
    revoke (jti (vd_claims verified)) (saturating_add (exp (vd_claims verified)) (dv_clock_skew V))"

section \<open>The adapter\<close>

record url =
  url_scheme :: string
  url_host :: "string option"
  url_username :: string
  url_password :: "string option"
  url_query :: "string option"
  url_fragment :: "string option"

record redis_env =
  rd_parse_url :: "string \<Rightarrow> url option"
  rd_client_built :: bool
  rd_sha256 :: "string \<Rightarrow> string"
  rd_hex :: hex_codec
  rd_from_slice :: "string \<Rightarrow> json option"

record redis_store =
  rs_endpoint :: url
  rs_bearer_token :: string
  rs_prefix :: string

definition MAX_RESPONSE_BYTES :: nat where
  "MAX_RESPONSE_BYTES = 256 * 1024"

definition local_http :: "url \<Rightarrow> bool" where
  "local_http u = (url_scheme u = ''http'' \<and>
    (case url_host u of
       None \<Rightarrow> False
     | Some host \<Rightarrow> host = ''localhost'' \<or> (case parse_ip host of Some ip \<Rightarrow> is_loopback ip | None \<Rightarrow> False)))"

definition with_prefix :: "redis_env \<Rightarrow> string \<Rightarrow> string \<Rightarrow> string \<Rightarrow> redis_store core_result" where
  "with_prefix E endpoint bearer_token prefix =
    and_then (ok_or (Other ''invalid Redis-compatible endpoint URL'') (rd_parse_url E endpoint)) (\<lambda>u.
    if url_scheme u \<noteq> ''https'' \<and> \<not> local_http u then
      Inl (Other ''Redis-compatible endpoint must use HTTPS (HTTP is allowed only on loopback)'')
    else if url_username u \<noteq> [] \<or> url_password u \<noteq> None \<or> url_query u \<noteq> None \<or> url_fragment u \<noteq> None then
      Inl (Other ''Redis-compatible endpoint must not contain credentials, query, or fragment'')
    else if bearer_token = [] \<or> length bearer_token > 8192 \<or> list_ex ascii_whitespace bearer_token then
      Inl (Other ''invalid Redis-compatible bearer token'')
    else if prefix = [] \<or> length prefix > 128 \<or> \<not> list_all (\<lambda>b. ascii_alphanumeric b \<or> b \<in> {CHR '':'', CHR ''_'', CHR ''-''}) prefix then
      Inl (Other ''invalid Redis key prefix'')
    else if \<not> rd_client_built E then Inl (Other ''could not initialize Redis-compatible HTTP client'')
    else Inr \<lparr>rs_endpoint = u, rs_bearer_token = bearer_token, rs_prefix = prefix\<rparr>)"

definition redis_new :: "redis_env \<Rightarrow> string \<Rightarrow> string \<Rightarrow> redis_store core_result" where
  "redis_new E endpoint bearer_token = with_prefix E endpoint bearer_token ''agentguard:delegation:revoked:''"

definition redis_key :: "redis_env \<Rightarrow> redis_store \<Rightarrow> string \<Rightarrow> string" where
  "redis_key E st token_id = rs_prefix st @ hex_encode (rd_hex E) (rd_sha256 E token_id)"

text \<open>What comes back over HTTP: nothing, or a status, a declared length, and chunks of which one may fail.\<close>

datatype http_reply = SendFailed | Response nat "nat option" "string option list"

fun read_body :: "string \<Rightarrow> string option list \<Rightarrow> string core_result" where
  "read_body body [] = Inr body"
| "read_body body (None # chunks) = Inl (Other ''Redis-compatible store response read failed'')"
| "read_body body (Some chunk # chunks) =
    (if length body + length chunk > MAX_RESPONSE_BYTES then
       Inl (Other ''Redis-compatible store response exceeded size limit'')
     else read_body (body @ chunk) chunks)"

fun read_reply :: "redis_env \<Rightarrow> http_reply \<Rightarrow> json core_result" where
  "read_reply E SendFailed = Inl (Other ''Redis-compatible store request failed'')"
| "read_reply E (Response status content_length chunks) =
    (if \<not> (200 \<le> status \<and> status \<le> 299) then
       Inl (Other (''Redis-compatible store returned HTTP '' @ show_nat status))
     else if (case content_length of Some n \<Rightarrow> n > MAX_RESPONSE_BYTES | None \<Rightarrow> False) then
       Inl (Other ''Redis-compatible store response exceeded size limit'')
     else
       and_then (read_body [] chunks) (\<lambda>body.
       and_then (ok_or (Other ''Redis-compatible store returned invalid JSON'') (rd_from_slice E body)) (\<lambda>payload.
       if get payload ''error'' \<noteq> None then Inl (Other ''Redis-compatible store rejected the command'')
       else ok_or (Other ''Redis-compatible store response is missing result'') (get payload ''result''))))"

text \<open>The service answers a command at a time, from its own state.\<close>

type_synonym 's service = "int \<Rightarrow> json \<Rightarrow> 's \<Rightarrow> http_reply \<times> 's"

definition command :: "redis_env \<Rightarrow> 's service \<Rightarrow> int \<Rightarrow> json \<Rightarrow> 's \<Rightarrow> json core_result \<times> 's" where
  "command E svc now cmd s = (let (reply, s) = svc now cmd s in (read_reply E reply, s))"

definition revoke_script :: string where
  "revoke_script = ''local ttl=redis.call('' @ [CHR 0x27] @ ''TTL'' @ [CHR 0x27] @ '',KEYS[1]); local requested=tonumber(ARGV[1]); if ttl == -2 or ttl == -1 or ttl < requested then redis.call('' @ [CHR 0x27] @ ''SET'' @ [CHR 0x27] @ '',KEYS[1],'' @ [CHR 0x27] @ ''1'' @ [CHR 0x27] @ '','' @ [CHR 0x27] @ ''EX'' @ [CHR 0x27] @ '',ARGV[1]); end; return 1''"

definition revoke_cmd :: "string \<Rightarrow> int \<Rightarrow> json" where
  "revoke_cmd key ttl = Array [String ''EVAL'', String revoke_script, String ''1'', String key, String (show_int ttl)]"

definition exists_cmd :: "string \<Rightarrow> json" where
  "exists_cmd key = Array [String ''EXISTS'', String key]"

text \<open>\<open>now\<close> is the system clock, in seconds from the epoch and negative before it.\<close>

definition redis_revoke ::
  "redis_env \<Rightarrow> redis_store \<Rightarrow> 's service \<Rightarrow> int \<Rightarrow> string \<Rightarrow> int \<Rightarrow> 's \<Rightarrow> unit core_result \<times> 's" where
  "redis_revoke E st svc now token_id retain_until s =
    (if token_id = [] then (Inl (Other ''delegation token id must not be empty''), s)
     else if now < 0 then (Inl (Other ''system clock is before Unix epoch''), s)
     else
       let remaining = retain_until - now in
       if remaining \<le> 0 then (Inr (), s)
       else if \<not> is_i64 (remaining + 1) then (Inl (Other ''delegation retention interval is too large''), s)
       else bind_step (command E svc now (revoke_cmd (redis_key E st token_id) (remaining + 1))) (\<lambda>result s.
         (if as_i64 result \<noteq> Some 1 then Inl (Other ''Redis-compatible store returned an invalid revoke result'') else Inr (), s)) s)"

definition redis_is_revoked ::
  "redis_env \<Rightarrow> redis_store \<Rightarrow> 's service \<Rightarrow> int \<Rightarrow> string \<Rightarrow> int \<Rightarrow> 's \<Rightarrow> bool core_result \<times> 's" where
  "redis_is_revoked E st svc now token_id now_unix s =
    (if token_id = [] then (Inl (Other ''delegation token id must not be empty''), s)
     else bind_step (command E svc now (exists_cmd (redis_key E st token_id))) (\<lambda>result s.
       (case as_i64 result of
          Some n \<Rightarrow> if n = 0 then Inr False else if n = 1 then Inr True
            else Inl (Other ''Redis-compatible store returned an invalid existence result'')
        | None \<Rightarrow> Inl (Other ''Redis-compatible store returned an invalid existence result''), s)) s)"

section \<open>The contract of a store\<close>

text \<open>The calls verifiers make, each with the time it is made at.\<close>

datatype store_op = StoreRevoke string int | StoreCheck string int

fun run_op ::
  "(int \<Rightarrow> string \<Rightarrow> int \<Rightarrow> 's \<Rightarrow> unit core_result \<times> 's) \<Rightarrow> (int \<Rightarrow> string \<Rightarrow> int \<Rightarrow> 's \<Rightarrow> bool core_result \<times> 's)
    \<Rightarrow> int \<times> store_op \<Rightarrow> 's \<Rightarrow> 's" where
  "run_op rv ck (t, StoreRevoke token_id retain) s = snd (rv t token_id retain s)"
| "run_op rv ck (t, StoreCheck token_id now) s = snd (ck t token_id now s)"

text \<open>
  The laws the documentation of the port asks for.  \<open>retained token_id d s\<close> says that the state \<open>s\<close>
  remembers the revocation at every time before \<open>d\<close>.
\<close>

locale revocation_store =
  fixes revoke :: "int \<Rightarrow> string \<Rightarrow> int \<Rightarrow> 's \<Rightarrow> unit core_result \<times> 's"
    and is_revoked :: "int \<Rightarrow> string \<Rightarrow> int \<Rightarrow> 's \<Rightarrow> bool core_result \<times> 's"
    and retained :: "string \<Rightarrow> int \<Rightarrow> 's \<Rightarrow> bool"
  assumes revoke_retains: "revoke t token_id d s = (Inr (), s') \<Longrightarrow> t < d \<Longrightarrow> retained token_id d s'"
    and revoke_keeps: "retained token_id d s \<Longrightarrow> t < d \<Longrightarrow> retained token_id d (snd (revoke t other d' s))"
    and check_keeps: "retained token_id d s \<Longrightarrow> t < d \<Longrightarrow> retained token_id d (snd (is_revoked t other now s))"
    and retained_reported: "retained token_id d s \<Longrightarrow> t < d \<Longrightarrow> fst (is_revoked t token_id now s) \<noteq> Inr False"
begin

lemma run_keeps:
  "retained token_id d s \<Longrightarrow> \<forall>op \<in> set ops. fst op < d \<Longrightarrow> retained token_id d (fold (run_op revoke is_revoked) ops s)"
proof (induction ops arbitrary: s)
  case (Cons op ops)
  obtain t x where op: "op = (t, x)" by fastforce
  then have "retained token_id d (run_op revoke is_revoked op s)"
    using Cons.prems revoke_keeps check_keeps by (cases x) auto
  then show ?case using Cons by simp
qed simp

lemma revoked_stays_revoked:
  assumes "revoke t0 token_id d s = (Inr (), s1)" "t0 \<le> t" "t < d" "\<forall>op \<in> set ops. fst op \<le> t"
  shows "fst (is_revoked t token_id now (fold (run_op revoke is_revoked) ops s1)) \<noteq> Inr False"
proof -
  have "retained token_id d s1" using revoke_retains [OF assms(1)] assms(2,3) by simp
  then show ?thesis using run_keeps [of token_id d s1 ops] retained_reported assms(3,4) by fastforce
qed

end

section \<open>The service\<close>

text \<open>
  What the Redis documentation says of the two commands the adapter sends.  \<open>expiry s k\<close> is the time
  at which the key \<open>k\<close> disappears.  The script answers 1 once the key is kept for the requested time,
  up to the second that the rounding of \<open>TTL\<close> may cost; no command shortens the life of a key; and
  \<open>EXISTS\<close> does not answer 0 for a live key.  A reply may be lost or refused at any time.
\<close>

locale redis_service =
  fixes E :: redis_env and svc :: "'s service" and expiry :: "'s \<Rightarrow> string \<Rightarrow> int option"
  assumes eval_sets: "read_reply E (fst (svc t (revoke_cmd k ttl) s)) = Inr v \<Longrightarrow> as_i64 v = Some 1 \<Longrightarrow>
      \<exists>e. expiry (snd (svc t (revoke_cmd k ttl) s)) k = Some e \<and> t + ttl - 1 \<le> e"
    and eval_keeps: "expiry s k = Some e \<Longrightarrow> t < e \<Longrightarrow> \<exists>e' \<ge> e. expiry (snd (svc t (revoke_cmd k' ttl) s)) k = Some e'"
    and exists_keeps: "expiry s k = Some e \<Longrightarrow> t < e \<Longrightarrow> \<exists>e' \<ge> e. expiry (snd (svc t (exists_cmd k') s)) k = Some e'"
    and exists_reports: "expiry s k = Some e \<Longrightarrow> t < e \<Longrightarrow>
      read_reply E (fst (svc t (exists_cmd k) s)) = Inr v \<Longrightarrow> as_i64 v \<noteq> Some 0"

definition redis_retained :: "redis_env \<Rightarrow> redis_store \<Rightarrow> ('s \<Rightarrow> string \<Rightarrow> int option) \<Rightarrow> string \<Rightarrow> int \<Rightarrow> 's \<Rightarrow> bool" where
  "redis_retained E st expiry token_id d s \<longleftrightarrow> token_id \<noteq> [] \<and> (\<exists>e. expiry s (redis_key E st token_id) = Some e \<and> d \<le> e)"

lemma redis_revoke_state:
  "snd (redis_revoke E st svc t token_id d s) \<in> {s, snd (svc t (revoke_cmd (redis_key E st token_id) (d - t + 1)) s)}"
  by (auto simp: redis_revoke_def command_def bind_step_def Let_def split: prod.splits sum.splits if_splits)

lemma redis_check_state:
  "snd (redis_is_revoked E st svc t token_id now s) \<in> {s, snd (svc t (exists_cmd (redis_key E st token_id)) s)}"
  by (auto simp: redis_is_revoked_def command_def bind_step_def Let_def split: prod.splits sum.splits)

sublocale redis_service \<subseteq> store: revocation_store "redis_revoke E st svc" "redis_is_revoked E st svc" "redis_retained E st expiry"
proof
  fix t token_id d s s'
  assume r: "redis_revoke E st svc t token_id d s = (Inr (), s')" and d: "t < d"
  let ?c = "revoke_cmd (redis_key E st token_id) (d - t + 1)"
  obtain v where v: "token_id \<noteq> []" "read_reply E (fst (svc t ?c s)) = Inr v" "as_i64 v = Some 1" "s' = snd (svc t ?c s)"
    using r d by (auto simp: redis_revoke_def command_def bind_step_def Let_def split: prod.splits sum.splits if_splits)
  then show "redis_retained E st expiry token_id d s'" using eval_sets [OF v(2,3)] by (auto simp: redis_retained_def)
next
  fix t token_id d s other d'
  assume r: "redis_retained E st expiry token_id d s" and d: "t < d"
  then obtain e where e: "token_id \<noteq> []" "expiry s (redis_key E st token_id) = Some e" "d \<le> e" "t < e"
    by (auto simp: redis_retained_def)
  show "redis_retained E st expiry token_id d (snd (redis_revoke E st svc t other d' s))"
  proof (cases "snd (redis_revoke E st svc t other d' s) = s")
    case True
    then show ?thesis using r by simp
  next
    case False
    then have "snd (redis_revoke E st svc t other d' s) = snd (svc t (revoke_cmd (redis_key E st other) (d' - t + 1)) s)"
      using redis_revoke_state [of E st svc t other d' s] by simp
    then show ?thesis using eval_keeps [OF e(2,4)] e(1,3) by (metis order_trans redis_retained_def)
  qed
  fix now
  show "redis_retained E st expiry token_id d (snd (redis_is_revoked E st svc t other now s))"
  proof (cases "snd (redis_is_revoked E st svc t other now s) = s")
    case True
    then show ?thesis using r by simp
  next
    case False
    then have "snd (redis_is_revoked E st svc t other now s) = snd (svc t (exists_cmd (redis_key E st other)) s)"
      using redis_check_state [of E st svc t other now s] by simp
    then show ?thesis using exists_keeps [OF e(2,4)] e(1,3) by (metis order_trans redis_retained_def)
  qed
next
  fix t token_id d s now
  assume r: "redis_retained E st expiry token_id d s" and d: "t < d"
  then obtain e where e: "token_id \<noteq> []" "expiry s (redis_key E st token_id) = Some e" "t < e"
    by (auto simp: redis_retained_def)
  show "fst (redis_is_revoked E st svc t token_id now s) \<noteq> Inr False"
    using exists_reports [OF e(2,3)] e(1)
    by (auto simp: redis_is_revoked_def command_def bind_step_def split: prod.splits sum.splits option.splits if_splits)
qed

context redis_service
begin

lemmas redis_stays_revoked = store.revoked_stays_revoked

end

section \<open>A service in memory\<close>

text \<open>An instance of the laws: the expiry times of the keys, and replies of one digit.\<close>

definition mini_env :: redis_env where
  "mini_env =
    \<lparr>rd_parse_url = (\<lambda>s. Some \<lparr>url_scheme = ''https'', url_host = Some s, url_username = [], url_password = None,
        url_query = None, url_fragment = None\<rparr>),
     rd_client_built = True, rd_sha256 = (\<lambda>s. s), rd_hex = plain_hex,
     rd_from_slice = (\<lambda>s. if s = ''0'' then Some (Object [(''result'', json_of_i64 0)])
       else if s = ''1'' then Some (Object [(''result'', json_of_i64 1)]) else None)\<rparr>"

definition mini_reply :: "string \<Rightarrow> http_reply" where
  "mini_reply body = Response 200 (Some (length body)) [Some body]"

fun mini_redis :: "(string \<times> int) list service" where
  "mini_redis t (Array [String cmd, String key]) s =
    (mini_reply (case map_of s key of Some e \<Rightarrow> if t < e then ''1'' else ''0'' | None \<Rightarrow> ''0''), s)"
| "mini_redis t (Array [String cmd, String script, String n, String key, String ttl]) s =
    (case parse_uint u64_max ttl of
       None \<Rightarrow> (SendFailed, s)
     | Some d \<Rightarrow>
       (mini_reply ''1'', if (case map_of s key of Some e \<Rightarrow> e < t + int d | None \<Rightarrow> True) then AList.update key (t + int d) s else s))"
| "mini_redis t cmd s = (SendFailed, s)"

lemma mini_reply_value:
  "read_reply mini_env (mini_reply ''0'') = Inr (json_of_i64 0)" "read_reply mini_env (mini_reply ''1'') = Inr (json_of_i64 1)"
  by (simp_all add: mini_reply_def mini_env_def MAX_RESPONSE_BYTES_def)

lemma parse_uint_show_int: "parse_uint m (show_int i) = Some n \<Longrightarrow> int n = i"
proof (cases "i < 0")
  case True
  have "digit_value CHR ''-'' = None" by (simp add: digit_value_def)
  then have "parse_uint m (CHR ''-'' # s) = None" for s by (cases s) (simp_all add: parse_uint_def)
  then show "parse_uint m (show_int i) = Some n \<Longrightarrow> int n = i" using True by (simp add: show_int_def)
next
  case False
  assume "parse_uint m (show_int i) = Some n"
  then have "parse_uint (max m (nat i)) (show_nat (nat i)) = Some n"
    using False parse_uint_mono [of m _ n "max m (nat i)"] by (simp add: show_int_def)
  then show "int n = i" using False parse_uint_show_nat [of "nat i" "max m (nat i)"] by simp
qed

interpretation mini: redis_service mini_env mini_redis map_of
proof
  fix t k ttl s v
  assume "read_reply mini_env (fst (mini_redis t (revoke_cmd k ttl) s)) = Inr v" "as_i64 v = Some 1"
  then show "\<exists>e. map_of (snd (mini_redis t (revoke_cmd k ttl) s)) k = Some e \<and> t + ttl - 1 \<le> e"
    using parse_uint_show_int [of u64_max ttl]
    by (auto simp: revoke_cmd_def update_conv' not_less split: option.splits)
next
  fix s :: "(string \<times> int) list" and k e t k' ttl
  assume "map_of s k = Some e" "t < (e :: int)"
  then show "\<exists>e' \<ge> e. map_of (snd (mini_redis t (revoke_cmd k' ttl) s)) k = Some e'"
    by (auto simp: revoke_cmd_def update_conv' split: option.splits)
  show "\<exists>e' \<ge> e. map_of (snd (mini_redis t (exists_cmd k') s)) k = Some e'"
    using \<open>map_of s k = Some e\<close> by (simp add: exists_cmd_def)
next
  fix s :: "(string \<times> int) list" and k e t v
  assume "map_of s k = Some e" "t < (e :: int)" "read_reply mini_env (fst (mini_redis t (exists_cmd k) s)) = Inr v"
  then show "as_i64 v \<noteq> Some 0"
    using mini_reply_value by (auto simp: exists_cmd_def json_of_i64_def split: if_splits)
qed

section \<open>Properties\<close>

lemma verify_claims:
  assumes "verify E V token expected_aud now = Inr vd"
  shows "\<exists>h p g header sig. token_decodes E token h p g header (vd_claims vd) sig"
    and "claims_valid_at (vd_claims vd) (dv_clock_skew V) expected_aud now"
proof -
  from assms [unfolded verify_Inr] obtain h p g header claims sig where
    "token_decodes E token h p g header claims sig" "claims_valid_at claims (dv_clock_skew V) expected_aud now" "vd_claims vd = claims"
    by fastforce
  then show "\<exists>h p g header sig. token_decodes E token h p g header (vd_claims vd) sig"
    "claims_valid_at (vd_claims vd) (dv_clock_skew V) expected_aud now" by blast+
qed

lemma token_decodes_claims:
  "token_decodes E token h p g header c sig \<Longrightarrow> token_decodes E token h' p' g' header' c' sig' \<Longrightarrow> c = c'"
  by (auto simp: token_decodes_def)

text \<open>
  C13: once a verifier has revoked a grant through the Redis store and the store has answered \<open>Ok\<close>, no
  verifier with the same store accepts the token again.  Other verifiers may check and revoke in
  between, in any order; replies may be lost; the revocation is kept as long as the token could
  otherwise be accepted, the clock skew included.
\<close>

theorem revoked_grant_never_verifies:
  fixes svc :: "'s service"
  assumes "redis_service R svc expiry" "verify E V0 token audience0 now0 = Inr vd"
    and "verifier_revoke V0 vd (redis_revoke R st svc t0) s = (Inr (), s1)"
    and "t0 \<le> now" "\<forall>op \<in> set ops. fst op \<le> now" "dv_clock_skew V \<le> dv_clock_skew V0"
  shows "\<not> is_ok (fst (verify_with_revocation_store E V token audience now (redis_is_revoked R st svc now)
    (fold (run_op (redis_revoke R st svc) (redis_is_revoked R st svc)) ops s1)))"
proof (cases "verify E V token audience now")
  case (Inl e)
  then show ?thesis by (simp add: verify_with_revocation_store_def)
next
  case (Inr vd')
  let ?s = "fold (run_op (redis_revoke R st svc) (redis_is_revoked R st svc)) ops s1"
  have c: "vd_claims vd' = vd_claims vd"
    using verify_claims(1) [OF Inr] verify_claims(1) [OF assms(2)] token_decodes_claims by blast
  have "now < saturating_add (exp (vd_claims vd)) (dv_clock_skew V)"
    using verify_claims(2) [OF Inr] c by (simp add: claims_valid_at_def)
  then have "now < saturating_add (exp (vd_claims vd)) (dv_clock_skew V0)"
    using assms(6) unfolding saturating_add_def by linarith
  then have "fst (redis_is_revoked R st svc now (jti (vd_claims vd)) now ?s) \<noteq> Inr False"
    using redis_service.redis_stays_revoked [OF assms(1) _ assms(4) _ assms(5)] assms(3) by (simp add: verifier_revoke_def)
  then show ?thesis
    using Inr c by (auto simp: verify_with_revocation_store_def bind_step_def split: prod.splits sum.splits)
qed

definition mini_store :: redis_store where
  "mini_store = projr (redis_new mini_env ''redis.example'' ''token'')"

lemma mini_revoke:
  assumes "token_id \<noteq> []" "0 < t" "t < d" "d \<le> i64_max"
  shows "fst (redis_revoke mini_env mini_store mini_redis t token_id d s) = Inr ()"
proof -
  have i: "is_i64 (d - t + 1)" using assms by (simp add: is_i64_def i64_min_def i64_max_def)
  have "nat (d - t + 1) \<le> u64_max" using assms by (simp add: u64_max_def i64_max_def)
  then have "parse_uint u64_max (show_int (d - t + 1)) = Some (nat (d - t + 1))"
    using assms(3) parse_uint_show_nat by (simp add: show_int_def)
  moreover have "as_i64 (json_of_i64 1) = Some 1" by (simp add: json_of_i64_def i64_max_def)
  ultimately show ?thesis
    using assms i mini_reply_value by (simp add: redis_revoke_def bind_step_def command_def revoke_cmd_def Let_def)
qed

theorem revoked_grant_never_verifies_witness:
  "\<exists>token vd s1. verify (demo_env demo_claims) demo_verifier token ''api'' 150 = Inr vd \<and>
     verifier_revoke demo_verifier vd (redis_revoke mini_env mini_store mini_redis 150) [] = (Inr (), s1) \<and>
     \<not> is_ok (fst (verify_with_revocation_store (demo_env demo_claims) demo_verifier token ''api'' 200
       (redis_is_revoked mini_env mini_store mini_redis 200)
       (fold (run_op (redis_revoke mini_env mini_store mini_redis) (redis_is_revoked mini_env mini_store mini_redis))
         [(160, StoreRevoke ''t2'' 400), (170, StoreCheck ''t2'' 170)] s1)))"
proof -
  obtain tok :: delegation_token where v: "verify (demo_env demo_claims) demo_verifier (dt_jws tok) ''api'' 150 = Inr demo_parent"
    using demo_verify by blast
  have c: "jti (vd_claims demo_parent) \<noteq> [] \<and> 150 < saturating_add (exp (vd_claims demo_parent)) (dv_clock_skew demo_verifier) \<and>
      saturating_add (exp (vd_claims demo_parent)) (dv_clock_skew demo_verifier) \<le> i64_max"
    using verify_claims(2) [OF v] by (auto simp: claims_valid_at_def saturating_add_def i64_min_def i64_max_def trim_def trim_start_def trim_end_def)
  then obtain s1 where r: "verifier_revoke demo_verifier demo_parent (redis_revoke mini_env mini_store mini_redis 150) [] = (Inr (), s1)"
    using mini_revoke [of _ 150] by (metis verifier_revoke_def prod.collapse zero_less_numeral)
  from revoked_grant_never_verifies [OF mini.redis_service_axioms v r, where now = 200 and V = demo_verifier
      and ops = "[(160, StoreRevoke ''t2'' 400), (170, StoreCheck ''t2'' 170)]"]
  show ?thesis using v r by (simp only: list.set) (auto simp del: fold.simps)
qed

end
