(* ===== verification/AuthError.thy ===== *)
theory AuthError
  imports Prelude
begin

text \<open>The errors of the authentication crate (\<open>agentguard-auth/src/error.rs\<close>).\<close>

datatype auth_error =
    JwtInvalid string
  | JwtExpired
  | JwtAudienceMismatch string string
  | JwtIssuerMismatch string string
  | JwtUnknownKid string
  | OidcDiscovery string
  | JwksFetch string
  | DpopInvalid string
  | DpopHtuMismatch string string
  | DpopReplay string
  | DpopCapacityExceeded
  | SpiffeFetch string
  | SpiffeExpired
  | ApiKeyInvalid
  | ApiKeyExpired
  | ApiKeyRevoked
  | ClockError string
  | AuthOther string

type_synonym 'a auth_result = "auth_error + 'a"

fun show_auth_error :: "auth_error \<Rightarrow> string" where
  "show_auth_error (JwtInvalid e) = ''jwt invalid: '' @ e"
| "show_auth_error JwtExpired = ''jwt expired''"
| "show_auth_error (JwtAudienceMismatch x y) = ''jwt audience mismatch: expected '' @ x @ '', got '' @ y"
| "show_auth_error (JwtIssuerMismatch x y) = ''jwt issuer mismatch: expected '' @ x @ '', got '' @ y"
| "show_auth_error (JwtUnknownKid k) = ''jwt unknown key id: '' @ k"
| "show_auth_error (OidcDiscovery e) = ''oidc discovery failed: '' @ e"
| "show_auth_error (JwksFetch e) = ''jwks fetch failed: '' @ e"
| "show_auth_error (DpopInvalid e) = ''dpop invalid: '' @ e"
| "show_auth_error (DpopHtuMismatch x y) = ''dpop htu mismatch: expected '' @ x @ '', got '' @ y"
| "show_auth_error (DpopReplay j) = ''dpop replay detected (jti='' @ j @ '')''"
| "show_auth_error DpopCapacityExceeded = ''dpop replay tracker capacity exceeded''"
| "show_auth_error (SpiffeFetch e) = ''spiffe fetch failed: '' @ e"
| "show_auth_error SpiffeExpired = ''spiffe identity expired''"
| "show_auth_error ApiKeyInvalid = ''api key invalid''"
| "show_auth_error ApiKeyExpired = ''api key expired''"
| "show_auth_error ApiKeyRevoked = ''api key revoked''"
| "show_auth_error (ClockError e) = ''clock error: '' @ e"
| "show_auth_error (AuthOther e) = ''other: '' @ e"

end
