(* ===== verification/JtiTracker.thy ===== *)
theory JtiTracker
  imports AuthError Trace
begin

text \<open>
  Replay protection of proof identifiers (\<open>agentguard-auth/src/jti.rs\<close>): the tracker with its expiry
  sweep and its capacity, and the contract of a replay store (\<open>DpopReplayStore\<close> in \<open>dpop.rs\<close>) it
  fulfils.  The monotonic clock is an argument of each operation.
\<close>

section \<open>The tracker\<close>

definition DEFAULT_MAX_ENTRIES :: nat where
  "DEFAULT_MAX_ENTRIES = 262144"

definition SWEEP_DIVISOR :: nat where
  "SWEEP_DIVISOR = 4"

record jti_tracker =
  jt_seen :: "(string \<times> instant) list"
  jt_last_sweep :: instant
  jt_ttl :: duration
  jt_max_entries :: nat
  jt_sweep_interval :: duration

definition tracker_build :: "instant \<Rightarrow> duration \<Rightarrow> nat \<Rightarrow> jti_tracker" where
  "tracker_build now ttl max_entries =
    \<lparr>jt_seen = [], jt_last_sweep = now, jt_ttl = ttl, jt_max_entries = max_entries, jt_sweep_interval = ttl div SWEEP_DIVISOR\<rparr>"

definition tracker_new :: "instant \<Rightarrow> duration \<Rightarrow> jti_tracker" where
  "tracker_new now ttl = tracker_build now ttl DEFAULT_MAX_ENTRIES"

definition with_capacity :: "instant \<Rightarrow> duration \<Rightarrow> nat \<Rightarrow> jti_tracker auth_result" where
  "with_capacity now ttl max_entries =
    (if max_entries = 0 then Inl (DpopInvalid ''JTI tracker capacity must be positive'')
     else Inr (tracker_build now ttl max_entries))"

text \<open>\<open>duration_since\<close> saturates at zero, as subtraction does here.\<close>

definition check_and_record :: "hex_codec \<Rightarrow> instant \<Rightarrow> string \<Rightarrow> jti_tracker \<Rightarrow> unit auth_result \<times> jti_tracker" where
  "check_and_record H now jti T =
    (if (case map_of (jt_seen T) jti of Some seen_at \<Rightarrow> now - seen_at < jt_ttl T | None \<Rightarrow> False) then
       (Inl (DpopReplay (hex_encode H jti)), T)
     else
       let T = T\<lparr>jt_seen := AList.delete jti (jt_seen T)\<rparr>;
           T = (if now - jt_last_sweep T \<ge> jt_sweep_interval T
                then T\<lparr>jt_seen := filter (\<lambda>(_, seen_at). now - seen_at < jt_ttl T) (jt_seen T), jt_last_sweep := now\<rparr>
                else T)
       in if length (jt_seen T) \<ge> jt_max_entries T then (Inl DpopCapacityExceeded, T)
          else (Inr (), T\<lparr>jt_seen := AList.update jti now (jt_seen T)\<rparr>))"

definition tracker_len :: "jti_tracker \<Rightarrow> nat" where
  "tracker_len T = length (jt_seen T)"

section \<open>The contract of a replay store\<close>

text \<open>Checks in a row, each with its time.\<close>

definition run_checks_at :: "(nat \<Rightarrow> string \<Rightarrow> 's \<Rightarrow> unit auth_result \<times> 's) \<Rightarrow> (nat \<times> string) list \<Rightarrow> 's \<Rightarrow> 's" where
  "run_checks_at check evs s = fold (\<lambda>(t, j) s. snd (check t j s)) evs s"

text \<open>
  \<open>remembers j d s\<close> says that the state refuses the identifier \<open>j\<close> at every time before \<open>d\<close>; an
  accepted identifier is remembered for the window of the store.
\<close>

locale replay_store =
  fixes check :: "nat \<Rightarrow> string \<Rightarrow> 's \<Rightarrow> unit auth_result \<times> 's"
    and window :: "'s \<Rightarrow> nat"
    and invar :: "'s \<Rightarrow> bool"
    and remembers :: "string \<Rightarrow> nat \<Rightarrow> 's \<Rightarrow> bool"
  assumes invar_check: "invar s \<Longrightarrow> invar (snd (check t j s))"
    and window_check: "window (snd (check t j s)) = window s"
    and accepted_remembered: "invar s \<Longrightarrow> 0 < window s \<Longrightarrow> check t j s = (Inr (), s') \<Longrightarrow> remembers j (t + window s) s'"
    and remembers_kept: "invar s \<Longrightarrow> remembers j d s \<Longrightarrow> t < d \<Longrightarrow> remembers j d (snd (check t k s))"
    and remembers_refuses: "remembers j d s \<Longrightarrow> t < d \<Longrightarrow> fst (check t j s) \<noteq> Inr ()"
begin

lemma invar_run: "invar s \<Longrightarrow> invar (run_checks_at check evs s)"
  unfolding run_checks_at_def by (induction evs arbitrary: s) (auto intro: invar_check)

lemma run_remembers:
  "invar s \<Longrightarrow> remembers j d s \<Longrightarrow> \<forall>e \<in> set evs. fst e < d \<Longrightarrow> remembers j d (run_checks_at check evs s)"
proof (induction evs arbitrary: s)
  case (Cons e evs)
  obtain t k where e: "e = (t, k)" by fastforce
  then have "invar (snd (check t k s))" "remembers j d (snd (check t k s))"
    using Cons.prems invar_check remembers_kept by auto
  then show ?case using Cons e by (simp add: run_checks_at_def)
qed (simp add: run_checks_at_def)

lemma no_replay_within_window:
  assumes "invar s" "check t0 j s = (Inr (), s1)" "\<forall>e \<in> set evs. fst e \<le> t" "t0 \<le> t" "t < t0 + window s"
  shows "fst (check t j (run_checks_at check evs s1)) \<noteq> Inr ()"
proof -
  have "invar s1" using invar_check [OF assms(1), of t0 j] assms(2) by simp
  then have "remembers j (t0 + window s) (run_checks_at check evs s1)"
    using accepted_remembered [OF assms(1) _ assms(2)] assms(3-5) by (intro run_remembers) auto
  then show ?thesis using assms(5) by (rule remembers_refuses)
qed

end

section \<open>The tracker fulfils it\<close>

definition tracker_inv :: "jti_tracker \<Rightarrow> bool" where
  "tracker_inv T \<longleftrightarrow> distinct_keys (jt_seen T) \<and> tracker_len T \<le> jt_max_entries T"

definition tracker_remembers :: "string \<Rightarrow> nat \<Rightarrow> jti_tracker \<Rightarrow> bool" where
  "tracker_remembers j d T \<longleftrightarrow> 0 < jt_ttl T \<and> (\<exists>t0. map_of (jt_seen T) j = Some t0 \<and> d \<le> t0 + jt_ttl T)"

text \<open>The entries left after the duplicate test and the sweep.\<close>

definition swept :: "instant \<Rightarrow> string \<Rightarrow> jti_tracker \<Rightarrow> (string \<times> instant) list" where
  "swept now jti T =
    (if now - jt_last_sweep T \<ge> jt_sweep_interval T
     then filter (\<lambda>(_, seen_at). now - seen_at < jt_ttl T) (AList.delete jti (jt_seen T))
     else AList.delete jti (jt_seen T))"

definition seen_live :: "instant \<Rightarrow> string \<Rightarrow> jti_tracker \<Rightarrow> bool" where
  "seen_live now jti T \<longleftrightarrow> (\<exists>t0. map_of (jt_seen T) jti = Some t0 \<and> now - t0 < jt_ttl T)"

lemma check_and_record_unfold:
  "check_and_record H now jti T =
    (if seen_live now jti T then (Inl (DpopReplay (hex_encode H jti)), T)
     else
       let T' = T\<lparr>jt_seen := swept now jti T,
             jt_last_sweep := (if now - jt_last_sweep T \<ge> jt_sweep_interval T then now else jt_last_sweep T)\<rparr>
       in if length (swept now jti T) \<ge> jt_max_entries T then (Inl DpopCapacityExceeded, T')
          else (Inr (), T'\<lparr>jt_seen := AList.update jti now (swept now jti T)\<rparr>))"
  by (auto simp: check_and_record_def swept_def seen_live_def Let_def split: option.splits)

lemma swept_distinct: "distinct_keys (jt_seen T) \<Longrightarrow> distinct_keys (swept now jti T)"
  by (auto simp: swept_def distinct_delete distinct_map_filter)

lemma swept_length: "length (swept now jti T) \<le> length (jt_seen T)"
  using length_delete_le [of jti "jt_seen T"] by (auto simp: swept_def intro: order_trans [OF length_filter_le])

lemma swept_keeps:
  assumes "distinct_keys (jt_seen T)" "map_of (jt_seen T) j = Some t0" "now < t0 + jt_ttl T" "0 < jt_ttl T" "j \<noteq> jti"
  shows "map_of (swept now jti T) j = Some t0"
proof -
  have d: "distinct_keys (AList.delete jti (jt_seen T))" "map_of (AList.delete jti (jt_seen T)) j = Some t0"
    using assms by (simp_all add: distinct_delete delete_conv')
  then have "map_of (filter (\<lambda>(_, seen_at). now - seen_at < jt_ttl T) (AList.delete jti (jt_seen T))) j = Some t0"
    using assms(3,4) by (intro map_of_is_SomeI) (auto simp: distinct_map_filter dest: map_of_SomeD)
  then show ?thesis using d by (simp add: swept_def)
qed

interpretation jti: replay_store "check_and_record H" jt_ttl tracker_inv tracker_remembers
proof
  fix s :: jti_tracker and t j
  show "tracker_inv s \<Longrightarrow> tracker_inv (snd (check_and_record H t j s))"
    using swept_distinct [of s t j] swept_length [of t j s]
    by (auto simp: check_and_record_unfold tracker_inv_def tracker_len_def Let_def alist_simps)
  show "jt_ttl (snd (check_and_record H t j s)) = jt_ttl s"
    by (simp add: check_and_record_unfold Let_def)
next
  fix s s' :: jti_tracker and t j
  assume "check_and_record H t j s = (Inr (), s')" "0 < jt_ttl s"
  then show "tracker_remembers j (t + jt_ttl s) s'"
    by (auto simp: check_and_record_unfold tracker_remembers_def Let_def alist_simps split: if_splits)
next
  fix s :: jti_tracker and t j d k
  assume i: "tracker_inv s" and r: "tracker_remembers j d s" and t: "t < d"
  then obtain t0 where t0: "map_of (jt_seen s) j = Some t0" "d \<le> t0 + jt_ttl s" "0 < jt_ttl s"
    by (auto simp: tracker_remembers_def)
  show "tracker_remembers j d (snd (check_and_record H t k s))"
  proof (cases "j = k")
    case True
    then have "seen_live t k s" using t0 t by (auto simp: seen_live_def)
    then show ?thesis using r by (simp add: check_and_record_unfold)
  next
    case False
    then have "map_of (swept t k s) j = Some t0"
      using i t0 t by (intro swept_keeps) (auto simp: tracker_inv_def)
    then show ?thesis using r t0 False by (auto simp: check_and_record_unfold tracker_remembers_def Let_def alist_simps)
  qed
next
  fix s :: jti_tracker and t j d
  assume "tracker_remembers j d s" "t < d"
  then have "seen_live t j s" by (auto simp: tracker_remembers_def seen_live_def)
  then show "fst (check_and_record H t j s) \<noteq> Inr ()" by (simp add: check_and_record_unfold)
qed

section \<open>Properties\<close>

lemma tracker_build_inv: "tracker_inv (tracker_build now ttl n)"
  by (simp add: tracker_build_def tracker_inv_def tracker_len_def)

text \<open>
  C38: the tracker never accepts an identifier twice within its lifetime.  Starting from a new tracker
  and after any checks of any identifiers, an identifier accepted at \<open>t0\<close> is refused at every later
  time before \<open>t0 + ttl\<close>, whatever was checked in between; and the tracker never holds more
  identifiers than its capacity, so a full tracker refuses new proofs instead of forgetting live ones.
\<close>

theorem jti_never_replayed:
  fixes H :: hex_codec and before after :: "(nat \<times> string) list" and start ttl n :: nat
  defines "T \<equiv> run_checks_at (check_and_record H) before (tracker_build start ttl n)"
  assumes "check_and_record H t0 j T = (Inr (), T1)" "\<forall>e \<in> set after. fst e \<le> t" "t0 \<le> t" "t < t0 + ttl"
  shows "\<not> is_ok (fst (check_and_record H t j (run_checks_at (check_and_record H) after T1))) \<and>
    tracker_len (run_checks_at (check_and_record H) after T1) \<le> n"
proof -
  have inv: "tracker_inv T" unfolding T_def by (intro jti.invar_run tracker_build_inv)
  have keep: "jt_ttl (run_checks_at (check_and_record H) evs S) = jt_ttl S \<and>
      jt_max_entries (run_checks_at (check_and_record H) evs S) = jt_max_entries S" for evs S
    unfolding run_checks_at_def
    by (induction evs arbitrary: S) (auto simp: check_and_record_unfold Let_def)
  have "tracker_inv T1" using jti.invar_check [OF inv, of H t0 j] assms(2) by simp
  then have "tracker_inv (run_checks_at (check_and_record H) after T1)" by (rule jti.invar_run)
  moreover have "jt_max_entries T1 = n"
    using keep [of "[(t0, j)]" T] keep [of before] assms(2) by (simp add: T_def run_checks_at_def tracker_build_def)
  moreover have "jt_ttl T = ttl" using keep [of before] by (simp add: T_def tracker_build_def)
  ultimately show ?thesis
    using jti.no_replay_within_window [OF inv assms(2-4)] assms(5) keep [of after T1]
    by (cases "fst (check_and_record H t j (run_checks_at (check_and_record H) after T1))") (auto simp: tracker_inv_def)
qed

definition sample_tracker :: jti_tracker where
  "sample_tracker = snd (check_and_record plain_hex 2 ''b'' (run_checks_at (check_and_record plain_hex) [(1, ''a'')] (tracker_build 0 60 2)))"

theorem jti_never_replayed_witness:
  "\<not> is_ok (fst (check_and_record plain_hex 50 ''b'' (run_checks_at (check_and_record plain_hex) [(3, ''a''), (4, ''c'')] sample_tracker)))"
proof -
  have "check_and_record plain_hex 2 ''b'' (run_checks_at (check_and_record plain_hex) [(1, ''a'')] (tracker_build 0 60 2)) =
      (Inr (), sample_tracker)"
    unfolding sample_tracker_def
    by (simp add: prod_eq_iff check_and_record_def run_checks_at_def tracker_build_def SWEEP_DIVISOR_def)
  from jti_never_replayed [OF this, of "[(3, ''a''), (4, ''c'')]" 50] show ?thesis by simp
qed

end
