(* ===== verification/Jwk.thy ===== *)
theory Jwk
  imports Delegation
begin

text \<open>
  JSON Web Keys (\<open>agentguard-core/src/jwk.rs\<close>): the thumbprint of an Ed25519 public key by which the
  token and the proof verifiers name a key.  The hash and the base64 package are parameters.
\<close>

definition quoted :: "string \<Rightarrow> string" where
  "quoted s = [CHR 0x22] @ s @ [CHR 0x22]"

definition thumbprint_json :: "string \<Rightarrow> string \<Rightarrow> string" where
  "thumbprint_json crv x_b64 =
    ''{'' @ quoted ''crv'' @ '':'' @ quoted crv @ '','' @ quoted ''kty'' @ '':'' @ quoted ''OKP'' @ '','' @ quoted ''x'' @ '':'' @ quoted x_b64 @ ''}''"

definition thumbprint_ed25519 :: "jws_env \<Rightarrow> (string \<Rightarrow> string) \<Rightarrow> string \<Rightarrow> string \<Rightarrow> string" where
  "thumbprint_ed25519 E sha256 x_b64 crv =
    (let crv = (if crv = [] then ''Ed25519'' else crv) in b64_encode E (sha256 (thumbprint_json crv x_b64)))"

text \<open>For one curve, the text that is hashed determines the key.\<close>

lemma thumbprint_json_inj: "thumbprint_json crv x = thumbprint_json crv y \<longleftrightarrow> x = y"
  by (auto simp: thumbprint_json_def quoted_def)

end
