(* ===== verification/Dpop.thy ===== *)
theory Dpop
  imports Jwk JtiTracker
begin

text \<open>
  Proofs of possession (\<open>agentguard-auth/src/dpop.rs\<close>): parsing a proof, its header and key, the
  binding to the access token and the request, and the replay check through a store.  The base64,
  JSON, hash and Ed25519 packages are parameters, the first ones in the record \<open>jws_env\<close>.
\<close>

section \<open>The verifier\<close>

text \<open>The store is reached directly or through an asynchronous call.\<close>

datatype replay_kind = SyncStore | AsyncStore

record dpop_verifier =
  dp_replay_store :: replay_kind
  dp_allowed_clock_skew :: duration

definition dpop_new :: dpop_verifier where
  "dpop_new = \<lparr>dp_replay_store = SyncStore, dp_allowed_clock_skew = 30 * 10 ^ 9\<rparr>"

definition dpop_new_async :: dpop_verifier where
  "dpop_new_async = \<lparr>dp_replay_store = AsyncStore, dp_allowed_clock_skew = 30 * 10 ^ 9\<rparr>"

definition parse_proof :: "jws_env \<Rightarrow> string \<Rightarrow> (json \<times> json \<times> string \<times> string) auth_result" where
  "parse_proof E dpop_header =
    (let parts = split_on CHR ''.'' dpop_header in
     if length parts \<noteq> 3 then Inl (DpopInvalid ''expected 3 segments'')
     else
       and_then (map_err (\<lambda>e. DpopInvalid (''header b64: '' @ e)) (b64_decode E (parts ! 0))) (\<lambda>header_bytes.
       and_then (map_err (\<lambda>e. DpopInvalid (''header json: '' @ e)) (json_from_slice E header_bytes)) (\<lambda>header.
       and_then (map_err (\<lambda>e. DpopInvalid (''claims b64: '' @ e)) (b64_decode E (parts ! 1))) (\<lambda>claims_bytes.
       and_then (map_err (\<lambda>e. DpopInvalid (''claims json: '' @ e)) (json_from_slice E claims_bytes)) (\<lambda>claims.
       and_then (map_err (\<lambda>e. DpopInvalid (''sig b64: '' @ e)) (b64_decode E (parts ! 2))) (\<lambda>signature.
       Inr (header, claims, parts ! 0 @ ''.'' @ parts ! 1, signature)))))))"

definition str_field :: "json \<Rightarrow> string \<Rightarrow> string option" where
  "str_field v k = Option.bind (get v k) as_str"

definition str_field_or_empty :: "json \<Rightarrow> string \<Rightarrow> string" where
  "str_field_or_empty v k = (case str_field v k of Some s \<Rightarrow> s | None \<Rightarrow> [])"

definition dpop_check_header :: "jws_env \<Rightarrow> json \<Rightarrow> json auth_result" where
  "dpop_check_header E header =
    (let header_typ = str_field_or_empty header ''typ'' in
     if header_typ \<noteq> ''dpop+jwt'' then
       Inl (DpopInvalid (''header typ must be '' @ [CHR 0x27] @ ''dpop+jwt'' @ [CHR 0x27] @ '', got '' @ debug_str E header_typ))
     else
       and_then (ok_or (DpopInvalid ''missing alg'') (str_field header ''alg'')) (\<lambda>header_alg.
       if header_alg \<noteq> ''EdDSA'' then
         Inl (DpopInvalid (''alg '' @ debug_str E header_alg @ '' not in DPoP whitelist''))
       else ok_or (DpopInvalid ''missing jwk in header'') (get header ''jwk'')))"

definition parse_ed25519_jwk :: "jws_env \<Rightarrow> json \<Rightarrow> string auth_result" where
  "parse_ed25519_jwk E jwk =
    and_then (ok_or (DpopInvalid ''jwk must be a JSON object'') (as_object jwk)) (\<lambda>_.
    and_then (ok_or (DpopInvalid ''jwk missing kty'') (str_field jwk ''kty'')) (\<lambda>kty.
    if kty \<noteq> ''OKP'' then Inl (DpopInvalid (''jwk kty must be OKP, got '' @ kty))
    else and_then (ok_or (DpopInvalid ''jwk missing crv'') (str_field jwk ''crv'')) (\<lambda>crv.
    if crv \<noteq> ''Ed25519'' then Inl (DpopInvalid (''jwk crv must be Ed25519, got '' @ crv))
    else and_then (ok_or (DpopInvalid ''jwk missing x'') (str_field jwk ''x'')) (\<lambda>x.
    and_then (map_err (\<lambda>e. DpopInvalid (''jwk x b64: '' @ e)) (b64_decode E x)) (\<lambda>raw.
    if length raw \<noteq> 32 then Inl (DpopInvalid (''jwk x must be 32 bytes, got '' @ show_nat (length raw)))
    else Inr raw)))))"

definition jwk_thumbprint :: "jws_env \<Rightarrow> (string \<Rightarrow> string) \<Rightarrow> json \<Rightarrow> string auth_result" where
  "jwk_thumbprint E sha256 jwk =
    and_then (ok_or (DpopInvalid ''jwk not object'') (as_object jwk)) (\<lambda>_.
    and_then (ok_or (DpopInvalid ''jwk missing crv'') (str_field jwk ''crv'')) (\<lambda>crv.
    and_then (ok_or (DpopInvalid ''jwk missing x'') (str_field jwk ''x'')) (\<lambda>x.
    Inr (thumbprint_ed25519 E sha256 x crv))))"

definition verify_dpop_signature :: "jws_env \<Rightarrow> string \<Rightarrow> string \<Rightarrow> string \<Rightarrow> unit auth_result" where
  "verify_dpop_signature E raw_key signing_input signature =
    and_then (map_err (\<lambda>e. DpopInvalid (''jwk key: '' @ e)) (ed_key_parse E raw_key)) (\<lambda>vk.
    and_then (map_err (\<lambda>e. DpopInvalid (''ed25519 sig: '' @ e)) (ed_sig_parse E signature)) (\<lambda>sig.
    if ed_verify E vk signing_input sig then Inr () else Inl (DpopInvalid ''signature verification failed'')))"

definition check_htm_htu_ath ::
  "jws_env \<Rightarrow> (string \<Rightarrow> string) \<Rightarrow> json \<Rightarrow> string \<Rightarrow> string \<Rightarrow> string \<Rightarrow> unit auth_result" where
  "check_htm_htu_ath E sha256 claims htm htu access_token =
    (let claim_htm = str_field_or_empty claims ''htm'' in
     if claim_htm \<noteq> htm then Inl (DpopInvalid (''htm mismatch: expected '' @ htm @ '', got '' @ claim_htm))
     else let claim_htu = str_field_or_empty claims ''htu'' in
     if claim_htu \<noteq> htu then Inl (DpopHtuMismatch htu claim_htu)
     else if str_field_or_empty claims ''ath'' \<noteq> b64_encode E (sha256 access_token) then Inl (DpopInvalid ''ath mismatch'')
     else Inr ())"

definition jti_to_replay_key :: "(string \<Rightarrow> string) \<Rightarrow> string option \<Rightarrow> string auth_result" where
  "jti_to_replay_key sha256 jti_opt =
    and_then (ok_or (DpopInvalid ''missing jti'') jti_opt) (\<lambda>jti_str. Inr (take 16 (sha256 jti_str)))"

definition verify_proof ::
  "jws_env \<Rightarrow> (string \<Rightarrow> string) \<Rightarrow> string \<Rightarrow> string \<Rightarrow> string \<Rightarrow> string \<Rightarrow> string \<Rightarrow> string auth_result" where
  "verify_proof E sha256 dpop_header access_token htm htu expected_jkt =
    and_then (parse_proof E dpop_header) (\<lambda>(header, claims, signing_input, signature).
    and_then (dpop_check_header E header) (\<lambda>jwk.
    and_then (parse_ed25519_jwk E jwk) (\<lambda>raw_key.
    and_then (jwk_thumbprint E sha256 jwk) (\<lambda>thumbprint.
    if thumbprint \<noteq> expected_jkt then Inl (DpopInvalid ''jkt mismatch'')
    else
      and_then (verify_dpop_signature E raw_key signing_input signature) (\<lambda>_.
      and_then (check_htm_htu_ath E sha256 claims htm htu access_token) (\<lambda>_.
      jti_to_replay_key sha256 (str_field claims ''jti'')))))))"

text \<open>\<open>check\<close> is the replay store, with the time of the call already applied.\<close>

definition dpop_verify ::
  "jws_env \<Rightarrow> (string \<Rightarrow> string) \<Rightarrow> dpop_verifier \<Rightarrow> (string \<Rightarrow> 's \<Rightarrow> unit auth_result \<times> 's)
    \<Rightarrow> string \<Rightarrow> string \<Rightarrow> string \<Rightarrow> string \<Rightarrow> string \<Rightarrow> 's \<Rightarrow> unit auth_result \<times> 's" where
  "dpop_verify E sha256 V check dpop_header access_token htm htu expected_jkt s =
    (case verify_proof E sha256 dpop_header access_token htm htu expected_jkt of
       Inl e \<Rightarrow> (Inl e, s)
     | Inr jti_key \<Rightarrow>
       (case dp_replay_store V of
          SyncStore \<Rightarrow> check jti_key s
        | AsyncStore \<Rightarrow> (Inl (DpopInvalid ''asynchronous replay store requires verify_async''), s)))"

definition dpop_verify_async ::
  "jws_env \<Rightarrow> (string \<Rightarrow> string) \<Rightarrow> dpop_verifier \<Rightarrow> (string \<Rightarrow> 's \<Rightarrow> unit auth_result \<times> 's)
    \<Rightarrow> string \<Rightarrow> string \<Rightarrow> string \<Rightarrow> string \<Rightarrow> string \<Rightarrow> 's \<Rightarrow> unit auth_result \<times> 's" where
  "dpop_verify_async E sha256 V check dpop_header access_token htm htu expected_jkt s =
    (case verify_proof E sha256 dpop_header access_token htm htu expected_jkt of
       Inl e \<Rightarrow> (Inl e, s)
     | Inr jti_key \<Rightarrow> check jti_key s)"

section \<open>An accepted proof\<close>

lemma parse_proof_Inr:
  "parse_proof E proof = Inr (header, claims, input, sig) \<longleftrightarrow>
    (\<exists>h p g hb pb. split_on CHR ''.'' proof = [h, p, g] \<and> b64_decode E h = Inr hb \<and> json_from_slice E hb = Inr header \<and>
      b64_decode E p = Inr pb \<and> json_from_slice E pb = Inr claims \<and> b64_decode E g = Inr sig \<and> input = h @ ''.'' @ p)"
proof (cases "\<exists>h p g. split_on CHR ''.'' proof = [h, p, g]")
  case True
  then show ?thesis by (auto simp: parse_proof_def result_simps)
next
  case False
  then have "length (split_on CHR ''.'' proof) \<noteq> 3" by (auto simp: numeral_eq_Suc length_Suc_conv)
  then show ?thesis using False by (auto simp: parse_proof_def)
qed

text \<open>What a key in a header must be: an Ed25519 key of 32 bytes with the given thumbprint.\<close>

definition jwk_bound :: "jws_env \<Rightarrow> (string \<Rightarrow> string) \<Rightarrow> json \<Rightarrow> string \<Rightarrow> string \<Rightarrow> bool" where
  "jwk_bound E sha256 jwk jkt raw \<longleftrightarrow>
    (\<exists>x. str_field jwk ''kty'' = Some ''OKP'' \<and> str_field jwk ''crv'' = Some ''Ed25519'' \<and> str_field jwk ''x'' = Some x \<and>
      b64_decode E x = Inr raw \<and> length raw = 32 \<and> jkt = b64_encode E (sha256 (thumbprint_json ''Ed25519'' x)))"

lemma jwk_checks_Inr:
  assumes "parse_ed25519_jwk E jwk = Inr raw" "jwk_thumbprint E sha256 jwk = Inr jkt"
  shows "jwk_bound E sha256 jwk jkt raw"
  using assms
  by (auto simp: parse_ed25519_jwk_def jwk_thumbprint_def jwk_bound_def thumbprint_ed25519_def result_simps split: if_splits)

lemma verify_proof_Inr:
  assumes "verify_proof E sha256 proof token htm htu jkt = Inr key"
  shows "\<exists>header claims input sig jwk raw vk sg id.
    parse_proof E proof = Inr (header, claims, input, sig) \<and>
    str_field header ''typ'' = Some ''dpop+jwt'' \<and> str_field header ''alg'' = Some ''EdDSA'' \<and> get header ''jwk'' = Some jwk \<and>
    jwk_bound E sha256 jwk jkt raw \<and> ed_key_parse E raw = Inr vk \<and> ed_sig_parse E sig = Inr sg \<and> ed_verify E vk input sg \<and>
    str_field_or_empty claims ''htm'' = htm \<and> str_field_or_empty claims ''htu'' = htu \<and>
    str_field_or_empty claims ''ath'' = b64_encode E (sha256 token) \<and>
    str_field claims ''jti'' = Some id \<and> key = take 16 (sha256 id)"
proof -
  obtain header claims input sig jwk raw where v: "parse_proof E proof = Inr (header, claims, input, sig)"
      "dpop_check_header E header = Inr jwk" "parse_ed25519_jwk E jwk = Inr raw" "jwk_thumbprint E sha256 jwk = Inr jkt"
      "verify_dpop_signature E raw input sig = Inr ()" "check_htm_htu_ath E sha256 claims htm htu token = Inr ()"
      "jti_to_replay_key sha256 (str_field claims ''jti'') = Inr key"
    using assms by (auto simp: verify_proof_def result_simps split: if_splits)
  have "str_field header ''typ'' = Some ''dpop+jwt'' \<and> str_field header ''alg'' = Some ''EdDSA'' \<and> get header ''jwk'' = Some jwk"
    using v(2) by (auto simp: dpop_check_header_def str_field_or_empty_def result_simps Let_def split: if_splits option.splits)
  moreover have "str_field_or_empty claims ''htm'' = htm \<and> str_field_or_empty claims ''htu'' = htu \<and>
      str_field_or_empty claims ''ath'' = b64_encode E (sha256 token)"
    using v(6) by (auto simp: check_htm_htu_ath_def Let_def split: if_splits)
  moreover obtain vk sg where "ed_key_parse E raw = Inr vk" "ed_sig_parse E sig = Inr sg" "ed_verify E vk input sg"
    using v(5) by (auto simp: verify_dpop_signature_def result_simps split: if_splits)
  moreover obtain id where "str_field claims ''jti'' = Some id" "key = take 16 (sha256 id)"
    using v(7) by (auto simp: jti_to_replay_key_def result_simps)
  ultimately show ?thesis using v(1) jwk_checks_Inr [OF v(3,4)] by blast
qed

text \<open>The replay key depends on the proof alone.\<close>

lemma verify_proof_key:
  assumes "verify_proof E sha256 proof a b c d = Inr key" "verify_proof E sha256 proof a' b' c' d' = Inr key'"
  shows "key' = key"
  using verify_proof_Inr [OF assms(1)] verify_proof_Inr [OF assms(2)] by auto

section \<open>Properties\<close>

text \<open>
  C18: a proof is accepted only from the holder of the bound key for this request.  The key in its
  header is an Ed25519 key whose thumbprint is the one the access token names, its signature covers
  the header and the claims, and the claims name the method, the address and the access token.
\<close>

theorem dpop_accepts_only_bound_proofs:
  assumes "dpop_verify E sha256 V check proof token htm htu jkt s = (Inr (), s')"
  shows "\<exists>h p g hb pb sig header claims jwk raw vk sg.
    split_on CHR ''.'' proof = [h, p, g] \<and> b64_decode E h = Inr hb \<and> json_from_slice E hb = Inr header \<and>
    b64_decode E p = Inr pb \<and> json_from_slice E pb = Inr claims \<and> b64_decode E g = Inr sig \<and>
    str_field header ''typ'' = Some ''dpop+jwt'' \<and> str_field header ''alg'' = Some ''EdDSA'' \<and>
    get header ''jwk'' = Some jwk \<and> jwk_bound E sha256 jwk jkt raw \<and>
    ed_key_parse E raw = Inr vk \<and> ed_sig_parse E sig = Inr sg \<and> ed_verify E vk (h @ ''.'' @ p) sg \<and>
    str_field_or_empty claims ''htm'' = htm \<and> str_field_or_empty claims ''htu'' = htu \<and>
    str_field_or_empty claims ''ath'' = b64_encode E (sha256 token)"
proof -
  obtain key where "verify_proof E sha256 proof token htm htu jkt = Inr key"
    using assms by (auto simp: dpop_verify_def split: sum.splits)
  from verify_proof_Inr [OF this] show ?thesis unfolding parse_proof_Inr by blast
qed

text \<open>
  C19: a proof is used once.  After the verifier has accepted a proof with the tracker as its replay
  store, the same proof is refused until the lifetime of the tracker is over, for every request and
  access token it is presented with, whatever other proofs are checked in between.
\<close>

theorem dpop_proof_used_once:
  assumes "tracker_inv T" "dpop_verify E sha256 V (check_and_record H t0) proof token htm htu jkt T = (Inr (), T1)"
    and "\<forall>e \<in> set others. fst e \<le> t" "t0 \<le> t" "t < t0 + jt_ttl T"
  shows "\<not> is_ok (fst (dpop_verify E sha256 V (check_and_record H t) proof token' htm' htu' jkt'
    (run_checks_at (check_and_record H) others T1)))"
proof -
  obtain key where k: "verify_proof E sha256 proof token htm htu jkt = Inr key" "check_and_record H t0 key T = (Inr (), T1)"
    using assms(2) by (auto simp: dpop_verify_def split: sum.splits replay_kind.splits)
  have "fst (check_and_record H t key (run_checks_at (check_and_record H) others T1)) \<noteq> Inr ()"
    by (rule jti.no_replay_within_window [OF assms(1) k(2) assms(3-5)])
  then have "\<not> is_ok (fst (check_and_record H t key (run_checks_at (check_and_record H) others T1)))"
    by (cases "fst (check_and_record H t key (run_checks_at (check_and_record H) others T1))") auto
  then show ?thesis
    using verify_proof_key [OF k(1)]
    by (cases "verify_proof E sha256 proof token' htm' htu' jkt'") (auto simp: dpop_verify_def split: replay_kind.splits)
qed

section \<open>A proof\<close>

definition dpop_env :: jws_env where
  "dpop_env = (demo_env demo_claims)\<lparr>json_from_slice := (\<lambda>b.
     if b = ''h'' then Inr (Object [(''alg'', String ''EdDSA''), (''typ'', String ''dpop+jwt''),
       (''jwk'', Object [(''kty'', String ''OKP''), (''crv'', String ''Ed25519''), (''x'', String (replicate 32 CHR ''k''))])])
     else Inr (Object [(''jti'', String ''id''), (''htm'', String ''POST''), (''htu'', String ''u''), (''ath'', String ''token'')]))\<rparr>"

definition dpop_proof :: string where
  "dpop_proof = ''h.c.'' @ tilde_encode (demo_sig (replicate 32 CHR ''k'') ''h.c'')"

definition dpop_jkt :: string where
  "dpop_jkt = tilde_encode (thumbprint_json ''Ed25519'' (replicate 32 CHR ''k''))"

definition dpop_tracker :: jti_tracker where
  "dpop_tracker = snd (check_and_record plain_hex 0 ''id'' (tracker_build 0 60 2))"

lemma dpop_sample_accepted:
  "dpop_verify dpop_env (\<lambda>s. s) dpop_new (check_and_record plain_hex 0) dpop_proof ''token'' ''POST'' ''u'' dpop_jkt (tracker_build 0 60 2) =
    (Inr (), dpop_tracker)"
proof -
  have k: "tilde_decode (replicate 32 CHR ''k'') = replicate 32 CHR ''k''" by code_simp
  have s: "split_on CHR ''.'' dpop_proof = [''h'', ''c'', tilde_encode (demo_sig (replicate 32 CHR ''k'') ''h.c'')]"
    using tilde_encode_no_dot by (simp add: dpop_proof_def split_on_no_sep)
  have t: "tilde_encode ''token'' = ''token''" "tilde_decode ''h'' = ''h''" "tilde_decode ''c'' = ''c''" by code_simp+
  have "parse_proof dpop_env dpop_proof = Inr (projr (json_from_slice dpop_env ''h''), projr (json_from_slice dpop_env ''c''),
      ''h.c'', demo_sig (replicate 32 CHR ''k'') ''h.c'')"
    by (simp add: parse_proof_def s t dpop_env_def demo_env_def tilde_decode_encode)
  then have "verify_proof dpop_env (\<lambda>s. s) dpop_proof ''token'' ''POST'' ''u'' dpop_jkt = Inr ''id''"
    by (simp add: verify_proof_def dpop_check_header_def str_field_def str_field_or_empty_def parse_ed25519_jwk_def
        jwk_thumbprint_def thumbprint_ed25519_def verify_dpop_signature_def check_htm_htu_ath_def jti_to_replay_key_def
        dpop_env_def demo_env_def dpop_jkt_def k t)
  then show ?thesis
    by (simp add: dpop_verify_def dpop_new_def dpop_tracker_def check_and_record_def tracker_build_def SWEEP_DIVISOR_def)
qed

theorem dpop_accepts_only_bound_proofs_witness:
  "\<exists>claims raw vk sg. ed_key_parse dpop_env raw = Inr vk \<and> ed_verify dpop_env vk ''h.c'' sg \<and> str_field_or_empty claims ''htm'' = ''POST''"
proof -
  have "split_on CHR ''.'' dpop_proof = [''h'', ''c'', tilde_encode (demo_sig (replicate 32 CHR ''k'') ''h.c'')]"
    using tilde_encode_no_dot by (simp add: dpop_proof_def split_on_no_sep)
  then show ?thesis
    using dpop_accepts_only_bound_proofs [OF dpop_sample_accepted] by auto
qed

theorem dpop_proof_used_once_witness:
  "\<not> is_ok (fst (dpop_verify dpop_env (\<lambda>s. s) dpop_new (check_and_record plain_hex 30) dpop_proof ''token'' ''GET'' ''v'' dpop_jkt
    (run_checks_at (check_and_record plain_hex) [(10, ''other'')] dpop_tracker)))"
  using dpop_proof_used_once [OF tracker_build_inv dpop_sample_accepted, of "[(10, ''other'')]" 30]
  by (simp add: tracker_build_def)

section \<open>The age of a proof\<close>

text \<open>The time at which a proof was issued plays no part: the checks read the same from claims without it.\<close>

theorem dpop_ignores_issue_time:
  "check_htm_htu_ath E sha256 (Object ((''iat'', v) # fs)) htm htu token = check_htm_htu_ath E sha256 (Object fs) htm htu token \<and>
   str_field (Object ((''iat'', v) # fs)) ''jti'' = str_field (Object fs) ''jti''"
  by (simp add: check_htm_htu_ath_def str_field_def str_field_or_empty_def Let_def)

end
