(* ===== verification/Jwt.thy ===== *)
theory Jwt
  imports Dpop AuthKeys
begin

text \<open>
  Bearer tokens of an identity provider (\<open>agentguard-auth/src/jwt.rs\<close>): the configuration, the
  validation of a token against the key registry, and the registration of the provider's key set.
  Base64, JSON, Ed25519, hashing and the HTTP client are parameters; the two clocks are arguments.
\<close>

section \<open>Configuration\<close>

definition SUPPORTED_ALGORITHMS :: "algorithm list" where
  "SUPPORTED_ALGORITHMS = [EdDSA]"

record jwt_config =
  jc_issuer :: string
  jc_audience :: string
  jc_algorithms :: "algorithm list"
  jc_jwks_uri :: "string option"
  jc_jwks_refresh :: duration
  jc_clock_skew :: duration

definition jwt_config_new :: "string \<Rightarrow> string \<Rightarrow> jwt_config" where
  "jwt_config_new issuer audience =
    \<lparr>jc_issuer = issuer, jc_audience = audience, jc_algorithms = [EdDSA], jc_jwks_uri = None,
     jc_jwks_refresh = 30 * 10 ^ 9, jc_clock_skew = 60 * 10 ^ 9\<rparr>"

text \<open>The first unsupported algorithm is reported; its name prints as in the registry.\<close>

definition with_algorithms :: "jwt_config \<Rightarrow> algorithm list \<Rightarrow> jwt_config auth_result" where
  "with_algorithms c algs =
    (case filter (\<lambda>a. a \<notin> set SUPPORTED_ALGORITHMS) algs of
       a # _ \<Rightarrow> Inl (JwtInvalid (''algorithm '' @ show_alg a @ '' is not verifiable in this release; supported: ['' @
         show_alg EdDSA @ '']''))
     | [] \<Rightarrow> Inr (c\<lparr>jc_algorithms := algs\<rparr>))"

definition with_algorithms_lossy :: "jwt_config \<Rightarrow> algorithm list \<Rightarrow> jwt_config" where
  "with_algorithms_lossy c algs =
    (let supported = filter (\<lambda>a. a \<in> set SUPPORTED_ALGORITHMS) algs
     in c\<lparr>jc_algorithms := (if supported = [] then [EdDSA] else supported)\<rparr>)"

definition with_jwks_uri :: "jwt_config \<Rightarrow> string \<Rightarrow> jwt_config" where
  "with_jwks_uri c uri = c\<lparr>jc_jwks_uri := Some uri\<rparr>"

definition with_jwks_refresh :: "jwt_config \<Rightarrow> duration \<Rightarrow> jwt_config" where
  "with_jwks_refresh c d = c\<lparr>jc_jwks_refresh := d\<rparr>"

definition with_jwks_refresh_from_env :: "(string \<Rightarrow> string + duration) \<Rightarrow> env_var \<Rightarrow> jwt_config \<Rightarrow> jwt_config" where
  "with_jwks_refresh_from_env parse_duration v c =
    (case env_ok v of
       None \<Rightarrow> c
     | Some s \<Rightarrow> (case parse_duration s of Inr d \<Rightarrow> c\<lparr>jc_jwks_refresh := d\<rparr> | Inl _ \<Rightarrow> c))"

section \<open>Validation\<close>

type_synonym jose_header = "(string \<times> json) list"

record jwt_env =
  jw_jws :: jws_env
  jw_header_from_slice :: "string \<Rightarrow> string + jose_header"
  jw_debug_aud :: "json option \<Rightarrow> string"

record validated_jwt =
  vj_header :: jose_header
  vj_claims :: json

record jwt_validator =
  jv_config :: jwt_config
  jv_keys :: key_registry

definition validator_new :: "jwt_config \<Rightarrow> jwt_validator" where
  "validator_new c = \<lparr>jv_config = c, jv_keys = registry_new\<rparr>"

definition validator_add_key :: "jwt_validator \<Rightarrow> string \<Rightarrow> algorithm \<Rightarrow> key_material \<Rightarrow> jwt_validator" where
  "validator_add_key V kid alg key = V\<lparr>jv_keys := registry_add (jv_keys V) kid alg key\<rparr>"

definition parse_token :: "jwt_env \<Rightarrow> string \<Rightarrow> (jose_header \<times> json \<times> string \<times> string) auth_result" where
  "parse_token J token =
    (let parts = split_on CHR ''.'' token; E = jw_jws J in
     if length parts \<noteq> 3 then Inl (JwtInvalid ''expected 3 parts'')
     else
       and_then (map_err (\<lambda>e. JwtInvalid (''header b64: '' @ e)) (b64_decode E (parts ! 0))) (\<lambda>header_bytes.
       and_then (map_err (\<lambda>e. JwtInvalid (''header json: '' @ e)) (jw_header_from_slice J header_bytes)) (\<lambda>header.
       and_then (map_err (\<lambda>e. JwtInvalid (''claims b64: '' @ e)) (b64_decode E (parts ! 1))) (\<lambda>claims_bytes.
       and_then (map_err (\<lambda>e. JwtInvalid (''claims json: '' @ e)) (json_from_slice E claims_bytes)) (\<lambda>claims.
       and_then (map_err (\<lambda>e. JwtInvalid (''sig b64: '' @ e)) (b64_decode E (parts ! 2))) (\<lambda>signature.
       Inr (header, claims, parts ! 0 @ ''.'' @ parts ! 1, signature)))))))"

definition jwt_check_header :: "jwt_config \<Rightarrow> jose_header \<Rightarrow> (algorithm \<times> string) auth_result" where
  "jwt_check_header c header =
    and_then (ok_or (JwtInvalid ''missing alg'') (Option.bind (map_of header ''alg'') as_str)) (\<lambda>alg_str.
    and_then (ok_or (JwtInvalid (''unsupported alg: '' @ alg_str)) (parse_alg alg_str)) (\<lambda>alg.
    if alg \<notin> set (jc_algorithms c) then Inl (JwtInvalid (''algorithm '' @ show_alg alg @ '' not in whitelist''))
    else
      and_then (ok_or (JwtInvalid ''missing kid'') (Option.bind (map_of header ''kid'') as_str)) (\<lambda>kid. Inr (alg, kid))))"

fun verify_signature :: "jws_env \<Rightarrow> algorithm \<Rightarrow> key_material \<Rightarrow> string \<Rightarrow> string \<Rightarrow> unit auth_result" where
  "verify_signature E EdDSA (Ed25519 bytes) signing_input signature =
    (if length bytes \<noteq> 32 then Inl (JwtInvalid ''ed25519 key must be 32 bytes'')
     else
       and_then (map_err (\<lambda>e. JwtInvalid (''ed25519 key: '' @ e)) (ed_key_parse E bytes)) (\<lambda>vk.
       and_then (map_err (\<lambda>e. JwtInvalid (''ed25519 sig: '' @ e)) (ed_sig_parse E signature)) (\<lambda>sig.
       if ed_verify E vk signing_input sig then Inr () else Inl (JwtInvalid ''ed25519 verify failed''))))"
| "verify_signature E alg key signing_input signature =
    Inl (JwtInvalid (''alg '' @ show_alg alg @ '' not implemented in this release''))"

definition check_signature ::
  "jws_env \<Rightarrow> key_registry \<Rightarrow> instant \<Rightarrow> string \<Rightarrow> string \<Rightarrow> string \<Rightarrow> algorithm \<Rightarrow> unit auth_result" where
  "check_signature E keys now signing_input signature kid alg =
    (let ks = registry_get keys now kid alg in
     if ks = [] then Inl (JwtUnknownKid kid)
     else if list_ex (\<lambda>k. is_ok (verify_signature E alg k signing_input signature)) ks then Inr ()
     else Inl (JwtInvalid ''signature verification failed''))"

text \<open>
  The sums of times wrap around, as they do in a release build; \<open>now\<close> is the wall clock in seconds.
\<close>

definition aud_ok :: "string \<Rightarrow> json option \<Rightarrow> bool" where
  "aud_ok audience v =
    (case v of
       Some (String s) \<Rightarrow> s = audience
     | Some (Array arr) \<Rightarrow> list_ex (\<lambda>x. as_str x = Some audience) arr
     | _ \<Rightarrow> False)"

definition skew_secs :: "jwt_config \<Rightarrow> int" where
  "skew_secs c = wrap_i64 (int (jc_clock_skew c div 10 ^ 9))"

definition check_claims :: "jwt_env \<Rightarrow> jwt_config \<Rightarrow> int \<Rightarrow> json \<Rightarrow> unit auth_result" where
  "check_claims J c now claims =
    and_then (ok_or (JwtIssuerMismatch (jc_issuer c) ''<missing>'') (str_field claims ''iss'')) (\<lambda>iss_str.
    if iss_str \<noteq> jc_issuer c then Inl (JwtIssuerMismatch (jc_issuer c) iss_str)
    else if \<not> aud_ok (jc_audience c) (get claims ''aud'') then
      Inl (JwtAudienceMismatch (jc_audience c) (jw_debug_aud J (get claims ''aud'')))
    else
      and_then (ok_or JwtExpired (Option.bind (get claims ''exp'') as_i64)) (\<lambda>exp_at.
      if wrap_i64 (exp_at + skew_secs c) < now then Inl JwtExpired
      else if (case Option.bind (get claims ''nbf'') as_i64 of Some n \<Rightarrow> n > wrap_i64 (now + skew_secs c) | None \<Rightarrow> False) then
        Inl (JwtInvalid ''token not yet valid'')
      else if (case Option.bind (get claims ''iat'') as_i64 of Some n \<Rightarrow> n > wrap_i64 (now + skew_secs c) | None \<Rightarrow> False) then
        Inl (JwtInvalid ''iat is in the future'')
      else Inr ()))"

definition validate :: "jwt_env \<Rightarrow> jwt_validator \<Rightarrow> instant \<Rightarrow> int \<Rightarrow> string \<Rightarrow> validated_jwt auth_result" where
  "validate J V tick now token =
    and_then (parse_token J token) (\<lambda>(header, claims, signing_input, signature).
    and_then (jwt_check_header (jv_config V) header) (\<lambda>(alg, kid).
    and_then (check_signature (jw_jws J) (jv_keys V) tick signing_input signature kid alg) (\<lambda>_.
    and_then (check_claims J (jv_config V) now claims) (\<lambda>_.
    Inr \<lparr>vj_header = header, vj_claims = claims\<rparr>))))"

section \<open>The provider's key set\<close>

record jwks_key =
  jk_kty :: "string option"
  jk_key_type :: "string option"
  jk_alg :: string
  jk_kid :: "string option"
  jk_n :: "string option"
  jk_e :: "string option"
  jk_x :: "string option"
  jk_y :: "string option"
  jk_crv :: "string option"

datatype jwks_reply = ClientBuildFailed string | FetchFailed string | BadStatus string | BodyFailed string | JwksBody string

definition register_jwk :: "jws_env \<Rightarrow> (string \<Rightarrow> string) \<Rightarrow> jwks_key \<Rightarrow> key_registry \<Rightarrow> key_registry" where
  "register_jwk E sha256 k keys =
    (if parse_alg (jk_alg k) \<noteq> Some EdDSA then keys
     else case jk_x k of
       None \<Rightarrow> keys
     | Some x \<Rightarrow>
       (case b64_decode E x of
          Inl _ \<Rightarrow> keys
        | Inr raw \<Rightarrow>
          if length raw \<noteq> 32 then keys
          else
            let crv = (case jk_crv k of Some c \<Rightarrow> c | None \<Rightarrow> ''Ed25519'');
                kid = (case jk_kid k of
                    Some s \<Rightarrow> if s \<noteq> [] then s else thumbprint_ed25519 E sha256 x crv
                  | None \<Rightarrow> thumbprint_ed25519 E sha256 x crv)
            in registry_add keys kid EdDSA (Ed25519 raw)))"

definition refresh_jwks ::
  "jws_env \<Rightarrow> (string \<Rightarrow> string) \<Rightarrow> (string \<Rightarrow> jwks_reply) \<Rightarrow> (string \<Rightarrow> string + jwks_key list) \<Rightarrow> jwt_validator
    \<Rightarrow> unit auth_result \<times> jwt_validator" where
  "refresh_jwks E sha256 fetch parse_jwks V =
    (case jc_jwks_uri (jv_config V) of
       None \<Rightarrow> (Inl (AuthOther ''no jwks_uri configured''), V)
     | Some uri \<Rightarrow>
       (case fetch uri of
          ClientBuildFailed e \<Rightarrow> (Inl (JwksFetch (''client build: '' @ e)), V)
        | FetchFailed e \<Rightarrow> (Inl (JwksFetch e), V)
        | BadStatus st \<Rightarrow> (Inl (JwksFetch (''HTTP '' @ st)), V)
        | BodyFailed e \<Rightarrow> (Inl (JwksFetch e), V)
        | JwksBody body \<Rightarrow>
          if length body > 1048576 then (Inl (JwksFetch ''JWKS document exceeds 1 MiB''), V)
          else case parse_jwks body of
            Inl e \<Rightarrow> (Inl (JwksFetch (''parse: '' @ e)), V)
          | Inr ks \<Rightarrow>
            if length ks > 64 then
              (Inl (JwksFetch (''JWKS document has '' @ show_nat (length ks) @ '' keys; refusing to register more than 64'')), V)
            else (Inr (), V\<lparr>jv_keys := fold (register_jwk E sha256) ks (jv_keys V)\<rparr>)))"

section \<open>An accepted token\<close>

lemma parse_token_Inr:
  "parse_token J token = Inr (header, claims, input, sig) \<longleftrightarrow>
    (\<exists>h p g hb pb. split_on CHR ''.'' token = [h, p, g] \<and> b64_decode (jw_jws J) h = Inr hb \<and> jw_header_from_slice J hb = Inr header \<and>
      b64_decode (jw_jws J) p = Inr pb \<and> json_from_slice (jw_jws J) pb = Inr claims \<and> b64_decode (jw_jws J) g = Inr sig \<and>
      input = h @ ''.'' @ p)"
proof (cases "\<exists>h p g. split_on CHR ''.'' token = [h, p, g]")
  case True
  then show ?thesis by (auto simp: parse_token_def result_simps Let_def)
next
  case False
  then have "length (split_on CHR ''.'' token) \<noteq> 3" by (auto simp: numeral_eq_Suc length_Suc_conv)
  then show ?thesis using False by (auto simp: parse_token_def)
qed

lemma verify_signature_Inr:
  "verify_signature E alg key input sig = Inr u \<longleftrightarrow>
    alg = EdDSA \<and> (\<exists>bytes vk sg. key = Ed25519 bytes \<and> length bytes = 32 \<and> ed_key_parse E bytes = Inr vk \<and>
      ed_sig_parse E sig = Inr sg \<and> ed_verify E vk input sg)"
  by (cases "(E, alg, key, input, sig)" rule: verify_signature.cases) (auto simp: result_simps split: if_splits)

lemma check_signature_Inr:
  "check_signature E keys tick input sig kid alg = Inr u \<longleftrightarrow>
    alg = EdDSA \<and> (\<exists>bytes vk sg. Ed25519 bytes \<in> set (registry_get keys tick kid EdDSA) \<and> length bytes = 32 \<and>
      ed_key_parse E bytes = Inr vk \<and> ed_sig_parse E sig = Inr sg \<and> ed_verify E vk input sg)"
proof -
  have "is_ok (verify_signature E alg k input sig) \<longleftrightarrow> (\<exists>u. verify_signature E alg k input sig = Inr u)" for k
    by (cases "verify_signature E alg k input sig") auto
  then show ?thesis
    by (auto simp: check_signature_def list_ex_iff verify_signature_Inr Let_def split: if_splits)
qed

text \<open>An expiry so late that the sum wraps is treated as long past, never as valid.\<close>

lemma wrapped_expiry:
  assumes "is_i64 e" "0 \<le> now" "0 \<le> k" "is_i64 (now + k)" "now \<le> wrap_i64 (e + k)"
  shows "now \<le> e + k"
  using assms by (cases "is_i64 (e + k)") (auto simp: wrap_i64_id wrap_i64_def is_i64_def i64_min_def i64_max_def)

section \<open>Properties\<close>


definition jwt_demo :: jwt_env where
  "jwt_demo =
    \<lparr>jw_jws = (demo_env demo_claims)\<lparr>json_from_slice := (\<lambda>_. Inr (Object [(''iss'', String ''idp''),
        (''aud'', Array [String ''api'']), (''exp'', Number (PosInt 1000)), (''iat'', Number (PosInt 900))]))\<rparr>,
     jw_header_from_slice = (\<lambda>_. Inr [(''alg'', String ''EdDSA''), (''kid'', String ''k1'')]), jw_debug_aud = (\<lambda>_. [])\<rparr>"

definition jwt_demo_validator :: jwt_validator where
  "jwt_demo_validator = validator_add_key (validator_new (jwt_config_new ''idp'' ''api'')) ''k1'' EdDSA (Ed25519 (replicate 32 CHR ''k''))"

definition jwt_demo_token :: string where
  "jwt_demo_token = ''h.c.'' @ tilde_encode (demo_sig (replicate 32 CHR ''k'') ''h.c'')"

lemma jwt_demo_config: "jv_config jwt_demo_validator = jwt_config_new ''idp'' ''api''"
  by (simp add: jwt_demo_validator_def validator_add_key_def validator_new_def)

lemma jwt_demo_keys: "registry_get (jv_keys jwt_demo_validator) t ''k1'' EdDSA = [Ed25519 (replicate 32 CHR ''k'')]"
  by (simp add: jwt_demo_validator_def validator_add_key_def validator_new_def registry_new_def with_cap_def registry_add_def
      registry_get_def reserve_kid_slot_def kid_entries_def new_entry_def entry_live_def)

lemma jwt_demo_validates: "\<exists>v. validate jwt_demo jwt_demo_validator 0 950 jwt_demo_token = Inr v"
proof -
  let ?sig = "demo_sig (replicate 32 CHR ''k'') ''h.c''" and ?claims = "projr (json_from_slice (jw_jws jwt_demo) ''c'')"
  have "split_on CHR ''.'' jwt_demo_token = [''h'', ''c'', tilde_encode ?sig]"
    using tilde_encode_no_dot by (simp add: jwt_demo_token_def split_on_no_sep)
  then have p: "parse_token jwt_demo jwt_demo_token = Inr ([(''alg'', String ''EdDSA''), (''kid'', String ''k1'')], ?claims, ''h.c'', ?sig)"
    by (simp add: parse_token_def jwt_demo_def demo_env_def tilde_decode_encode)
  have h: "jwt_check_header (jwt_config_new ''idp'' ''api'') [(''alg'', String ''EdDSA''), (''kid'', String ''k1'')] = Inr (EdDSA, ''k1'')"
    by (simp add: jwt_check_header_def parse_alg_def jwt_config_new_def)
  have s: "check_signature (jw_jws jwt_demo) (jv_keys jwt_demo_validator) 0 ''h.c'' ?sig ''k1'' EdDSA = Inr ()"
    by (simp add: check_signature_def jwt_demo_keys jwt_demo_def demo_env_def)
  have "check_claims jwt_demo (jwt_config_new ''idp'' ''api'') 950 ?claims = Inr ()"
    by (simp add: check_claims_def str_field_def aud_ok_def skew_secs_def wrap_i64_def i64_max_def jwt_demo_def jwt_config_new_def)
  then show ?thesis by (simp add: validate_def jwt_demo_config p h s)
qed


end
