(* ===== verification/ApiKeys.thy ===== *)
theory ApiKeys
  imports AuthError LogFiles
begin

text \<open>
  The API keys of the standalone server (\<open>agentguard-auth/src/api_key.rs\<close>): the in-memory store,
  the creation, verification and revocation of keys, and the snapshot on disk.

  Base64, JSON and Argon2 with its textual hashes are parameters.  Identifiers, secrets, salts and
  the clock are arguments.  The snapshot is an entry of a directory whose system calls may fail, as
  in the decision log; an entry is what its name resolves to.
\<close>

section \<open>Keys\<close>

record api_key_identity =
  subject_type :: string
  subject_id :: string
  tenant_id :: "string option"

record api_key =
  ak_id :: string
  ak_prefix :: string
  ak_secret_hash :: string
  ak_scopes :: "string list"
  ak_identity :: "api_key_identity option"
  ak_created_at :: int
  ak_expires_at :: "int option"
  ak_last_used_at :: "int option"
  ak_revoked_at :: "int option"

definition identity_new :: "string \<Rightarrow> string \<Rightarrow> string option \<Rightarrow> api_key_identity auth_result" where
  "identity_new stype sid tenant =
    (if stype \<notin> {''User'', ''Agent''} \<or> trim sid = [] then
       Inl (AuthOther ''API key identity must use User or Agent with a non-empty subject id'')
     else if (case tenant of Some t \<Rightarrow> trim t = [] | None \<Rightarrow> False) then
       Inl (AuthOther ''API key tenant id must be non-empty when provided'')
     else Inr \<lparr>subject_type = stype, subject_id = trim sid, tenant_id = map_option trim tenant\<rparr>)"

definition has_scope :: "api_key \<Rightarrow> string \<Rightarrow> bool" where
  "has_scope k required \<longleftrightarrow> required = [] \<or> list_ex (\<lambda>scope. scope = ''*'' \<or> scope = required) (ak_scopes k)"

definition valid_scope :: "string \<Rightarrow> bool" where
  "valid_scope scope \<longleftrightarrow> trim scope \<noteq> [] \<and> \<not> list_ex ascii_whitespace scope"

section \<open>Packages\<close>

text \<open>A parsed password hash: algorithm, version, salt, output and the decimal parameters.\<close>

record password_hash =
  phc_algorithm :: string
  phc_version :: "nat option"
  phc_salt :: "string option"
  phc_output :: "string option"
  phc_decimal :: "string \<Rightarrow> nat option"

record argon2_params =
  argon_memory :: nat
  argon_iterations :: nat
  argon_lanes :: nat

record key_env =
  kx_b64_encode :: "string \<Rightarrow> string"
  kx_b64_decode :: "string \<Rightarrow> string option"
  kx_params_new :: "nat \<Rightarrow> nat \<Rightarrow> nat \<Rightarrow> string + argon2_params"
  kx_hash_password :: "argon2_params \<Rightarrow> string \<Rightarrow> string \<Rightarrow> string + string"
  kx_phc_parse :: "string \<Rightarrow> string + password_hash"
  kx_verify_password :: "argon2_params \<Rightarrow> string \<Rightarrow> password_hash \<Rightarrow> bool"
  kx_to_json :: "api_key list \<Rightarrow> string + string"
  kx_from_json :: "string \<Rightarrow> string + api_key list"

definition argon2 :: "key_env \<Rightarrow> argon2_params auth_result" where
  "argon2 E = map_err (\<lambda>e. AuthOther (''argon2 params: '' @ e)) (kx_params_new E (64 * 1024) 3 4)"

section \<open>The store\<close>

type_synonym key_store = "(string \<times> api_key) list"

definition store_new :: key_store where
  "store_new = []"

definition quoted_colon :: string where
  "quoted_colon = [CHR 0x27, CHR '':'', CHR 0x27]"

definition validate_api_key_record :: "key_env \<Rightarrow> api_key \<Rightarrow> unit auth_result" where
  "validate_api_key_record E k =
    (if trim (ak_id k) = [] \<or> trim (ak_id k) \<noteq> ak_id k \<or> CHR '':'' \<in> set (ak_id k) then
       Inl (AuthOther (''API-key id must be non-empty and contain no '' @ quoted_colon))
     else if trim (ak_prefix k) = [] \<or> trim (ak_prefix k) \<noteq> ak_prefix k \<or> CHR '':'' \<in> set (ak_prefix k) then
       Inl (AuthOther (''API-key prefix must be non-empty and contain no '' @ quoted_colon))
     else if list_ex (\<lambda>scope. \<not> valid_scope scope) (ak_scopes k) then
       Inl (AuthOther ''API-key scopes must be non-empty and contain no whitespace'')
     else
       and_then (case ak_identity k of
           None \<Rightarrow> Inr ()
         | Some i \<Rightarrow> and_then (identity_new (subject_type i) (subject_id i) (tenant_id i)) (\<lambda>normalized.
             if normalized \<noteq> i then Inl (AuthOther ''API-key identity fields must be trimmed'') else Inr ())) (\<lambda>_.
       and_then (map_err (\<lambda>_. AuthOther ''API-key store contains an invalid password hash'') (kx_phc_parse E (ak_secret_hash k))) (\<lambda>h.
       let memory_kib = phc_decimal h ''m''; iterations = phc_decimal h ''t''; parallelism = phc_decimal h ''p'' in
       if phc_algorithm h \<noteq> ''argon2id''
         \<or> phc_version h \<noteq> Some 19
         \<or> phc_salt h = None
         \<or> phc_output h = None
         \<or> (case memory_kib of None \<Rightarrow> True | Some v \<Rightarrow> \<not> (8 \<le> v \<and> v \<le> 65536))
         \<or> (case iterations of None \<Rightarrow> True | Some v \<Rightarrow> \<not> (1 \<le> v \<and> v \<le> 3))
         \<or> (case parallelism of None \<Rightarrow> True | Some v \<Rightarrow> \<not> (1 \<le> v \<and> v \<le> 4))
         \<or> (case memory_kib of Some v \<Rightarrow> v | None \<Rightarrow> 0) < (case parallelism of Some v \<Rightarrow> v | None \<Rightarrow> 0) * 8
       then Inl (AuthOther ''API-key hash must use bounded Argon2id v19 parameters'')
       else Inr ())))"

fun insert_keys :: "key_env \<Rightarrow> api_key list \<Rightarrow> key_store \<Rightarrow> key_store auth_result" where
  "insert_keys E [] keys = Inr keys"
| "insert_keys E (k # ks) keys =
    and_then (validate_api_key_record E k) (\<lambda>_.
    if map_of keys (ak_id k) \<noteq> None then Inl (AuthOther (''duplicate API-key id in store: '' @ ak_id k))
    else insert_keys E ks (AList.update (ak_id k) k keys))"

definition path_exists :: "io_faults \<Rightarrow> dir \<Rightarrow> string \<Rightarrow> bool" where
  "path_exists io fs name \<longleftrightarrow> is_ok (attempt io (AtStat name)) \<and> map_of fs name \<noteq> None"

definition read_to_string :: "io_faults \<Rightarrow> dir \<Rightarrow> string \<Rightarrow> string + string" where
  "read_to_string io fs name =
    and_then (attempt io (AtRead name)) (\<lambda>_.
    case map_of fs name of
      None \<Rightarrow> Inl not_found
    | Some Special \<Rightarrow> Inl ''Is a directory (os error 21)''
    | Some (Regular c) \<Rightarrow> if utf8_valid c then Inr c else Inl ''stream did not contain valid UTF-8'')"

definition reload_from_file :: "key_env \<Rightarrow> io_faults \<Rightarrow> string \<Rightarrow> dir \<Rightarrow> key_store \<Rightarrow> unit auth_result \<times> key_store" where
  "reload_from_file E io name fs S =
    (let keys =
       (if path_exists io fs name then
          and_then (map_err (\<lambda>e. AuthOther (''read: '' @ e)) (read_to_string io fs name)) (\<lambda>text.
          and_then (map_err (\<lambda>e. AuthOther (''parse: '' @ e)) (kx_from_json E text)) (\<lambda>parsed.
          insert_keys E parsed []))
        else Inr [])
     in case keys of Inl e \<Rightarrow> (Inl e, S) | Inr keys \<Rightarrow> (Inr (), keys))"

definition load_from_file :: "key_env \<Rightarrow> io_faults \<Rightarrow> string \<Rightarrow> dir \<Rightarrow> key_store auth_result" where
  "load_from_file E io name fs =
    (case reload_from_file E io name fs store_new of (Inl e, _) \<Rightarrow> Inl e | (Inr _, S) \<Rightarrow> Inr S)"

text \<open>The snapshot is written to a temporary file that replaces the former one at once.\<close>

definition replace_file :: "io_faults \<Rightarrow> string \<Rightarrow> string \<Rightarrow> string \<Rightarrow> dir \<Rightarrow> (string + unit) \<times> dir" where
  "replace_file io tmp name body fs =
    (case attempt io (AtTmpOpen name) of
       Inl e \<Rightarrow> (Inl e, fs)
     | Inr _ \<Rightarrow>
       if map_of fs tmp \<noteq> None then (Inl ''File exists (os error 17)'', fs)
       else case attempt io (AtTmpWrite name) of
         Inl e \<Rightarrow> (Inl e, set_content tmp (take (io_written io) body) fs)
       | Inr _ \<Rightarrow>
         (case and_then (attempt io AtSync) (\<lambda>_. attempt io (AtRename name)) of
            Inl e \<Rightarrow> (Inl e, set_content tmp body fs)
          | Inr _ \<Rightarrow> (attempt io (AtDirSync name), set_content name body fs)))"

definition save_to_file :: "key_env \<Rightarrow> io_faults \<Rightarrow> string \<Rightarrow> string \<Rightarrow> key_store \<Rightarrow> dir \<Rightarrow> unit auth_result \<times> dir" where
  "save_to_file E io uuid name S fs =
    (let keys = sort_key (\<lambda>k. (ak_created_at k, ak_id k)) (map snd S) in
     case kx_to_json E keys of
       Inl e \<Rightarrow> (Inl (AuthOther (''serialize: '' @ e)), fs)
     | Inr text \<Rightarrow>
       if name = [] then (Inl (AuthOther ''API-key store path has no filename''), fs)
       else
         let temporary = ''.'' @ name @ ''.'' @ uuid @ ''.tmp'' in
         (case replace_file io temporary name text fs of
            (Inl error, fs) \<Rightarrow>
              (Inl (AuthOther (''write: '' @ error)),
               if is_ok (attempt io (AtTmpRemove name)) then AList.delete temporary fs else fs)
          | (Inr _, fs) \<Rightarrow> (Inr (), fs)))"

definition create_with_identity ::
  "key_env \<Rightarrow> int \<Rightarrow> string \<Rightarrow> string \<Rightarrow> string \<Rightarrow> string \<Rightarrow> string list \<Rightarrow> duration option \<Rightarrow> api_key_identity option
    \<Rightarrow> key_store \<Rightarrow> (api_key \<times> string) auth_result \<times> key_store" where
  "create_with_identity E now fresh_id secret_bytes salt prefix scopes ttl identity S =
    (if trim prefix = [] \<or> trim prefix \<noteq> prefix \<or> CHR '':'' \<in> set prefix then
       (Inl (AuthOther (''API key prefix must be non-empty and must not contain '' @ quoted_colon)), S)
     else if list_ex (\<lambda>scope. \<not> valid_scope scope) scopes then
       (Inl (AuthOther ''API-key scopes must be non-empty and contain no whitespace''), S)
     else
       let built =
         and_then (argon2 E) (\<lambda>argon.
         and_then (map_err (\<lambda>e. AuthOther (''argon2: '' @ e)) (kx_hash_password E argon secret_bytes salt)) (\<lambda>hashed.
         and_then (case ttl of
             None \<Rightarrow> Inr None
           | Some d \<Rightarrow>
               if int (d div 10 ^ 9) > i64_max then
                 Inl (AuthOther ''API key TTL exceeds the supported timestamp range'')
               else
                 (and_then (ok_or (AuthOther ''API key expiry exceeds the supported timestamp range'')
                   (checked_add now (int (d div 10 ^ 9)))) (\<lambda>t. Inr (Some t)))) (\<lambda>expires.
         Inr \<lparr>ak_id = fresh_id, ak_prefix = prefix, ak_secret_hash = hashed, ak_scopes = scopes, ak_identity = identity,
              ak_created_at = now, ak_expires_at = expires, ak_last_used_at = None, ak_revoked_at = None\<rparr>)))
       in case built of
         Inl e \<Rightarrow> (Inl e, S)
       | Inr k \<Rightarrow>
         (Inr (k, prefix @ '':'' @ ak_id k @ '':'' @ kx_b64_encode E secret_bytes), AList.update fresh_id k S))"

definition create ::
  "key_env \<Rightarrow> int \<Rightarrow> string \<Rightarrow> string \<Rightarrow> string \<Rightarrow> string \<Rightarrow> string list \<Rightarrow> duration option
    \<Rightarrow> key_store \<Rightarrow> (api_key \<times> string) auth_result \<times> key_store" where
  "create E now fresh_id secret_bytes salt prefix scopes ttl =
    create_with_identity E now fresh_id secret_bytes salt prefix scopes ttl None"

definition create_bound ::
  "key_env \<Rightarrow> int \<Rightarrow> string \<Rightarrow> string \<Rightarrow> string \<Rightarrow> string \<Rightarrow> string list \<Rightarrow> duration option \<Rightarrow> api_key_identity
    \<Rightarrow> key_store \<Rightarrow> (api_key \<times> string) auth_result \<times> key_store" where
  "create_bound E now fresh_id secret_bytes salt prefix scopes ttl i S =
    (case identity_new (subject_type i) (subject_id i) (tenant_id i) of
       Inl e \<Rightarrow> (Inl e, S)
     | Inr i \<Rightarrow> create_with_identity E now fresh_id secret_bytes salt prefix scopes ttl (Some i) S)"

definition verify_key :: "key_env \<Rightarrow> int \<Rightarrow> key_store \<Rightarrow> string \<Rightarrow> api_key auth_result" where
  "verify_key E now S raw =
    (let parts = split_on CHR '':'' raw in
     if length parts \<noteq> 3 then Inl ApiKeyInvalid
     else
       and_then (ok_or ApiKeyInvalid (kx_b64_decode E (parts ! 2))) (\<lambda>secret.
       and_then (ok_or ApiKeyInvalid (map_of S (parts ! 1))) (\<lambda>k.
       if ak_prefix k \<noteq> parts ! 0 then Inl (AuthOther (''prefix mismatch: '' @ ak_prefix k @ '' != '' @ parts ! 0))
       else if (case ak_expires_at k of Some t \<Rightarrow> t \<le> now | None \<Rightarrow> False) then Inl ApiKeyExpired
       else if ak_revoked_at k \<noteq> None then Inl ApiKeyRevoked
       else
         and_then (map_err (\<lambda>e. AuthOther (''hash parse: '' @ e)) (kx_phc_parse E (ak_secret_hash k))) (\<lambda>parsed.
         and_then (argon2 E) (\<lambda>argon.
         if \<not> kx_verify_password E argon secret parsed then Inl ApiKeyInvalid else Inr k)))))"

definition revoke_key :: "int \<Rightarrow> string \<Rightarrow> key_store \<Rightarrow> unit auth_result \<times> key_store" where
  "revoke_key now ident S =
    (case map_of S ident of
       None \<Rightarrow> (Inl ApiKeyInvalid, S)
     | Some k \<Rightarrow> (Inr (), AList.update ident (k\<lparr>ak_revoked_at := Some now\<rparr>) S))"

definition list_keys :: "key_store \<Rightarrow> api_key list" where
  "list_keys S = map snd S"

section \<open>The invariant of a store\<close>

definition store_ok :: "key_env \<Rightarrow> key_store \<Rightarrow> bool" where
  "store_ok E S \<longleftrightarrow> distinct_keys S \<and> (\<forall>(i, k) \<in> set S. ak_id k = i \<and> validate_api_key_record E k = Inr ())"

lemma store_ok_new: "store_ok E store_new"
  by (simp add: store_ok_def store_new_def)

lemma store_ok_update:
  assumes "store_ok E S" "validate_api_key_record E k = Inr ()"
  shows "store_ok E (AList.update (ak_id k) k S)"
proof -
  have "set (AList.update (ak_id k) k S) \<subseteq> insert (ak_id k, k) (set S)" by (induction S) auto
  then show ?thesis using assms distinct_keys_update unfolding store_ok_def by fast
qed

lemma store_ok_lookup: "store_ok E S \<Longrightarrow> map_of S i = Some k \<Longrightarrow> ak_id k = i \<and> validate_api_key_record E k = Inr ()"
  unfolding store_ok_def by (auto dest!: map_of_SomeD)

lemma insert_keys_ok: "insert_keys E ks S = Inr S' \<Longrightarrow> store_ok E S \<Longrightarrow> store_ok E S'"
  by (induction E ks S rule: insert_keys.induct) (auto simp: result_simps store_ok_update split: if_splits)

lemma insert_keys_all:
  assumes "\<forall>k \<in> set ks. validate_api_key_record E k = Inr ()" "distinct (map ak_id ks)" "\<forall>k \<in> set ks. ak_id k \<notin> fst ` set S"
  shows "insert_keys E ks S = Inr (S @ map (\<lambda>k. (ak_id k, k)) ks)"
  using assms
proof (induction ks arbitrary: S)
  case (Cons k ks)
  then have "map_of S (ak_id k) = None" "AList.update (ak_id k) k S = S @ [(ak_id k, k)]"
    by (simp_all add: map_of_eq_None_iff update_fresh)
  moreover have "\<forall>j \<in> set ks. ak_id j \<notin> fst ` set (S @ [(ak_id k, k)])" using Cons.prems by simp (metis imageI)
  ultimately show ?case using Cons by simp
qed simp

lemma revoked_record_valid: "validate_api_key_record E (k\<lparr>ak_revoked_at := t\<rparr>) = validate_api_key_record E k"
  by (simp add: validate_api_key_record_def)

lemma revoke_key_ok: "store_ok E S \<Longrightarrow> store_ok E (snd (revoke_key now ident S))"
proof (cases "map_of S ident")
  case (Some k)
  assume S: "store_ok E S"
  then have "ak_id k = ident" "validate_api_key_record E (k\<lparr>ak_revoked_at := Some now\<rparr>) = Inr ()"
    using store_ok_lookup Some by (auto simp: revoked_record_valid)
  then show ?thesis using store_ok_update [OF S, of "k\<lparr>ak_revoked_at := Some now\<rparr>"] Some by (simp add: revoke_key_def)
qed (simp add: revoke_key_def)

lemma reload_cases:
  "reload_from_file E io name fs S = (r, S') \<Longrightarrow> (\<exists>e. r = Inl e \<and> S' = S) \<or> r = Inr () \<and> store_ok E S'"
  using store_ok_new insert_keys_ok
  by (auto simp: reload_from_file_def result_simps store_new_def Let_def split: if_splits sum.splits)

section \<open>Creation\<close>

text \<open>
  What the packages document: base64 text decodes to the bytes and has no colon, a password hash
  carries the parameters it was made with and verifies its password, and JSON text reads back.
\<close>

definition key_env_ok :: "key_env \<Rightarrow> bool" where
  "key_env_ok E \<longleftrightarrow>
    (\<forall>s. kx_b64_decode E (kx_b64_encode E s) = Some s \<and> CHR '':'' \<notin> set (kx_b64_encode E s)) \<and>
    (\<forall>m t p a. kx_params_new E m t p = Inr a \<longrightarrow> a = \<lparr>argon_memory = m, argon_iterations = t, argon_lanes = p\<rparr>) \<and>
    (\<forall>a s salt h. kx_hash_password E a s salt = Inr h \<longrightarrow>
      (\<exists>p. kx_phc_parse E h = Inr p \<and> kx_verify_password E a s p \<and> phc_algorithm p = ''argon2id'' \<and> phc_version p = Some 19 \<and>
        phc_salt p \<noteq> None \<and> phc_output p \<noteq> None \<and> phc_decimal p ''m'' = Some (argon_memory a) \<and>
        phc_decimal p ''t'' = Some (argon_iterations a) \<and> phc_decimal p ''p'' = Some (argon_lanes a))) \<and>
    (\<forall>ks text. kx_to_json E ks = Inr text \<longrightarrow> kx_from_json E text = Inr ks \<and> utf8_valid text)"

definition usable_id :: "string \<Rightarrow> bool" where
  "usable_id i \<longleftrightarrow> i \<noteq> [] \<and> trim i = i \<and> CHR '':'' \<notin> set i"

lemma identity_new_idem:
  "identity_new a b c = Inr i \<Longrightarrow> identity_new (subject_type i) (subject_id i) (tenant_id i) = Inr i"
  by (auto simp: identity_new_def option.map_comp comp_def split: if_splits option.splits)

lemma create_Inr:
  assumes "create_with_identity E now fresh secret salt prefix scopes ttl identity S = (Inr (k, raw), S')"
  obtains a where "argon2 E = Inr a" "kx_hash_password E a secret salt = Inr (ak_secret_hash k)"
    "S' = AList.update fresh k S" "raw = prefix @ '':'' @ fresh @ '':'' @ kx_b64_encode E secret"
    "ak_id k = fresh" "ak_prefix k = prefix" "ak_scopes k = scopes" "ak_identity k = identity" "ak_revoked_at k = None"
    "usable_id prefix" "\<forall>scope \<in> set scopes. valid_scope scope"
proof -
  show ?thesis
    using assms that unfolding create_with_identity_def Let_def
    by (auto simp: result_simps usable_id_def list_ex_iff split: if_splits sum.splits)
qed

lemma created_record_valid:
  assumes "key_env_ok E" "usable_id fresh" "case identity of None \<Rightarrow> True | Some i \<Rightarrow> identity_new (subject_type i) (subject_id i) (tenant_id i) = Inr i"
    and "create_with_identity E now fresh secret salt prefix scopes ttl identity S = (Inr (k, raw), S')"
  shows "validate_api_key_record E k = Inr ()"
proof -
  obtain a where a: "argon2 E = Inr a" "kx_hash_password E a secret salt = Inr (ak_secret_hash k)"
    "ak_id k = fresh" "ak_prefix k = prefix" "ak_scopes k = scopes" "ak_identity k = identity"
    "usable_id prefix" "\<forall>scope \<in> set scopes. valid_scope scope"
    using create_Inr [OF assms(4)] by metis
  have "a = \<lparr>argon_memory = 64 * 1024, argon_iterations = 3, argon_lanes = 4\<rparr>"
    using a(1) assms(1) by (auto simp: argon2_def key_env_ok_def result_simps)
  moreover obtain p where "kx_phc_parse E (ak_secret_hash k) = Inr p" "phc_algorithm p = ''argon2id''" "phc_version p = Some 19"
      "phc_salt p \<noteq> None" "phc_output p \<noteq> None" "phc_decimal p ''m'' = Some (argon_memory a)"
      "phc_decimal p ''t'' = Some (argon_iterations a)" "phc_decimal p ''p'' = Some (argon_lanes a)"
    using a(2) assms(1) unfolding key_env_ok_def by blast
  ultimately show ?thesis
    using a assms(2,3) by (auto simp: validate_api_key_record_def usable_id_def list_ex_iff Let_def split: option.splits)
qed

section \<open>Verification\<close>

lemma verify_key_Inr:
  "verify_key E now S raw = Inr k \<longleftrightarrow>
    (\<exists>i s secret h a. split_on CHR '':'' raw = [ak_prefix k, i, s] \<and> kx_b64_decode E s = Some secret \<and> map_of S i = Some k \<and>
      (\<forall>t. ak_expires_at k = Some t \<longrightarrow> now < t) \<and> ak_revoked_at k = None \<and> kx_phc_parse E (ak_secret_hash k) = Inr h \<and>
      argon2 E = Inr a \<and> kx_verify_password E a secret h)"
proof (cases "\<exists>x y z. split_on CHR '':'' raw = [x, y, z]")
  case True
  then show ?thesis
    by (auto simp: verify_key_def result_simps not_le split: if_splits option.splits)
next
  case False
  then have "length (split_on CHR '':'' raw) \<noteq> 3" by (auto simp: numeral_eq_Suc length_Suc_conv)
  then show ?thesis using False by (auto simp: verify_key_def)
qed

lemma created_key_verifies:
  assumes "key_env_ok E" "usable_id fresh"
    and "create_with_identity E now fresh secret salt prefix scopes ttl identity S = (Inr (k, raw), S')"
    and "map_of S'' fresh = Some k" "\<forall>d. ak_expires_at k = Some d \<longrightarrow> t < d"
  shows "verify_key E t S'' raw = Inr k"
proof -
  obtain a where a: "argon2 E = Inr a" "kx_hash_password E a secret salt = Inr (ak_secret_hash k)"
    "raw = prefix @ '':'' @ fresh @ '':'' @ kx_b64_encode E secret" "ak_prefix k = prefix" "ak_revoked_at k = None" "usable_id prefix"
    using create_Inr [OF assms(3)] by metis
  have "split_on CHR '':'' raw = [prefix, fresh, kx_b64_encode E secret]"
    using a(3,6) assms(1,2) by (simp add: usable_id_def key_env_ok_def split_on_append_sep split_on_no_sep)
  moreover have "kx_b64_decode E (kx_b64_encode E secret) = Some secret" using assms(1) by (simp add: key_env_ok_def)
  moreover obtain p where "kx_phc_parse E (ak_secret_hash k) = Inr p" "kx_verify_password E a secret p"
    using a(2) assms(1) unfolding key_env_ok_def by blast
  ultimately show ?thesis using a(1,4,5) assms(4,5) unfolding verify_key_Inr by blast
qed

section \<open>Snapshots\<close>

lemma temporary_neq: "''.'' @ name @ suffix \<noteq> name"
proof
  assume "''.'' @ name @ suffix = name"
  then have "length (''.'' @ name @ suffix) = length name" by simp
  then show False by simp
qed

lemma replace_file_cases:
  assumes "replace_file io tmp name body fs = (r, fs')" "tmp \<noteq> name"
  shows "map_of fs' name = Some (Regular body) \<or> (\<exists>e. r = Inl e) \<and> map_of fs' name = map_of fs name"
    and "e \<noteq> name \<Longrightarrow> e \<noteq> tmp \<Longrightarrow> map_of fs' e = map_of fs e"
  using assms
  by (cases "attempt io (AtTmpOpen name)"; cases "attempt io (AtTmpWrite name)";
      cases "and_then (attempt io AtSync) (\<lambda>_. attempt io (AtRename name))";
      auto simp: replace_file_def set_content_def map_of_update split: if_splits)+

definition snapshot_keys :: "key_store \<Rightarrow> api_key list" where
  "snapshot_keys S = sort_key (\<lambda>k. (ak_created_at k, ak_id k)) (map snd S)"

lemma save_cases:
  assumes "save_to_file E io uuid name S fs = (r, fs')"
  shows "(\<exists>text. kx_to_json E (snapshot_keys S) = Inr text \<and> map_of fs' name = Some (Regular text)) \<or>
    (\<exists>e. r = Inl e) \<and> map_of fs' name = map_of fs name"
    and "e \<noteq> name \<Longrightarrow> e \<noteq> ''.'' @ name @ ''.'' @ uuid @ ''.tmp'' \<Longrightarrow> map_of fs' e = map_of fs e"
proof -
  let ?tmp = "''.'' @ name @ ''.'' @ uuid @ ''.tmp''"
  have tmp: "?tmp \<noteq> name" by (rule temporary_neq)
  consider (skip) e where "r = Inl e" "fs' = fs"
    | (wrote) body q fs1 where "kx_to_json E (snapshot_keys S) = Inr body" "replace_file io ?tmp name body fs = (q, fs1)"
        "is_ok q = is_ok r" "fs' = fs1 \<or> fs' = AList.delete ?tmp fs1"
    using assms unfolding save_to_file_def snapshot_keys_def Let_def
    by (cases "kx_to_json E (sort_key (\<lambda>k. (ak_created_at k, ak_id k)) (map snd S))")
      (auto split: if_splits sum.splits prod.splits)
  note outcome = this
  show "(\<exists>text. kx_to_json E (snapshot_keys S) = Inr text \<and> map_of fs' name = Some (Regular text)) \<or>
      (\<exists>e. r = Inl e) \<and> map_of fs' name = map_of fs name"
    using outcome replace_file_cases(1) [OF _ tmp] tmp by cases (force simp: map_of_delete, cases r, fastforce+)
  show "e \<noteq> name \<Longrightarrow> e \<noteq> ?tmp \<Longrightarrow> map_of fs' e = map_of fs e"
    using outcome replace_file_cases(2) [OF _ tmp] tmp by cases (auto simp: map_of_delete)
qed

lemma reloaded_snapshot:
  assumes "key_env_ok E" "store_ok E S" "map_of fs name = Some (Regular text)" "kx_to_json E (snapshot_keys S) = Inr text"
    and "attempt io (AtStat name) = Inr ()" "attempt io (AtRead name) = Inr ()"
  obtains S' where "load_from_file E io name fs = Inr S'" "map_of S' = map_of S"
proof -
  let ?ks = "snapshot_keys S" and ?m = "\<lambda>k. (ak_id k, k)"
  have ids: "map ak_id (map snd S) = map fst S" using assms(2) by (auto simp: store_ok_def)
  have S: "S = map ?m (map snd S)" using assms(2) by (auto simp: store_ok_def comp_def intro!: map_idI [symmetric])
  have "distinct (map ak_id (map snd S))" unfolding ids using assms(2) by (simp add: store_ok_def)
  moreover have "mset (map ak_id ?ks) = mset (map ak_id (map snd S))" by (simp add: snapshot_keys_def flip: multiset.map_comp)
  ultimately have d: "distinct (map ak_id ?ks)" using mset_eq_imp_distinct_iff by blast
  have v: "\<forall>k \<in> set ?ks. validate_api_key_record E k = Inr ()" using assms(2) by (auto simp: snapshot_keys_def store_ok_def)
  have "insert_keys E ?ks [] = Inr (map ?m ?ks)" using insert_keys_all [OF v d, of "[]"] by simp
  moreover have "kx_from_json E text = Inr ?ks" "utf8_valid text" using assms(1,4) unfolding key_env_ok_def by blast+
  ultimately have "load_from_file E io name fs = Inr (map ?m ?ks)"
    using assms(3,5,6) by (simp add: load_from_file_def reload_from_file_def path_exists_def read_to_string_def)
  moreover have "set (map ?m ?ks) = set (map ?m (map snd S))" by (simp add: snapshot_keys_def image_image)
  then have "set (map ?m ?ks) = set S" unfolding S [symmetric] .
  then have "map_of (map ?m ?ks) = map_of S"
    using map_of_inject_set [of "map ?m ?ks" S] d assms(2) by (simp add: store_ok_def comp_def)
  ultimately show ?thesis using that by blast
qed

section \<open>Histories of a store\<close>

datatype key_event =
    KeyCreate int string string string string "string list" "duration option" "api_key_identity option"
  | KeyRevoke int string
  | KeyReload io_faults string dir

fun run_key_event :: "key_env \<Rightarrow> key_event \<Rightarrow> key_store \<Rightarrow> key_store" where
  "run_key_event E (KeyCreate now fresh secret salt prefix scopes ttl None) S = snd (create E now fresh secret salt prefix scopes ttl S)"
| "run_key_event E (KeyCreate now fresh secret salt prefix scopes ttl (Some i)) S =
    snd (create_bound E now fresh secret salt prefix scopes ttl i S)"
| "run_key_event E (KeyRevoke now ident) S = snd (revoke_key now ident S)"
| "run_key_event E (KeyReload io name fs) S = snd (reload_from_file E io name fs S)"

text \<open>The only ways for an identifier to name a live key again: it is drawn anew, or a key file has it so.\<close>

fun revives :: "key_env \<Rightarrow> string \<Rightarrow> key_event \<Rightarrow> bool" where
  "revives E ident (KeyCreate now fresh secret salt prefix scopes ttl i) \<longleftrightarrow> fresh = ident"
| "revives E ident (KeyRevoke now i) \<longleftrightarrow> False"
| "revives E ident (KeyReload io name fs) \<longleftrightarrow>
    (case load_from_file E io name fs of
       Inl _ \<Rightarrow> False
     | Inr S \<Rightarrow> (case map_of S ident of Some k \<Rightarrow> ak_revoked_at k = None | None \<Rightarrow> False))"

definition not_live :: "string \<Rightarrow> key_store \<Rightarrow> bool" where
  "not_live ident S \<longleftrightarrow> (\<forall>k. map_of S ident = Some k \<longrightarrow> ak_revoked_at k \<noteq> None)"

lemma create_other:
  "fresh \<noteq> ident \<Longrightarrow> map_of (snd (create_with_identity E now fresh secret salt prefix scopes ttl i S)) ident = map_of S ident"
  by (simp add: create_with_identity_def Let_def map_of_update split: sum.splits)

lemma run_key_event_not_live:
  assumes "not_live ident S" "\<not> revives E ident ev"
  shows "not_live ident (run_key_event E ev S)"
  using assms
proof (induction E ev S rule: run_key_event.induct)
  case (3 E now i S)
  then show ?case
    by (cases "map_of S i") (auto simp: not_live_def revoke_key_def map_of_update)
next
  case (4 E io name fs S)
  obtain r S' where "reload_from_file E io name fs S = (r, S')" by fastforce
  moreover have "\<exists>r'. reload_from_file E io name fs store_new = (r', if is_ok r then S' else store_new) \<and> is_ok r' = is_ok r"
    using calculation by (auto simp: reload_from_file_def Let_def split: sum.splits)
  ultimately show ?case
    using 4 by (cases r) (auto simp: not_live_def load_from_file_def reload_from_file_def Let_def split: sum.splits option.splits)
qed (auto simp: not_live_def create_def create_bound_def create_other split: sum.splits)

section \<open>Properties\<close>

text \<open>
  C10: a revoked key is refused from then on, at any time and over any history of creations,
  revocations and reloads of the key file, until a key file that has it live again is loaded or its
  random identifier is drawn a second time.
\<close>

theorem revoked_key_never_verifies:
  assumes "revoke_key t0 ident S = (Inr (), S1)" "\<forall>ev \<in> set evs. \<not> revives E ident ev"
    and "split_on CHR '':'' raw = [p, ident, s]"
  shows "\<not> is_ok (verify_key E t (fold (run_key_event E) evs S1) raw)"
proof -
  have "not_live ident S1"
    using assms(1) by (auto simp: revoke_key_def not_live_def map_of_update split: option.splits)
  moreover have "not_live ident S1 \<Longrightarrow> not_live ident (fold (run_key_event E) evs S1)"
    using assms(2) by (induction evs arbitrary: S1) (auto simp: run_key_event_not_live)
  ultimately have "not_live ident (fold (run_key_event E) evs S1)" by blast
  then show ?thesis using assms(3) by (auto simp: is_ok_iff verify_key_Inr not_live_def)
qed

text \<open>
  C25: a key survives a restart.  Once a key has been created in a valid store and the store was
  saved, a server that reads the key file accepts the secret handed out, as that key with its
  scopes and identity, at any time before the key expires.
\<close>

theorem created_key_survives_restart:
  assumes "key_env_ok E" "store_ok E S" "usable_id fresh"
    and "create_bound E now fresh secret salt prefix scopes ttl i S = (Inr (k, raw), S1)"
    and "save_to_file E io uuid name S1 fs = (Inr (), fs1)"
    and "attempt io' (AtStat name) = Inr ()" "attempt io' (AtRead name) = Inr ()"
    and "\<forall>d. ak_expires_at k = Some d \<longrightarrow> t < d"
  shows "\<exists>S2. load_from_file E io' name fs1 = Inr S2 \<and> verify_key E t S2 raw = Inr k \<and> ak_scopes k = scopes \<and>
    (\<exists>j. identity_new (subject_type i) (subject_id i) (tenant_id i) = Inr j \<and> ak_identity k = Some j)"
proof -
  obtain j where j: "identity_new (subject_type i) (subject_id i) (tenant_id i) = Inr j"
      and c: "create_with_identity E now fresh secret salt prefix scopes ttl (Some j) S = (Inr (k, raw), S1)"
    using assms(4) by (auto simp: create_bound_def split: sum.splits)
  have k: "S1 = AList.update fresh k S" "ak_id k = fresh" "ak_scopes k = scopes" "ak_identity k = Some j"
    using create_Inr [OF c] by metis+
  have "validate_api_key_record E k = Inr ()"
    using created_record_valid [OF assms(1,3) _ c] identity_new_idem [OF j] by simp
  then have S1: "store_ok E S1" using store_ok_update [OF assms(2)] k(1,2) by blast
  obtain body where "kx_to_json E (snapshot_keys S1) = Inr body" "map_of fs1 name = Some (Regular body)"
    using save_cases(1) [OF assms(5)] by auto
  then obtain S2 where S2: "load_from_file E io' name fs1 = Inr S2" "map_of S2 = map_of S1"
    using reloaded_snapshot [OF assms(1) S1 _ _ assms(6,7)] by metis
  have "verify_key E t S2 raw = Inr k"
    by (rule created_key_verifies [OF assms(1,3) c _ assms(8)]) (simp add: S2(2) k(1) map_of_update)
  then show ?thesis using S2(1) j k by blast
qed

text \<open>
  C33: key snapshots are all or nothing.  Whatever system calls fail, saving leaves in the key file
  either what it had or the complete new set, and Ok means the latter; no other file changes but
  the temporary one.  A reload that fails leaves the live keys as they were, and one that succeeds
  makes only valid records live.
\<close>

theorem key_snapshot_atomic:
  assumes "save_to_file E io uuid name S fs = (r, fs1)" "reload_from_file E io' name' fs' S' = (r', S1)"
  shows "(map_of fs1 name = map_of fs name \<and> r \<noteq> Inr () \<or>
      (\<exists>body. kx_to_json E (snapshot_keys S) = Inr body \<and> map_of fs1 name = Some (Regular body))) \<and>
    (\<forall>e. e \<noteq> name \<and> e \<noteq> ''.'' @ name @ ''.'' @ uuid @ ''.tmp'' \<longrightarrow> map_of fs1 e = map_of fs e) \<and>
    (r' \<noteq> Inr () \<and> S1 = S' \<or> r' = Inr () \<and> store_ok E S1)"
  using save_cases [OF assms(1)] reload_cases [OF assms(2)] by auto

section \<open>A key\<close>

definition demo_phc :: "string \<Rightarrow> password_hash" where
  "demo_phc h = \<lparr>phc_algorithm = ''argon2id'', phc_version = Some 19, phc_salt = Some [], phc_output = Some h,
    phc_decimal = [''m'' \<mapsto> 65536, ''t'' \<mapsto> 3, ''p'' \<mapsto> 4]\<rparr>"

definition demo_key :: api_key where
  "demo_key = \<lparr>ak_id = ''id1'', ak_prefix = ''ag'', ak_secret_hash = ''secret'', ak_scopes = [''authorize''],
    ak_identity = Some \<lparr>subject_type = ''Agent'', subject_id = ''bot'', tenant_id = None\<rparr>, ak_created_at = 100,
    ak_expires_at = None, ak_last_used_at = None, ak_revoked_at = None\<rparr>"

definition demo_key_env :: key_env where
  "demo_key_env =
    \<lparr>kx_b64_encode = hex_encode plain_hex, kx_b64_decode = (\<lambda>s. ok_of (hex_decode plain_hex s)),
     kx_params_new = (\<lambda>m t p. Inr \<lparr>argon_memory = m, argon_iterations = t, argon_lanes = p\<rparr>),
     kx_hash_password = (\<lambda>a s salt. if a = \<lparr>argon_memory = 65536, argon_iterations = 3, argon_lanes = 4\<rparr> then Inr s else Inl []),
     kx_phc_parse = (\<lambda>h. Inr (demo_phc h)), kx_verify_password = (\<lambda>a s p. phc_output p = Some s),
     kx_to_json = (\<lambda>ks. if ks = [demo_key] then Inr ''[k]'' else Inl []),
     kx_from_json = (\<lambda>t. if t = ''[k]'' then Inr [demo_key] else Inl [])\<rparr>"

lemma hex_no_colon: "CHR '':'' \<notin> set (hex_encode plain_hex b)"
proof -
  have "d < 16 \<Longrightarrow> CHR '':'' \<noteq> hex_digit d" for d
    by (auto simp: hex_digit_def char_of_eq_iff take_bit_eq_mod dest!: sym [of "CHR '':''"])
  then show ?thesis using of_char_div by (induction b) (auto simp: plain_hex_def show_hex2_def)
qed

lemma demo_key_env_ok: "key_env_ok demo_key_env"
proof -
  have "utf8_valid ''[k]''" by code_simp
  then show ?thesis
    using plain_hex_ok by (simp add: key_env_ok_def demo_key_env_def hex_no_colon demo_phc_def hex_codec_ok_def ok_of_def)
qed

lemma demo_trimmed: "trim ''ag'' = ''ag''" "trim ''bot'' = ''bot''" "trim ''authorize'' = ''authorize''" "trim ''id1'' = ''id1''"
  by code_simp+

lemma demo_created:
  "create_bound demo_key_env 100 ''id1'' ''secret'' [] ''ag'' [''authorize''] None \<lparr>subject_type = ''Agent'', subject_id = ''bot'', tenant_id = None\<rparr>
    store_new = (Inr (demo_key, ''ag:id1:'' @ hex_encode plain_hex ''secret''), [(''id1'', demo_key)])"
  by (simp add: create_bound_def identity_new_def demo_trimmed create_with_identity_def valid_scope_def ascii_whitespace_def argon2_def demo_key_env_def
      demo_key_def store_new_def)

lemma demo_saved:
  "save_to_file demo_key_env no_faults ''u'' ''keys.json'' [(''id1'', demo_key)] [] = (Inr (), [(''keys.json'', Regular ''[k]'')])"
  by (simp add: save_to_file_def demo_key_env_def replace_file_def  set_content_def)

theorem revoked_key_never_verifies_witness:
  "\<not> is_ok (verify_key demo_key_env 300
    (fold (run_key_event demo_key_env) [KeyCreate 150 ''id2'' ''s'' [] ''ag'' [] None None, KeyReload no_faults ''keys.json'' [(''keys.json'', Regular ''bad'')]]
      (snd (revoke_key 120 ''id1'' [(''id1'', demo_key)]))) (''ag:id1:'' @ hex_encode plain_hex ''secret''))"
proof (rule revoked_key_never_verifies [where ident = "''id1''" and S = "[(''id1'', demo_key)]" and p = "''ag''"])
  show "revoke_key 120 ''id1'' [(''id1'', demo_key)] = (Inr (), snd (revoke_key 120 ''id1'' [(''id1'', demo_key)]))"
    by (simp add: revoke_key_def)
  have "utf8_valid ''bad''" by code_simp
  then have "load_from_file demo_key_env no_faults ''keys.json'' [(''keys.json'', Regular ''bad'')] = Inl (AuthOther ''parse: '')"
    by (simp add: load_from_file_def reload_from_file_def path_exists_def read_to_string_def  demo_key_env_def)
  then show "\<forall>ev \<in> set [KeyCreate 150 ''id2'' ''s'' [] ''ag'' [] None None,
      KeyReload no_faults ''keys.json'' [(''keys.json'', Regular ''bad'')]]. \<not> revives demo_key_env ''id1'' ev" by simp
  show "split_on CHR '':'' (''ag:id1:'' @ hex_encode plain_hex ''secret'') = [''ag'', ''id1'', hex_encode plain_hex ''secret'']"
    using hex_no_colon by (simp add: split_on_no_sep)
qed

theorem created_key_survives_restart_witness:
  "\<exists>S2. load_from_file demo_key_env no_faults ''keys.json'' [(''keys.json'', Regular ''[k]'')] = Inr S2 \<and>
    verify_key demo_key_env 200 S2 (''ag:id1:'' @ hex_encode plain_hex ''secret'') = Inr demo_key"
  using created_key_survives_restart [OF demo_key_env_ok store_ok_new _ demo_created demo_saved, of no_faults 200]
  by (auto simp: usable_id_def demo_trimmed  demo_key_def)

theorem key_snapshot_atomic_witness:
  "map_of [(''keys.json'', Regular ''[k]'')] ''keys.json'' \<noteq> None \<and>
    (\<exists>body. kx_to_json demo_key_env (snapshot_keys [(''id1'', demo_key)]) = Inr body) \<and>
    snd (reload_from_file demo_key_env no_faults ''keys.json'' [(''keys.json'', Special)] [(''id1'', demo_key)]) = [(''id1'', demo_key)]"
proof -
  have r: "reload_from_file demo_key_env no_faults ''keys.json'' [(''keys.json'', Special)] [(''id1'', demo_key)] =
      (Inl (AuthOther ''read: Is a directory (os error 21)''), [(''id1'', demo_key)])"
    by (simp add: reload_from_file_def path_exists_def read_to_string_def )
  show ?thesis using key_snapshot_atomic [OF demo_saved r] r by auto
qed

section \<open>Findings\<close>

text \<open>
  A key file whose metadata cannot be read counts as missing, so the reload succeeds and empties
  the live set.
\<close>

theorem unreadable_key_file_erases_keys:
  "attempt io (AtStat name) = Inl e \<Longrightarrow> reload_from_file E io name fs S = (Inr (), [])"
  by (simp add: reload_from_file_def path_exists_def)

end
