(* ===== verification/Metrics.thy ===== *)
theory Metrics
  imports Prelude
begin

text \<open>
  The metrics registry (\<open>agentguard-telemetry/src/metrics.rs\<close>): counters that wrap at 64 bits,
  histograms, label-keyed maps that stop growing at a cap, and the text the metrics endpoint
  serves.

  Double-precision numbers are of a type \<open>'f\<close>, with the operations of the hardware and of the
  formatting library as a parameter.  The one-time log messages are state flags only.
\<close>

section \<open>Counters and histograms\<close>

record 'f float_ops =
  f_finite :: "'f \<Rightarrow> bool"
  f_order :: "'f \<Rightarrow> int"
  f_eq :: "'f \<Rightarrow> 'f \<Rightarrow> bool"
  f_le :: "'f \<Rightarrow> 'f \<Rightarrow> bool"
  f_lit :: "string \<Rightarrow> 'f"
  f_secs :: "duration \<Rightarrow> 'f"
  f_micros_to_secs :: "nat \<Rightarrow> 'f"
  f_show :: "'f \<Rightarrow> string"

type_synonym counter = "64 word"

definition counter_add :: "counter \<Rightarrow> counter \<Rightarrow> counter" where
  "counter_add c n = c + n"

definition counter_inc :: "counter \<Rightarrow> counter" where
  "counter_inc c = c + 1"

record 'f histogram =
  h_name :: string
  h_buckets :: "'f list"
  h_bucket_counts :: "counter list"
  h_sum_micros :: counter
  h_count :: counter

text \<open>\<open>Vec::dedup_by\<close>: an element equal to the last one kept is dropped.\<close>

fun dedup_by :: "('a \<Rightarrow> 'a \<Rightarrow> bool) \<Rightarrow> 'a list \<Rightarrow> 'a list" where
  "dedup_by eq (x # y # ys) = (if eq y x then dedup_by eq (x # ys) else x # dedup_by eq (y # ys))"
| "dedup_by eq xs = xs"

definition histogram_new :: "'f float_ops \<Rightarrow> string \<Rightarrow> 'f list \<Rightarrow> 'f histogram" where
  "histogram_new F name buckets =
    (let bounds = dedup_by (f_eq F) (sort_key (f_order F) (filter (f_finite F) buckets))
     in \<lparr>h_name = name, h_buckets = bounds, h_bucket_counts = replicate (length bounds + 1) 0, h_sum_micros = 0, h_count = 0\<rparr>)"

definition observe :: "'f float_ops \<Rightarrow> duration \<Rightarrow> 'f histogram \<Rightarrow> 'f histogram" where
  "observe F d h =
    (let secs = f_secs F d in
     h\<lparr>h_count := counter_inc (h_count h),
       h_sum_micros := h_sum_micros h + of_nat (d div 1000),
       h_bucket_counts := map2 (\<lambda>b c. case b of Some bound \<Rightarrow> if f_le F secs bound then counter_inc c else c | None \<Rightarrow> counter_inc c)
         (map Some (h_buckets h) @ [None]) (h_bucket_counts h)\<rparr>)"

text \<open>A boundary \<open>None\<close> is positive infinity.\<close>

definition bucket_counts :: "'f histogram \<Rightarrow> ('f option \<times> counter) list" where
  "bucket_counts h = zip (map Some (h_buckets h)) (h_bucket_counts h) @ [(None, last (h_bucket_counts h))]"

definition sum_seconds :: "'f float_ops \<Rightarrow> 'f histogram \<Rightarrow> 'f" where
  "sum_seconds F h = f_micros_to_secs F (unat (h_sum_micros h))"

section \<open>The registry\<close>

definition DEFAULT_LABEL_CARDINALITY_CAP :: nat where
  "DEFAULT_LABEL_CARDINALITY_CAP = 4096"

record 'f metrics =
  m_decision_total :: "(string \<times> counter) list"
  m_decision_duration :: "(string \<times> 'f histogram) list"
  m_delegation_mint_total :: counter
  m_delegation_verify_total :: "(string \<times> counter) list"
  m_cache_hit_total :: counter
  m_cache_miss_total :: counter
  m_policy_reload_total :: counter
  m_pdp_error_total :: "(string \<times> counter) list"
  m_cardinality_cap :: nat
  m_warn_decision_cap :: bool
  m_warn_duration_cap :: bool
  m_warn_pdp_error_cap :: bool

definition metrics_with_cap :: "nat \<Rightarrow> 'f metrics" where
  "metrics_with_cap c =
    \<lparr>m_decision_total = [], m_decision_duration = [], m_delegation_mint_total = 0, m_delegation_verify_total = [],
     m_cache_hit_total = 0, m_cache_miss_total = 0, m_policy_reload_total = 0, m_pdp_error_total = [], m_cardinality_cap = c,
     m_warn_decision_cap = False, m_warn_duration_cap = False, m_warn_pdp_error_cap = False\<rparr>"

definition metrics_new :: "'f metrics" where
  "metrics_new = metrics_with_cap DEFAULT_LABEL_CARDINALITY_CAP"

definition label_key :: "string list \<Rightarrow> string" where
  "label_key parts = join_with CHR 0x1F parts"

text \<open>
  The increment of a label-keyed counter: a known label counts, a new one is added below the cap,
  and is dropped at the cap.
\<close>

definition capped_inc :: "nat \<Rightarrow> string \<Rightarrow> (string \<times> counter) list \<Rightarrow> (string \<times> counter) list option" where
  "capped_inc cap key m =
    (case map_of m key of
       Some c \<Rightarrow> Some (AList.update key (counter_inc c) m)
     | None \<Rightarrow> if length m < cap then Some (AList.update key (counter_inc 0) m) else None)"

definition record_decision ::
  "'f float_ops \<Rightarrow> string \<Rightarrow> string \<Rightarrow> string \<Rightarrow> string \<Rightarrow> duration \<Rightarrow> 'f metrics \<Rightarrow> 'f metrics" where
  "record_decision F eff policy_id action tenant_id d m =
    (let key = label_key [eff, policy_id, action, tenant_id];
         counted = capped_inc (m_cardinality_cap m) key (m_decision_total m)
     in case counted of
       None \<Rightarrow> m\<lparr>m_warn_decision_cap := True\<rparr>
     | Some totals \<Rightarrow>
       (let m = m\<lparr>m_decision_total := totals\<rparr>;
            dur_key = label_key [action, tenant_id];
            durations = m_decision_duration m
        in case map_of durations dur_key of
          Some h \<Rightarrow> m\<lparr>m_decision_duration := AList.update dur_key (observe F d h) durations\<rparr>
        | None \<Rightarrow>
          if length durations < m_cardinality_cap m then
            m\<lparr>m_decision_duration := AList.update dur_key
              (observe F d (histogram_new F ''agentguard.decision.duration_seconds''
                (map (f_lit F) [''0.001'', ''0.01'', ''0.1'', ''1.0'', ''10.0'']))) durations\<rparr>
          else m\<lparr>m_warn_duration_cap := True\<rparr>))"

definition record_delegation_mint :: "'f metrics \<Rightarrow> 'f metrics" where
  "record_delegation_mint m = m\<lparr>m_delegation_mint_total := counter_inc (m_delegation_mint_total m)\<rparr>"

definition record_delegation_verify :: "bool \<Rightarrow> 'f metrics \<Rightarrow> 'f metrics" where
  "record_delegation_verify success m =
    (let key = (if success then ''success'' else ''failure'');
         c = (case map_of (m_delegation_verify_total m) key of Some c \<Rightarrow> c | None \<Rightarrow> 0)
     in m\<lparr>m_delegation_verify_total := AList.update key (counter_inc c) (m_delegation_verify_total m)\<rparr>)"

definition record_cache_hit :: "'f metrics \<Rightarrow> 'f metrics" where
  "record_cache_hit m = m\<lparr>m_cache_hit_total := counter_inc (m_cache_hit_total m)\<rparr>"

definition record_cache_miss :: "'f metrics \<Rightarrow> 'f metrics" where
  "record_cache_miss m = m\<lparr>m_cache_miss_total := counter_inc (m_cache_miss_total m)\<rparr>"

definition record_policy_reload :: "'f metrics \<Rightarrow> 'f metrics" where
  "record_policy_reload m = m\<lparr>m_policy_reload_total := counter_inc (m_policy_reload_total m)\<rparr>"

definition record_pdp_error :: "string \<Rightarrow> 'f metrics \<Rightarrow> 'f metrics" where
  "record_pdp_error key m =
    (case capped_inc (m_cardinality_cap m) key (m_pdp_error_total m) of
       Some errors \<Rightarrow> m\<lparr>m_pdp_error_total := errors\<rparr>
     | None \<Rightarrow> m\<lparr>m_warn_pdp_error_cap := True\<rparr>)"

section \<open>Rendering\<close>

definition replace_char :: "char \<Rightarrow> string \<Rightarrow> string \<Rightarrow> string" where
  "replace_char c r s = concat (map (\<lambda>x. if x = c then r else [x]) s)"

definition escape_label :: "string \<Rightarrow> string" where
  "escape_label s =
    replace_char CHR 0x0D [CHR 0x5C, CHR ''r'']
      (replace_char CHR 0x0A [CHR 0x5C, CHR ''n'']
        (replace_char CHR 0x22 [CHR 0x5C, CHR 0x22]
          (replace_char CHR 0x5C [CHR 0x5C, CHR 0x5C] s)))"

definition text_line :: "string \<Rightarrow> string" where
  "text_line s = s @ [CHR 0x0A]"

text \<open>One \<open>name="value"\<close> pair, the value already escaped.\<close>

definition label_pair :: "string \<Rightarrow> string \<Rightarrow> string" where
  "label_pair name v = name @ ''='' @ [CHR 0x22] @ v @ [CHR 0x22]"

definition show_counter :: "counter \<Rightarrow> string" where
  "show_counter c = show_nat (unat c)"

definition nth_or_empty :: "string list \<Rightarrow> nat \<Rightarrow> string" where
  "nth_or_empty parts i = (if i < length parts then parts ! i else [])"

definition render_total :: "string \<times> counter \<Rightarrow> string" where
  "render_total = (\<lambda>(key, c).
    let parts = split_on CHR 0x1F key in
    text_line (''agentguard_decision_total{'' @
      label_pair ''effect'' (escape_label (nth_or_empty parts 0)) @ '','' @
      label_pair ''policy_id'' (escape_label (nth_or_empty parts 1)) @ '','' @
      label_pair ''action'' (escape_label (nth_or_empty parts 2)) @ '','' @
      label_pair ''tenant_id'' (escape_label (nth_or_empty parts 3)) @ ''} '' @ show_counter c))"

definition render_duration :: "'f float_ops \<Rightarrow> string \<times> 'f histogram \<Rightarrow> string" where
  "render_duration F = (\<lambda>(key, h).
    let parts = split_on CHR 0x1F key;
        labels = label_pair ''action'' (escape_label (nth_or_empty parts 0)) @ '','' @
          label_pair ''tenant_id'' (escape_label (nth_or_empty parts 1))
    in concat (map (\<lambda>(b, n). text_line (''agentguard_decision_duration_seconds_bucket{'' @ labels @ '','' @
           label_pair ''le'' (case b of None \<Rightarrow> ''+Inf'' | Some x \<Rightarrow> f_show F x) @ ''} '' @ show_counter n)) (bucket_counts h)) @
       text_line (''agentguard_decision_duration_seconds_count{'' @ labels @ ''} '' @ show_counter (h_count h)) @
       text_line (''agentguard_decision_duration_seconds_sum{'' @ labels @ ''} '' @ f_show F (sum_seconds F h)))"

definition render_labelled :: "string \<Rightarrow> string \<Rightarrow> string \<times> counter \<Rightarrow> string" where
  "render_labelled name label = (\<lambda>(v, c).
    text_line (name @ ''{'' @ label_pair label (escape_label v) @ ''} '' @ show_counter c))"

definition render_prometheus :: "'f float_ops \<Rightarrow> 'f metrics \<Rightarrow> string" where
  "render_prometheus F m =
    text_line ''# HELP agentguard_decision_total Total authorization decisions'' @
    text_line ''# TYPE agentguard_decision_total counter'' @
    concat (map render_total (m_decision_total m)) @
    text_line ''# HELP agentguard_decision_duration_seconds Decision evaluation time'' @
    text_line ''# TYPE agentguard_decision_duration_seconds histogram'' @
    concat (map (render_duration F) (m_decision_duration m)) @
    text_line ''# HELP agentguard_delegation_mint_total Total delegation tokens minted'' @
    text_line ''# TYPE agentguard_delegation_mint_total counter'' @
    text_line (''agentguard_delegation_mint_total '' @ show_counter (m_delegation_mint_total m)) @
    text_line ''# HELP agentguard_delegation_verify_total Total delegation verifications'' @
    text_line ''# TYPE agentguard_delegation_verify_total counter'' @
    concat (map (render_labelled ''agentguard_delegation_verify_total'' ''outcome'') (m_delegation_verify_total m)) @
    text_line ''# HELP agentguard_cache_hit_total Decision cache hits'' @
    text_line ''# TYPE agentguard_cache_hit_total counter'' @
    text_line (''agentguard_cache_hit_total '' @ show_counter (m_cache_hit_total m)) @
    text_line ''# TYPE agentguard_cache_miss_total counter'' @
    text_line (''agentguard_cache_miss_total '' @ show_counter (m_cache_miss_total m)) @
    text_line ''# TYPE agentguard_policy_reload_total counter'' @
    text_line (''agentguard_policy_reload_total '' @ show_counter (m_policy_reload_total m)) @
    text_line ''# TYPE agentguard_pdp_error_total counter'' @
    concat (map (render_labelled ''agentguard_pdp_error_total'' ''fallback'') (m_pdp_error_total m))"

section \<open>Snapshots\<close>

record 'f metrics_snapshot =
  ms_decision_total :: "(string \<times> counter) list"
  ms_decision_duration :: "(string \<times> counter \<times> 'f) list"
  ms_delegation_mint_total :: counter
  ms_delegation_verify_total :: "(string \<times> counter) list"
  ms_cache_hit_total :: counter
  ms_cache_miss_total :: counter
  ms_policy_reload_total :: counter
  ms_pdp_error_total :: "(string \<times> counter) list"

definition take_snapshot :: "'f float_ops \<Rightarrow> 'f metrics \<Rightarrow> 'f metrics_snapshot" where
  "take_snapshot F m =
    \<lparr>ms_decision_total = m_decision_total m,
     ms_decision_duration = map (\<lambda>(k, h). (k, h_count h, sum_seconds F h)) (m_decision_duration m),
     ms_delegation_mint_total = m_delegation_mint_total m, ms_delegation_verify_total = m_delegation_verify_total m,
     ms_cache_hit_total = m_cache_hit_total m, ms_cache_miss_total = m_cache_miss_total m,
     ms_policy_reload_total = m_policy_reload_total m, ms_pdp_error_total = m_pdp_error_total m\<rparr>"

section \<open>Counting\<close>

text \<open>What a capped map knows of the labels recorded so far: exact counts, and no label missing while there is room.\<close>

definition capped_ok :: "nat \<Rightarrow> string list \<Rightarrow> (string \<times> counter) list \<Rightarrow> bool" where
  "capped_ok cap ks m \<longleftrightarrow> distinct_keys m \<and> length m \<le> cap \<and>
    (\<forall>k c. map_of m k = Some c \<longrightarrow> c = of_nat (count_list ks k)) \<and>
    (\<forall>k. map_of m k = None \<longrightarrow> count_list ks k = 0 \<or> length m = cap)"

lemma capped_ok_empty: "capped_ok cap [] []"
  by (simp add: capped_ok_def)

lemma capped_inc_ok:
  assumes "capped_ok cap ks m"
  shows "case capped_inc cap k m of Some m' \<Rightarrow> capped_ok cap (ks @ [k]) m' | None \<Rightarrow> capped_ok cap (ks @ [k]) m"
proof (cases "map_of m k")
  case None
  then have "k \<notin> fst ` set m" by (simp add: map_of_eq_None_iff)
  then show ?thesis
    using assms None
    by (auto simp: capped_inc_def capped_ok_def counter_inc_def alist_simps count_list_append)
next
  case (Some c)
  then have "k \<in> fst ` set m" by (metis map_of_eq_None_iff option.distinct(1))
  then show ?thesis
    using assms Some by (auto simp: capped_inc_def capped_ok_def counter_inc_def alist_simps count_list_append)
qed

datatype metric_event =
    DecisionEvent string string string string duration
  | MintEvent
  | VerifyEvent bool
  | HitEvent
  | MissEvent
  | ReloadEvent
  | ErrorEvent string

fun run_metric_event :: "'f float_ops \<Rightarrow> metric_event \<Rightarrow> 'f metrics \<Rightarrow> 'f metrics" where
  "run_metric_event F (DecisionEvent eff policy action tenant d) m = record_decision F eff policy action tenant d m"
| "run_metric_event F MintEvent m = record_delegation_mint m"
| "run_metric_event F (VerifyEvent b) m = record_delegation_verify b m"
| "run_metric_event F HitEvent m = record_cache_hit m"
| "run_metric_event F MissEvent m = record_cache_miss m"
| "run_metric_event F ReloadEvent m = record_policy_reload m"
| "run_metric_event F (ErrorEvent e) m = record_pdp_error e m"

fun decision_labels :: "metric_event list \<Rightarrow> string list" where
  "decision_labels [] = []"
| "decision_labels (DecisionEvent eff policy action tenant d # evs) = label_key [eff, policy, action, tenant] # decision_labels evs"
| "decision_labels (ev # evs) = decision_labels evs"

fun error_labels :: "metric_event list \<Rightarrow> string list" where
  "error_labels [] = []"
| "error_labels (ErrorEvent e # evs) = e # error_labels evs"
| "error_labels (ev # evs) = error_labels evs"

lemma decision_labels_append: "decision_labels (xs @ ys) = decision_labels xs @ decision_labels ys"
  by (induction xs rule: decision_labels.induct) auto

lemma error_labels_append: "error_labels (xs @ ys) = error_labels xs @ error_labels ys"
  by (induction xs rule: error_labels.induct) auto

text \<open>The invariant of a registry with its history.\<close>

definition metrics_inv :: "nat \<Rightarrow> metric_event list \<Rightarrow> 'f metrics \<Rightarrow> bool" where
  "metrics_inv cap evs m \<longleftrightarrow> m_cardinality_cap m = cap \<and>
    capped_ok cap (decision_labels evs) (m_decision_total m) \<and>
    capped_ok cap (error_labels evs) (m_pdp_error_total m) \<and>
    length (m_decision_duration m) \<le> cap \<and> fst ` set (m_delegation_verify_total m) \<subseteq> {''success'', ''failure''} \<and>
    distinct_keys (m_delegation_verify_total m) \<and>
    m_cache_hit_total m = of_nat (count_list evs HitEvent) \<and> m_cache_miss_total m = of_nat (count_list evs MissEvent) \<and>
    m_policy_reload_total m = of_nat (count_list evs ReloadEvent) \<and> m_delegation_mint_total m = of_nat (count_list evs MintEvent)"

lemma record_decision_frame:
  "record_decision F eff policy action tenant d m =
    (case capped_inc (m_cardinality_cap m) (label_key [eff, policy, action, tenant]) (m_decision_total m) of
       None \<Rightarrow> m\<lparr>m_warn_decision_cap := True\<rparr>
     | Some totals \<Rightarrow> m\<lparr>m_decision_total := totals, m_decision_duration := m_decision_duration (record_decision F eff policy action tenant d m),
         m_warn_duration_cap := m_warn_duration_cap (record_decision F eff policy action tenant d m)\<rparr>)"
  by (simp add: record_decision_def Let_def split: option.splits)

lemma record_decision_durations:
  "length (m_decision_duration m) \<le> m_cardinality_cap m \<Longrightarrow>
    length (m_decision_duration (record_decision F eff policy action tenant d m)) \<le> m_cardinality_cap m"
  by (auto simp: record_decision_def Let_def alist_simps map_of_eq_None_iff dest: map_of_SomeD split: option.splits)
    (metis fst_conv image_eqI map_of_SomeD)

lemma run_metric_event_inv:
  assumes "metrics_inv cap evs m"
  shows "metrics_inv cap (evs @ [ev]) (run_metric_event F ev m)"
proof (cases ev)
  case (DecisionEvent eff policy action tenant d)
  let ?k = "label_key [eff, policy, action, tenant]"
  have c: "capped_ok cap (decision_labels evs) (m_decision_total m)" "m_cardinality_cap m = cap" "length (m_decision_duration m) \<le> cap"
    using assms by (auto simp: metrics_inv_def)
  then have "length (m_decision_duration (record_decision F eff policy action tenant d m)) \<le> cap"
    using record_decision_durations [of m] by simp
  then show ?thesis
    using assms capped_inc_ok [OF c(1), of ?k] c(2)
    unfolding DecisionEvent run_metric_event.simps
    by (subst record_decision_frame)
      (simp add: metrics_inv_def decision_labels_append error_labels_append count_list_append split: option.splits)
next
  case (ErrorEvent e)
  have "capped_ok cap (error_labels evs) (m_pdp_error_total m)" using assms by (simp add: metrics_inv_def)
  from capped_inc_ok [OF this, of e] show ?thesis
    using assms ErrorEvent
    by (simp add: record_pdp_error_def metrics_inv_def decision_labels_append error_labels_append count_list_append split: option.splits)
qed (use assms in \<open>auto simp: metrics_inv_def decision_labels_append error_labels_append count_list_append counter_inc_def
    record_delegation_mint_def record_delegation_verify_def record_cache_hit_def record_cache_miss_def record_policy_reload_def
    Let_def alist_simps\<close>)

definition run_metrics :: "'f float_ops \<Rightarrow> nat \<Rightarrow> metric_event list \<Rightarrow> 'f metrics" where
  "run_metrics F cap evs = fold (run_metric_event F) evs (metrics_with_cap cap)"

lemma metrics_inv_new: "metrics_inv cap [] (metrics_with_cap cap)"
  by (simp add: metrics_inv_def metrics_with_cap_def capped_ok_empty)

lemma run_metrics_inv: "metrics_inv cap evs (run_metrics F cap evs)"
proof (induction evs rule: rev_induct)
  case (snoc ev evs)
  then show ?case by (simp add: run_metrics_def run_metric_event_inv)
qed (simp add: run_metrics_def metrics_inv_new)

section \<open>Properties\<close>


section \<open>Labels in the text\<close>

definition escape_label_char :: "char \<Rightarrow> string" where
  "escape_label_char c =
    (if c = CHR 0x5C then [CHR 0x5C, CHR 0x5C] else if c = CHR 0x22 then [CHR 0x5C, CHR 0x22]
     else if c = CHR 0x0A then [CHR 0x5C, CHR ''n''] else if c = CHR 0x0D then [CHR 0x5C, CHR ''r''] else [c])"

text \<open>The four replacements in a row act on each character alone.\<close>

lemma escape_label_chars: "escape_label s = concat (map escape_label_char s)"
  by (induction s) (auto simp: escape_label_def replace_char_def escape_label_char_def)

lemma escape_label_one_line: "CHR 0x0A \<notin> set (escape_label s) \<and> CHR 0x0D \<notin> set (escape_label s)"
  by (induction s) (auto simp: escape_label_chars escape_label_char_def)

lemma escape_label_inj: "escape_label s = escape_label t \<Longrightarrow> s = t"
proof (induction s arbitrary: t)
  case Nil
  then show ?case by (cases t) (auto simp: escape_label_chars escape_label_char_def split: if_splits)
next
  case (Cons c s)
  then show ?case
    by (cases t) (auto simp: escape_label_chars escape_label_char_def split: if_splits)
qed

text \<open>
  A quote in an escaped label is always behind a backslash that is not itself escaped, so a reader
  that undoes the escapes finds the end of the label where it is written.
\<close>

fun read_label :: "string \<Rightarrow> (string \<times> string) option" where
  "read_label [] = None"
| "read_label (c # cs) =
    (if c = CHR 0x22 then Some ([], cs)
     else if c = CHR 0x5C then
       (case cs of
          [] \<Rightarrow> None
        | d # ds \<Rightarrow> map_option (\<lambda>(v, rest).
            ((if d = CHR ''n'' then CHR 0x0A else if d = CHR ''r'' then CHR 0x0D else d) # v, rest)) (read_label ds))
     else map_option (\<lambda>(v, rest). (c # v, rest)) (read_label cs))"

lemma read_label_escaped: "read_label (escape_label s @ [CHR 0x22] @ rest) = Some (s, rest)"
  by (induction s) (auto simp: escape_label_chars escape_label_char_def)

lemma label_key_split: "\<forall>p \<in> set parts. CHR 0x1F \<notin> set p \<Longrightarrow> parts \<noteq> [] \<Longrightarrow> split_on CHR 0x1F (label_key parts) = parts"
  by (simp add: label_key_def split_on_join_with)

text \<open>The separator of the key is not escaped: labels that contain it share a counter with others.\<close>

theorem labels_can_collide: "label_key [''allow'', ''p'' @ [CHR 0x1F] @ ''q'', ''a''] = label_key [''allow'', ''p'', ''q'' @ [CHR 0x1F] @ ''a'']"
  by (simp add: label_key_def)

end
