(* ===== verification/AuthLayer.thy ===== *)
theory AuthLayer
  imports ApiKeys Listener
begin

text \<open>
  The authentication middleware of the server (\<open>agentguard-server/src/auth_layer.rs\<close>): the layer
  built from the configuration, the check of a bearer credential against the key store with its
  scope and identity requirements, and the decision to let a request through.

  The key store is the set of keys live at the moment of the call.  The number of free
  verification slots, and whether the blocking task that runs the hash was joined, are arguments.
\<close>

section \<open>Data\<close>

record authenticated_identity =
  ai_identity :: api_key_identity
  ai_credential_id :: string
  ai_can_act_as :: bool

datatype authentication_failure = Unauthenticated | Forbidden | Unavailable

datatype auth_layer =
    LayerDisabled
  | LayerApiKey key_store
  | LayerReloadable key_store string

definition layer_from_config ::
  "key_env \<Rightarrow> (string \<Rightarrow> string) \<Rightarrow> io_faults \<Rightarrow> dir \<Rightarrow> auth_config \<Rightarrow> string + auth_layer" where
  "layer_from_config E debug io fs cfg =
    (case cfg of
       AuthDisabled \<Rightarrow> Inr LayerDisabled
     | AuthApiKey path \<Rightarrow>
       (case load_from_file E io path fs of
          Inl e \<Rightarrow> Inl (''load api-key store '' @ debug path @ '': '' @ show_auth_error e)
        | Inr S \<Rightarrow> Inr (LayerReloadable S path)))"

fun reloadable_key_store :: "auth_layer \<Rightarrow> (string \<times> key_store) option" where
  "reloadable_key_store (LayerReloadable S path) = Some (path, S)"
| "reloadable_key_store _ = None"

section \<open>Credentials\<close>

definition bearer_token :: "string option \<Rightarrow> string option" where
  "bearer_token authorization =
    (case authorization of
       None \<Rightarrow> None
     | Some v \<Rightarrow>
       if CHR '' '' \<notin> set v then None
       else
         let scheme = takeWhile (\<lambda>c. c \<noteq> CHR '' '') v; rest = dropWhile (\<lambda>c. c \<noteq> CHR '' '') v in
         if map ascii_lower scheme \<noteq> map ascii_lower ''Bearer'' then None
         else
           let token = dropWhile (\<lambda>c. c = CHR '' '') rest in
           if token = [] \<or> list_ex ascii_whitespace token then None else Some token)"

definition has_act_as_scope :: "string list \<Rightarrow> bool" where
  "has_act_as_scope scopes = list_ex (\<lambda>scope. scope = ''authorize:any'') scopes"

definition check_credential ::
  "key_env \<Rightarrow> int \<Rightarrow> key_store \<Rightarrow> string option \<Rightarrow> string \<Rightarrow> bool \<Rightarrow> authentication_failure + authenticated_identity option" where
  "check_credential E now S authorization required_scope require_identity =
    and_then (ok_or Unauthenticated (bearer_token authorization)) (\<lambda>token.
    and_then (map_err (\<lambda>_. Unauthenticated) (verify_key E now S token)) (\<lambda>k.
    let can_act_as = required_scope = ''authorize'' \<and> has_act_as_scope (ak_scopes k) in
    if \<not> has_scope k required_scope \<and> \<not> can_act_as then Inl Forbidden
    else case ak_identity k of
      Some i \<Rightarrow> Inr (Some \<lparr>ai_identity = i, ai_credential_id = ak_id k, ai_can_act_as = can_act_as\<rparr>)
    | None \<Rightarrow> if require_identity then Inl Forbidden else Inr None))"

fun authenticate_bearer ::
  "key_env \<Rightarrow> int \<Rightarrow> auth_layer \<Rightarrow> string option \<Rightarrow> string \<Rightarrow> bool \<Rightarrow> authentication_failure + authenticated_identity option" where
  "authenticate_bearer E now LayerDisabled authorization required_scope require_identity = Inr None"
| "authenticate_bearer E now (LayerApiKey S) authorization required_scope require_identity =
    check_credential E now S authorization required_scope require_identity"
| "authenticate_bearer E now (LayerReloadable S path) authorization required_scope require_identity =
    check_credential E now S authorization required_scope require_identity"

definition MAX_CONCURRENT_API_KEY_VERIFICATIONS :: nat where
  "MAX_CONCURRENT_API_KEY_VERIFICATIONS = 2"

text \<open>Three non-empty parts, before a slot is taken.\<close>

definition well_formed_token :: "string \<Rightarrow> bool" where
  "well_formed_token token \<longleftrightarrow>
    (let parts = split_on CHR '':'' token in length parts = 3 \<and> list_all (\<lambda>p. p \<noteq> []) parts)"

definition authenticate_bearer_async ::
  "key_env \<Rightarrow> int \<Rightarrow> auth_layer \<Rightarrow> string option \<Rightarrow> string \<Rightarrow> bool \<Rightarrow> nat \<Rightarrow> bool
    \<Rightarrow> authentication_failure + authenticated_identity option" where
  "authenticate_bearer_async E now layer authorization required_scope require_identity free_slots joined =
    (if layer = LayerDisabled then authenticate_bearer E now layer authorization required_scope require_identity
     else
       and_then (ok_or Unauthenticated (bearer_token authorization)) (\<lambda>token.
       if \<not> well_formed_token token then Inl Unauthenticated
       else if free_slots = 0 then Inl Unavailable
       else if \<not> joined then Inl Unavailable
       else authenticate_bearer E now layer authorization required_scope require_identity))"

section \<open>The middleware\<close>

record http_request =
  hr_method :: string
  hr_path :: string
  hr_authorization :: "string option"

datatype middleware = Next "authenticated_identity option" | Reply nat string

definition route_requirements :: "string \<Rightarrow> string \<Rightarrow> string \<times> bool" where
  "route_requirements meth path =
    (if meth = ''POST'' \<and> (path = ''/access/v1/evaluation'' \<or> path = ''/access/v1/evaluations'') then (''authorize'', True)
     else if meth = ''GET'' \<and> path = ''/metrics'' then (''metrics:read'', False)
     else ([], False))"

definition auth_layer_fn :: "key_env \<Rightarrow> int \<Rightarrow> auth_layer \<Rightarrow> http_request \<Rightarrow> nat \<Rightarrow> bool \<Rightarrow> middleware" where
  "auth_layer_fn E now layer req free_slots joined =
    (if hr_path req = ''/healthz'' \<or> hr_path req = ''/readyz'' then Next None
     else
       let (required_scope, require_identity) = route_requirements (hr_method req) (hr_path req) in
       if layer = LayerDisabled then Next None
       else case authenticate_bearer_async E now layer (hr_authorization req) required_scope require_identity free_slots joined of
         Inr identity \<Rightarrow> Next identity
       | Inl Unauthenticated \<Rightarrow> Reply 401 (''unauthorized'' @ [CHR 0x0A])
       | Inl Forbidden \<Rightarrow> Reply 403 (''forbidden'' @ [CHR 0x0A])
       | Inl Unavailable \<Rightarrow> Reply 503 (''authentication capacity exhausted'' @ [CHR 0x0A]))"

section \<open>What passes\<close>

fun layer_keys :: "auth_layer \<Rightarrow> key_store option" where
  "layer_keys LayerDisabled = None"
| "layer_keys (LayerApiKey S) = Some S"
| "layer_keys (LayerReloadable S path) = Some S"

lemma authenticate_bearer_keys:
  "layer_keys layer = Some S \<Longrightarrow> authenticate_bearer E now layer a scope req = check_credential E now S a scope req"
  by (cases layer) auto

lemma check_credential_Inr:
  "check_credential E now S a scope req = Inr r \<longleftrightarrow>
    (\<exists>token k. bearer_token a = Some token \<and> verify_key E now S token = Inr k \<and>
      (has_scope k scope \<or> scope = ''authorize'' \<and> has_act_as_scope (ak_scopes k)) \<and>
      (case ak_identity k of
         Some i \<Rightarrow> r = Some \<lparr>ai_identity = i, ai_credential_id = ak_id k,
           ai_can_act_as = (scope = ''authorize'' \<and> has_act_as_scope (ak_scopes k))\<rparr>
       | None \<Rightarrow> \<not> req \<and> r = None))"
  by (cases "bearer_token a"; cases "verify_key E now S (the (bearer_token a))")
    (auto simp: check_credential_def Let_def split: if_splits option.splits)

lemma async_Inr:
  assumes "authenticate_bearer_async E now layer a scope req n j = Inr r" "layer_keys layer = Some S"
  shows "check_credential E now S a scope req = Inr r"
  using assms authenticate_bearer_keys [OF assms(2)]
  by (auto simp: authenticate_bearer_async_def result_simps split: if_splits)

text \<open>
  A decision request that passes an enabled layer carries the secret of a live key with the
  authorization scope, and the identity handed to the handler is that key's; the right to act for
  others comes from the explicit scope alone, not from the wildcard.
\<close>

lemma decision_route_needs_key:
  assumes "layer_keys layer = Some S" "auth_layer_fn E now layer req n j = Next r"
    and "route_requirements (hr_method req) (hr_path req) = (''authorize'', True)"
  obtains token k i where "bearer_token (hr_authorization req) = Some token" "verify_key E now S token = Inr k"
    "has_scope k ''authorize'' \<or> has_act_as_scope (ak_scopes k)" "ak_identity k = Some i"
    "r = Some \<lparr>ai_identity = i, ai_credential_id = ak_id k, ai_can_act_as = has_act_as_scope (ak_scopes k)\<rparr>"
proof -
  have "hr_path req \<noteq> ''/healthz''" "hr_path req \<noteq> ''/readyz''"
    using assms(3) by (auto simp: route_requirements_def split: if_splits)
  moreover have "layer \<noteq> LayerDisabled" using assms(1) by auto
  ultimately have "authenticate_bearer_async E now layer (hr_authorization req) ''authorize'' True n j = Inr r"
    using assms(2,3) by (auto simp: auth_layer_fn_def split: sum.splits authentication_failure.splits)
  from async_Inr [OF this assms(1)] show ?thesis
    using that unfolding check_credential_Inr by (auto split: option.splits)
qed

end
