(* ===== verification/PolicyStore.thy ===== *)
theory PolicyStore
  imports Engine LogNames
begin

text \<open>
  The policy store (\<open>agentguard-core/src/policy/store.rs\<close>, \<open>policy/types.rs\<close>, \<open>authorize/entities.rs\<close>
  and the constructor of the authorizer): reading policies and schema from a directory within size
  limits, validation, and writing a policy under a sanitized name.

  The disk is what the calls of one operation see: whether the directories and the schema exist,
  the entries the directory walker yields (an error or a path with its kind), and the content or
  error of each file.  The Cedar parser, merger and validator are parameters.
\<close>

section \<open>Data\<close>

record policy_source =
  ps_path :: string
  ps_text :: string

datatype severity = SevError | SevWarning

record validation_issue =
  vi_policy :: string
  vi_severity :: severity
  vi_message :: string

record validation_report =
  vr_policy_count :: nat
  vr_errors :: "validation_issue list"
  vr_warnings :: "validation_issue list"

definition report_ok :: "validation_report \<Rightarrow> bool" where
  "report_ok r \<longleftrightarrow> vr_errors r = []"

record ('s, 'p, 'e) cedar_loader =
  cl_empty :: 'p
  cl_parse :: "string \<Rightarrow> string + 'p"
  cl_merge :: "'p \<Rightarrow> 'p \<Rightarrow> string + 'p"
  cl_count :: "'p \<Rightarrow> nat"
  cl_schema :: "string \<Rightarrow> string + 's"
  cl_policy_parse :: "string \<Rightarrow> string \<Rightarrow> string option"
  cl_validate :: "'s \<Rightarrow> 'p \<Rightarrow> (string \<times> string) list \<times> (string \<times> string) list"
  cl_utf8_error :: "string \<Rightarrow> string"
  cl_entity_text :: "json \<Rightarrow> string + string"
  cl_entities :: "string list \<Rightarrow> string + 'e"
  cl_entity_parse :: "string \<Rightarrow> string + unit"

record store_disk =
  sd_root_exists :: bool
  sd_create_dirs :: "string + unit"
  sd_dir_exists :: bool
  sd_schema_exists :: bool
  sd_entries :: "(string + string \<times> bool) list"
  sd_read :: "string \<Rightarrow> string + string"

section \<open>Paths\<close>

definition join_path :: "string \<Rightarrow> string \<Rightarrow> string" where
  "join_path d name = (if d = [] then name else if last d = CHR ''/'' then d @ name else d @ ''/'' @ name)"

definition schema_path :: "string \<Rightarrow> string" where
  "schema_path root = join_path root ''schema.cedarschema''"

definition policies_dir :: "string \<Rightarrow> string" where
  "policies_dir root = join_path root ''policies''"

definition store_open :: "store_disk \<Rightarrow> string \<Rightarrow> string core_result" where
  "store_open D root =
    (if \<not> sd_root_exists D then and_then (map_err Io (sd_create_dirs D)) (\<lambda>_. Inr root) else Inr root)"

section \<open>Reading\<close>

definition MAX_POLICY_FILES :: nat where
  "MAX_POLICY_FILES = 1024"

definition MAX_POLICY_TREE_ENTRIES :: nat where
  "MAX_POLICY_TREE_ENTRIES = 4096"

definition MAX_POLICY_FILE_BYTES :: nat where
  "MAX_POLICY_FILE_BYTES = 1048576"

definition MAX_TOTAL_POLICY_BYTES :: nat where
  "MAX_TOTAL_POLICY_BYTES = 16777216"

definition MAX_SCHEMA_BYTES :: nat where
  "MAX_SCHEMA_BYTES = 1048576"

definition read_bounded_text :: "(string \<Rightarrow> string) \<Rightarrow> (string \<Rightarrow> string + string) \<Rightarrow> string \<Rightarrow> nat \<Rightarrow> string \<Rightarrow> string core_result" where
  "read_bounded_text utf8_error rd path max_bytes label =
    and_then (map_err Io (rd path)) (\<lambda>content.
    let bytes = take (max_bytes + 1) content in
    if length bytes > max_bytes then
      Inl (Other (path @ '' exceeds the '' @ label @ '' size limit of '' @ show_nat max_bytes @ '' bytes''))
    else if utf8_valid bytes then Inr bytes
    else Inl (Other (path @ '' is not valid UTF-8: '' @ utf8_error bytes)))"

definition is_policy_file :: "string \<times> bool \<Rightarrow> bool" where
  "is_policy_file = (\<lambda>(path, is_file). is_file \<and> extension (last (split_on CHR ''/'' path)) = Some ''cedar'')"

text \<open>The walk, with the entries, policies and bytes counted so far.\<close>

fun walk_policies ::
  "(string \<Rightarrow> string) \<Rightarrow> (string \<Rightarrow> string + string) \<Rightarrow> nat \<Rightarrow> nat \<Rightarrow> nat \<Rightarrow> (string + string \<times> bool) list
    \<Rightarrow> policy_source list core_result" where
  "walk_policies u rd seen n sz [] = Inr []"
| "walk_policies u rd seen n sz (Inl e # entries) = Inl (Walk e)"
| "walk_policies u rd seen n sz (Inr (path, is_file) # entries) =
    (if seen + 1 > MAX_POLICY_TREE_ENTRIES then
       Inl (PolicyParse (''policy store tree exceeds the limit of '' @ show_nat MAX_POLICY_TREE_ENTRIES @ '' entries'') path)
     else if is_policy_file (path, is_file) then
       (if n + 1 > MAX_POLICY_FILES then
          Inl (PolicyParse (''policy count exceeds the limit of '' @ show_nat MAX_POLICY_FILES) path)
        else
          and_then (read_bounded_text u rd path MAX_POLICY_FILE_BYTES ''policy'') (\<lambda>src.
          if sz + length src > u64_max then Inl (PolicyParse ''total policy source size overflow'' path)
          else if sz + length src > MAX_TOTAL_POLICY_BYTES then
            Inl (PolicyParse (''total policy source size exceeds the limit of '' @ show_nat MAX_TOTAL_POLICY_BYTES @ '' bytes'') path)
          else
            and_then (walk_policies u rd (seen + 1) (n + 1) (sz + length src) entries) (\<lambda>rest.
            Inr (\<lparr>ps_path = path, ps_text = src\<rparr> # rest))))
     else walk_policies u rd (seen + 1) n sz entries)"

fun merge_sources :: "('s, 'p, 'e) cedar_loader \<Rightarrow> 'p \<Rightarrow> policy_source list \<Rightarrow> 'p core_result" where
  "merge_sources L acc [] = Inr acc"
| "merge_sources L acc (src # rest) =
    and_then (map_err (\<lambda>e. PolicyParse e (ps_path src)) (cl_parse L (ps_text src))) (\<lambda>file_set.
    and_then (map_err (\<lambda>e. PolicyParse e (ps_path src)) (cl_merge L acc file_set)) (\<lambda>acc.
    merge_sources L acc rest))"

text \<open>Paths are compared component by component.\<close>

definition load_policies :: "('s, 'p, 'e) cedar_loader \<Rightarrow> store_disk \<Rightarrow> ('p \<times> policy_source list) core_result" where
  "load_policies L D =
    (if \<not> sd_dir_exists D then Inr (cl_empty L, [])
     else
       and_then (walk_policies (cl_utf8_error L) (sd_read D) 0 0 0 (sd_entries D)) (\<lambda>sources.
       let sources = sort_key (\<lambda>s. split_on CHR ''/'' (ps_path s)) sources in
       and_then (merge_sources L (cl_empty L) sources) (\<lambda>policies. Inr (policies, sources))))"

definition load_schema :: "('s, 'p, 'e) cedar_loader \<Rightarrow> store_disk \<Rightarrow> string \<Rightarrow> ('s \<times> string) option core_result" where
  "load_schema L D root =
    (if \<not> sd_schema_exists D then Inr None
     else
       and_then (read_bounded_text (cl_utf8_error L) (sd_read D) (schema_path root) MAX_SCHEMA_BYTES ''schema'') (\<lambda>src.
       and_then (map_err Schema (cl_schema L src)) (\<lambda>schema. Inr (Some (schema, src)))))"

definition authorizer_new :: "('s, 'p, 'e) cedar_loader \<Rightarrow> store_disk \<Rightarrow> string \<Rightarrow> ('s, 'p, 'l) authorizer core_result" where
  "authorizer_new L D root =
    and_then (load_policies L D) (\<lambda>(policies, _).
    and_then (load_schema L D root) (\<lambda>schema.
    Inr \<lparr>az_schema = map_option fst schema, az_policies = policies, az_cache = None\<rparr>))"

section \<open>Validation\<close>

definition validate_store :: "('s, 'p, 'e) cedar_loader \<Rightarrow> store_disk \<Rightarrow> string \<Rightarrow> validation_report core_result" where
  "validate_store L D root =
    and_then (load_policies L D) (\<lambda>(policies, sources).
    and_then (load_schema L D root) (\<lambda>schema.
    let parse_errors = concat (map (\<lambda>src.
          case cl_policy_parse L (ps_path src) (ps_text src) of
            None \<Rightarrow> []
          | Some e \<Rightarrow> [\<lparr>vi_policy = ps_path src, vi_severity = SevError, vi_message = e\<rparr>]) sources);
        (errors, warnings) =
          (case schema of
             Some (s, _) \<Rightarrow>
               (let (es, ws) = cl_validate L s policies in
                (map (\<lambda>(p, msg). \<lparr>vi_policy = p, vi_severity = SevError, vi_message = msg\<rparr>) es,
                 map (\<lambda>(p, msg). \<lparr>vi_policy = p, vi_severity = SevWarning, vi_message = msg\<rparr>) ws))
           | None \<Rightarrow> ([], [\<lparr>vi_policy = ''<store>'', vi_severity = SevWarning,
               vi_message = ''no schema present; skipping type validation''\<rparr>]))
    in Inr \<lparr>vr_policy_count = cl_count L policies, vr_errors = parse_errors @ errors, vr_warnings = warnings\<rparr>))"

section \<open>Writing\<close>

text \<open>
  A character outside the safe set becomes one underscore; in UTF-8 its continuation bytes vanish.
\<close>

definition sanitize_name :: "string \<Rightarrow> string" where
  "sanitize_name name =
    map (\<lambda>c. if ascii_alphanumeric c \<or> c = CHR ''.'' \<or> c = CHR ''_'' \<or> c = CHR ''-'' then c else CHR ''_'')
      (filter (\<lambda>c. \<not> utf8_cont c) name)"

text \<open>
  \<open>canonicalize\<close> and the outcomes of the two calls that change the disk are arguments; a write that
  fails may have opened the file and left part of the content.  The second result is the file as
  the call leaves it, if it opened it.
\<close>

type_synonym write_outcome = "string \<times> nat option + unit"

fun after_write :: "write_outcome \<Rightarrow> string \<Rightarrow> string \<Rightarrow> unit core_result \<times> (string \<times> string) option" where
  "after_write (Inr _) path content = (Inr (), Some (path, content))"
| "after_write (Inl (e, left)) path content = (Inl (Io e), map_option (\<lambda>n. (path, take n content)) left)"

definition write_policy ::
  "(string \<Rightarrow> string) \<Rightarrow> (string \<Rightarrow> string option) \<Rightarrow> (string + unit) \<Rightarrow> write_outcome \<Rightarrow> string \<Rightarrow> string \<Rightarrow> string
    \<Rightarrow> string core_result \<times> (string \<times> string) option" where
  "write_policy debug canonicalize mkdir wr root name content =
    (let safe = sanitize_name name in
     if safe = [] \<or> starts_with safe ''.'' then (Inl (PolicyParse (''invalid policy name: '' @ debug name) name), None)
     else
       let dir = policies_dir root;
           path = join_path dir (safe @ ''.cedar'');
           canonical_policies = (case canonicalize dir of Some d \<Rightarrow> d | None \<Rightarrow> dir)
       in if (case canonicalize path of
                Some canonical \<Rightarrow> \<not> starts_with (split_on CHR ''/'' canonical) (split_on CHR ''/'' canonical_policies)
              | None \<Rightarrow> False) then
            (Inl (PolicyParse ''policy path escapes policies dir'' path), None)
          else case mkdir of
            Inl e \<Rightarrow> (Inl (Io e), None)
          | Inr _ \<Rightarrow> (let (r, file) = after_write wr path content in (and_then r (\<lambda>_. Inr path), file)))"

definition write_schema :: "write_outcome \<Rightarrow> string \<Rightarrow> string \<Rightarrow> unit core_result \<times> (string \<times> string) option" where
  "write_schema wr root content = after_write wr (schema_path root) content"

section \<open>Entities\<close>

fun entity_texts :: "('s, 'p, 'e) cedar_loader \<Rightarrow> json list \<Rightarrow> string list core_result" where
  "entity_texts L [] = Inr []"
| "entity_texts L (v # vs) =
    and_then (map_err JsonError (cl_entity_text L v)) (\<lambda>s.
    and_then (map_err EntitiesError (cl_entity_parse L s)) (\<lambda>_.
    and_then (entity_texts L vs) (\<lambda>rest. Inr (s # rest))))"

definition build_entities :: "('s, 'p, 'e) cedar_loader \<Rightarrow> json list \<Rightarrow> 'e core_result" where
  "build_entities L items = and_then (entity_texts L items) (\<lambda>ents. map_err EntitiesError (cl_entities L ents))"

section \<open>What is loaded\<close>

definition source_ok :: "store_disk \<Rightarrow> policy_source \<Rightarrow> bool" where
  "source_ok D src \<longleftrightarrow> sd_read D (ps_path src) = Inr (ps_text src) \<and> length (ps_text src) \<le> MAX_POLICY_FILE_BYTES \<and> utf8_valid (ps_text src)"

lemma read_bounded_text_Inr:
  "read_bounded_text u rd path m label = Inr src \<longleftrightarrow> rd path = Inr src \<and> length src \<le> m \<and> utf8_valid src"
  by (auto simp: read_bounded_text_def result_simps Let_def split: if_splits)

lemma walk_policies_Inr:
  assumes "walk_policies u rd seen n sz entries = Inr srcs" "seen \<le> MAX_POLICY_TREE_ENTRIES" "n \<le> MAX_POLICY_FILES" "sz \<le> MAX_TOTAL_POLICY_BYTES"
  shows "seen + length entries \<le> MAX_POLICY_TREE_ENTRIES \<and> n + length srcs \<le> MAX_POLICY_FILES \<and>
    sz + sum_list (map (length \<circ> ps_text) srcs) \<le> MAX_TOTAL_POLICY_BYTES \<and> (\<forall>x \<in> set entries. is_ok x) \<and>
    map ps_path srcs = map fst (filter is_policy_file (map projr entries)) \<and>
    (\<forall>src \<in> set srcs. rd (ps_path src) = Inr (ps_text src) \<and> length (ps_text src) \<le> MAX_POLICY_FILE_BYTES \<and> utf8_valid (ps_text src))"
  using assms
proof (induction u rd seen n sz entries arbitrary: srcs rule: walk_policies.induct)
  case (3 u rd seen n sz path is_file entries)
  have seen: "Suc seen \<le> MAX_POLICY_TREE_ENTRIES" using "3.prems"(1) by (auto split: if_splits)
  show ?case
  proof (cases "is_policy_file (path, is_file)")
    case True
    then obtain src rest where w: "rd path = Inr src" "length src \<le> MAX_POLICY_FILE_BYTES" "utf8_valid src" "Suc n \<le> MAX_POLICY_FILES"
        "sz + length src \<le> MAX_TOTAL_POLICY_BYTES" "walk_policies u rd (seen + 1) (n + 1) (sz + length src) entries = Inr rest"
        "srcs = \<lparr>ps_path = path, ps_text = src\<rparr> # rest" "\<not> u64_max < sz + length src"
      using "3.prems"(1) seen by (auto simp: result_simps read_bounded_text_Inr not_less split: if_splits)
    from "3.IH"(1) [OF _ True _ w(8) _ w(6)] w show ?thesis using seen True
      by (simp add: not_less)
  next
    case False
    then have "walk_policies u rd (seen + 1) n sz entries = Inr srcs" using "3.prems"(1) seen by (simp split: if_splits)
    from "3.IH"(2) [OF _ False this] "3.prems" seen False show ?thesis by (simp add: not_less)
  qed
qed auto

text \<open>
  C26: loading a store is all or nothing.  The policy set it returns is the merge, in path order,
  of every policy file of the tree, each read completely; a tree with an unreadable entry, a file
  that is too large or not text, or more entries, files or bytes than the limits is refused.
\<close>

theorem loaded_policies_complete:
  assumes "load_policies L D = Inr (P, srcs)" "sd_dir_exists D"
  shows "(\<forall>x \<in> set (sd_entries D). is_ok x) \<and>
    mset (map ps_path srcs) = mset (map fst (filter is_policy_file (map projr (sd_entries D)))) \<and>
    (\<forall>src \<in> set srcs. source_ok D src) \<and> sorted (map (\<lambda>s. split_on CHR ''/'' (ps_path s)) srcs) \<and>
    merge_sources L (cl_empty L) srcs = Inr P \<and>
    length (sd_entries D) \<le> MAX_POLICY_TREE_ENTRIES \<and> length srcs \<le> MAX_POLICY_FILES \<and>
    sum_list (map (length \<circ> ps_text) srcs) \<le> MAX_TOTAL_POLICY_BYTES"
proof -
  let ?key = "\<lambda>s. split_on CHR ''/'' (ps_path s)"
  obtain us where w: "walk_policies (cl_utf8_error L) (sd_read D) 0 0 0 (sd_entries D) = Inr us"
      and srcs: "srcs = sort_key ?key us" and m: "merge_sources L (cl_empty L) srcs = Inr P"
    using assms unfolding load_policies_def Let_def by (auto simp: and_then_Inr simp del: split_on.simps)
  have W: "length (sd_entries D) \<le> MAX_POLICY_TREE_ENTRIES \<and> length us \<le> MAX_POLICY_FILES \<and>
    sum_list (map (length \<circ> ps_text) us) \<le> MAX_TOTAL_POLICY_BYTES \<and> (\<forall>x \<in> set (sd_entries D). is_ok x) \<and>
    map ps_path us = map fst (filter is_policy_file (map projr (sd_entries D))) \<and> (\<forall>src \<in> set us. source_ok D src)"
    using walk_policies_Inr [OF w] by (simp add: source_ok_def)
  have sum: "sum_list (map f srcs) = sum_list (map f us)" for f :: "policy_source \<Rightarrow> nat"
    unfolding sum_mset_sum_list [symmetric] mset_map srcs by simp
  have "mset (map ps_path srcs) = mset (map ps_path us)" by (simp add: srcs)
  moreover have "sorted (map ?key srcs)" by (simp add: srcs)
  moreover have "set srcs = set us" "length srcs = length us" by (simp_all add: srcs)
  ultimately show ?thesis using W m unfolding sum by simp
qed

definition demo_loader :: "(unit, string list, unit) cedar_loader" where
  "demo_loader = \<lparr>cl_empty = [], cl_parse = (\<lambda>s. Inr [s]), cl_merge = (\<lambda>a b. Inr (a @ b)), cl_count = length, cl_schema = (\<lambda>_. Inr ()),
    cl_policy_parse = (\<lambda>_ _. None), cl_validate = (\<lambda>_ _. ([], [])), cl_utf8_error = (\<lambda>_. []), cl_entity_text = (\<lambda>_. Inr []),
    cl_entities = (\<lambda>_. Inr ()), cl_entity_parse = (\<lambda>_. Inr ())\<rparr>"

definition demo_disk :: store_disk where
  "demo_disk = \<lparr>sd_root_exists = True, sd_create_dirs = Inr (), sd_dir_exists = True, sd_schema_exists = False,
    sd_entries = [Inr (''p'', False), Inr (''p/b.cedar'', True), Inr (''p/a.cedar'', True), Inr (''p/a.txt'', True)],
    sd_read = (\<lambda>path. Inr (if path = ''p/a.cedar'' then ''permit'' else ''forbid''))\<rparr>"

lemma demo_load: "load_policies demo_loader demo_disk =
  Inr ([''permit'', ''forbid''], [\<lparr>ps_path = ''p/a.cedar'', ps_text = ''permit''\<rparr>, \<lparr>ps_path = ''p/b.cedar'', ps_text = ''forbid''\<rparr>])"
proof -
  have f: "is_policy_file (''p'', False) = False" "is_policy_file (''p/b.cedar'', True)" "is_policy_file (''p/a.cedar'', True)"
    "is_policy_file (''p/a.txt'', True) = False" by code_simp+
  have u: "utf8_valid ''permit''" "utf8_valid ''forbid''" by code_simp+
  have r: "read_bounded_text u (\<lambda>path. Inr (if path = ''p/a.cedar'' then ''permit'' else ''forbid'')) p MAX_POLICY_FILE_BYTES l =
      Inr (if p = ''p/a.cedar'' then ''permit'' else ''forbid'')" for u p l
    using u by (simp add: read_bounded_text_Inr MAX_POLICY_FILE_BYTES_def)
  have o: "sort_key (\<lambda>s. split_on CHR ''/'' (ps_path s)) [\<lparr>ps_path = ''p/b.cedar'', ps_text = ''forbid''\<rparr>, \<lparr>ps_path = ''p/a.cedar'', ps_text = ''permit''\<rparr>] =
    [\<lparr>ps_path = ''p/a.cedar'', ps_text = ''permit''\<rparr>, \<lparr>ps_path = ''p/b.cedar'', ps_text = ''forbid''\<rparr>]" by code_simp
  show ?thesis
    by (simp add: load_policies_def demo_disk_def demo_loader_def f r MAX_POLICY_TREE_ENTRIES_def MAX_POLICY_FILES_def
        MAX_TOTAL_POLICY_BYTES_def u64_max_def o [simplified])
qed

theorem loaded_policies_complete_witness:
  "sd_dir_exists demo_disk \<and> merge_sources demo_loader (cl_empty demo_loader)
    [\<lparr>ps_path = ''p/a.cedar'', ps_text = ''permit''\<rparr>, \<lparr>ps_path = ''p/b.cedar'', ps_text = ''forbid''\<rparr>] = Inr [''permit'', ''forbid'']"
  using loaded_policies_complete [OF demo_load] by (simp add: demo_disk_def)

section \<open>Names\<close>

text \<open>A sanitized name stays in its directory: it has no separator and is no reference to a parent.\<close>

lemma sanitize_name_safe:
  "c \<in> set (sanitize_name name) \<Longrightarrow> ascii_alphanumeric c \<or> c \<in> {CHR ''.'', CHR ''_'', CHR ''-''}"
  by (auto simp: sanitize_name_def split: if_splits)

lemma sanitize_name_no_slash: "CHR ''/'' \<notin> set (sanitize_name name)"
  using sanitize_name_safe [of "CHR ''/''" name] by (auto simp: ascii_alphanumeric_def)

lemma written_policy_path:
  assumes "write_policy debug canon mkdir wr root name content = (Inr path, file)"
  shows "\<exists>safe. path = join_path (policies_dir root) (safe @ ''.cedar'') \<and> safe \<noteq> [] \<and> CHR ''/'' \<notin> set safe \<and>
    hd safe \<noteq> CHR ''.'' \<and> file = Some (path, content)"
proof -
  let ?safe = "sanitize_name name"
  have "?safe \<noteq> []" "\<not> starts_with ?safe ''.''" "path = join_path (policies_dir root) (?safe @ ''.cedar'')" "file = Some (path, content)"
    using assms by (auto simp: write_policy_def Let_def result_simps split: if_splits sum.splits prod.splits elim!: after_write.elims)
  moreover from this(1,2) have "hd ?safe \<noteq> CHR ''.''" by (cases ?safe) (auto simp: starts_with_iff)
  ultimately show ?thesis using sanitize_name_no_slash by blast
qed

text \<open>Different names can be sanitized to the same file.\<close>

theorem policy_names_collide: "sanitize_name ''a/b'' = sanitize_name ''a_b''"
  by code_simp

end
