(* ===== verification/Authzen.thy ===== *)
theory Authzen
  imports AuthLayer PolicyStore Metrics AuditLog
begin

text \<open>
  The decision endpoints (\<open>agentguard-server/src/authzen.rs\<close> and \<open>audit.rs\<close>): mapping a request of
  the AuthZEN protocol to the engine under the identity of the caller, deciding and persisting the
  decision before it is returned, the single and the batch handler, readiness, and the policy
  snapshot that is replaced as a whole.

  The audit writer is a port: the operations of its trait are parameters, and the locale
  \<open>audit_port\<close> states what an implementation promises.  Free work slots, clock readings and what an
  append draws are inputs of each call.
\<close>

section \<open>Requests\<close>

record entity_ref =
  ent_type :: string
  ent_id :: string

record evaluation_request =
  er_subject :: entity_ref
  er_action :: entity_ref
  er_resource :: entity_ref
  er_context :: json
  er_entities :: "json list"

record evaluation_response =
  es_decision :: bool
  es_context :: "json option"
  es_reason :: "string option"

datatype evaluation_semantics = ExecuteAll | DenyOnFirstDeny | PermitOnFirstPermit

record batch_request =
  br_evaluations :: "evaluation_request list"
  br_semantics :: "evaluation_semantics option"
  br_subject :: "entity_ref option"
  br_resource :: "entity_ref option"

text \<open>\<open>str::split_once\<close> at two colons.\<close>

fun split_colons :: "string \<Rightarrow> (string \<times> string) option" where
  "split_colons (a # b # cs) =
    (if a = CHR '':'' \<and> b = CHR '':'' then Some ([], cs)
     else map_option (\<lambda>(l, r). (a # l, r)) (split_colons (b # cs)))"
| "split_colons _ = None"

definition context_entry :: "string \<times> json \<Rightarrow> agent_context \<Rightarrow> agent_context" where
  "context_entry = (\<lambda>(k, v) c.
    if k = ''session'' then
      (case v of Object fs \<Rightarrow> fold (\<lambda>(sk, sv) c. context_with_session c sk sv) fs c | _ \<Rightarrow> c)
    else context_with_arg c k v)"

definition evaluation_request_to_agent ::
  "(string \<Rightarrow> string) \<Rightarrow> string \<Rightarrow> evaluation_request \<Rightarrow> string + agent_request" where
  "evaluation_request_to_agent debug uuid req =
    and_then
      (if ent_type (er_subject req) = ''User'' then Inr (principal_user (ent_id (er_subject req)))
       else if ent_type (er_subject req) = ''Agent'' then Inr (principal_agent (ent_id (er_subject req)))
       else Inl (''unsupported subject type '' @ debug (ent_type (er_subject req)) @ '': expected User or Agent'')) (\<lambda>p.
    let ident = (case strip_prefix ''ToolCall::'' (ent_id (er_action req)) of Some s \<Rightarrow> s | None \<Rightarrow> ent_id (er_action req));
        action = (case split_colons ident of Some (tool, opn) \<Rightarrow> action_tool_op tool opn | None \<Rightarrow> action_tool ident);
        res = resource_new (ent_type (er_resource req)) (ent_id (er_resource req));
        ctx = (case er_context req of Object fs \<Rightarrow> fold context_entry fs context_new | _ \<Rightarrow> context_new)
    in Inr (request_new uuid p action res ctx))"

datatype mapping_error = IdentityMismatch | InvalidRequest string

definition caller_tenant :: "authenticated_identity \<Rightarrow> evaluation_request \<Rightarrow> mapping_error + string option" where
  "caller_tenant caller req =
    (if \<not> ai_can_act_as caller \<and> (ent_type (er_subject req) \<noteq> subject_type (ai_identity caller) \<or>
         ent_id (er_subject req) \<noteq> subject_id (ai_identity caller)) then Inl IdentityMismatch
     else
       and_then (case get (er_context req) ''tenant_id'' of
           None \<Rightarrow> Inr None
         | Some v \<Rightarrow> and_then (ok_or IdentityMismatch (as_str v)) (\<lambda>s. Inr (Some s))) (\<lambda>supplied.
       if supplied \<noteq> None \<and> supplied \<noteq> tenant_id (ai_identity caller) then Inl IdentityMismatch
       else Inr (tenant_id (ai_identity caller))))"

definition drop_tenant :: "json \<Rightarrow> json" where
  "drop_tenant ctx = (case ctx of Object fs \<Rightarrow> Object (AList.delete ''tenant_id'' fs) | _ \<Rightarrow> ctx)"

definition evaluation_request_for_caller ::
  "(string \<Rightarrow> string) \<Rightarrow> string \<Rightarrow> evaluation_request \<Rightarrow> authenticated_identity option \<Rightarrow> mapping_error + agent_request" where
  "evaluation_request_for_caller debug uuid req caller =
    and_then (case caller of
        None \<Rightarrow> Inr (None, req)
      | Some c \<Rightarrow> and_then (caller_tenant c req) (\<lambda>t. Inr (t, req\<lparr>er_context := drop_tenant (er_context req)\<rparr>))) (\<lambda>(tenant, req).
    and_then (map_err InvalidRequest (evaluation_request_to_agent debug uuid req)) (\<lambda>q.
    Inr (case tenant of Some t \<Rightarrow> with_tenant_id q t | None \<Rightarrow> q)))"

definition authenticated_actor_of :: "authenticated_identity option \<Rightarrow> authenticated_actor option" where
  "authenticated_actor_of caller =
    map_option (\<lambda>c. \<lparr>actor_subject_type = subject_type (ai_identity c), actor_subject_id = subject_id (ai_identity c),
      actor_tenant_id = tenant_id (ai_identity c), actor_credential_id = ai_credential_id c, actor_can_act_as = ai_can_act_as c\<rparr>) caller"

section \<open>Deciding and persisting\<close>

datatype pdp_work_error =
    Saturated
  | JoinFailed
  | PdpEntities string
  | PdpAuthorize core_error
  | PdpAudit core_error

datatype audit_kind = NoAudit | SyncAudit | AsyncAudit

text \<open>What one decision draws from outside: free slots, clock readings, and the inputs of the append.\<close>

record 'i pdp_input =
  pi_free_slots :: nat
  pi_t_get :: instant
  pi_t_put :: instant
  pi_elapsed :: duration
  pi_append :: 'i

definition with_actor :: "authenticated_actor option \<Rightarrow> decision \<Rightarrow> decision" where
  "with_actor actor d =
    (case actor of
       None \<Rightarrow> d
     | Some a \<Rightarrow>
       (case dn_request d of
          Object fs \<Rightarrow> d\<lparr>dn_request := Object (AList.update ''authenticated_actor'' (actor_to_value a) fs)\<rparr>
        | _ \<Rightarrow> d))"

text \<open>
  The bounded work: no free slot refuses; a panic of the engine, which can come only after its
  lookup in the cache, is a failed join.
\<close>

definition pdp_work ::
  "('s, 'c, 'p, 'e, 'l) engine_env \<Rightarrow> ('s, 'p, 'e) cedar_loader \<Rightarrow> 'i pdp_input \<Rightarrow> agent_request \<Rightarrow> json list
    \<Rightarrow> authenticated_actor option \<Rightarrow> ('s, 'p, 'l) authorizer \<Rightarrow> (pdp_work_error + decision) \<times> ('s, 'p, 'l) authorizer" where
  "pdp_work E L i q items actor A =
    (if pi_free_slots i = 0 then (Inl Saturated, A)
     else case build_entities L items of
       Inl e \<Rightarrow> (Inl (PdpEntities (''entities: '' @ show_core_error e)), A)
     | Inr es \<Rightarrow>
       (case authorize E A (pi_t_get i) (pi_t_put i) q es of
          None \<Rightarrow> (Inl JoinFailed, snd (cache_lookup E A (pi_t_get i) q es))
        | Some (Inl e, A) \<Rightarrow> (Inl (PdpAuthorize e), A)
        | Some (Inr d, A) \<Rightarrow> (Inr (with_actor actor d), A)))"

text \<open>
  The append of a writer: \<open>None\<close> is a panic of a synchronous one, or the deadline of an asynchronous
  one.
\<close>

definition persist_decision ::
  "audit_kind \<Rightarrow> ('i \<Rightarrow> decision \<Rightarrow> 'w \<Rightarrow> unit core_result option \<times> 'w) \<Rightarrow> 'i \<Rightarrow> decision \<Rightarrow> 'w \<Rightarrow> (pdp_work_error + decision) \<times> 'w" where
  "persist_decision kind app i d w =
    (case kind of
       NoAudit \<Rightarrow> (Inr d, w)
     | SyncAudit \<Rightarrow>
       (case app i d w of
          (None, w) \<Rightarrow> (Inl JoinFailed, w)
        | (Some (Inl e), w) \<Rightarrow> (Inl (PdpAudit e), w)
        | (Some (Inr _), w) \<Rightarrow> (Inr d, w))
     | AsyncAudit \<Rightarrow>
       (case app i d w of
          (None, w) \<Rightarrow> (Inl (PdpAudit (Io ''audit append timed out'')), w)
        | (Some (Inl e), w) \<Rightarrow> (Inl (PdpAudit e), w)
        | (Some (Inr _), w) \<Rightarrow> (Inr d, w)))"

definition authorize_and_persist_decision ::
  "('s, 'c, 'p, 'e, 'l) engine_env \<Rightarrow> ('s, 'p, 'e) cedar_loader \<Rightarrow> audit_kind \<Rightarrow> ('i \<Rightarrow> decision \<Rightarrow> 'w \<Rightarrow> unit core_result option \<times> 'w)
    \<Rightarrow> 'i pdp_input \<Rightarrow> agent_request \<Rightarrow> json list \<Rightarrow> authenticated_actor option \<Rightarrow> ('s, 'p, 'l) authorizer \<times> 'w
    \<Rightarrow> (pdp_work_error + decision) \<times> ('s, 'p, 'l) authorizer \<times> 'w" where
  "authorize_and_persist_decision E L kind app i q items actor = (\<lambda>(A, w).
    case pdp_work E L i q items actor A of
      (Inl e, A) \<Rightarrow> (Inl e, A, w)
    | (Inr d, A) \<Rightarrow> (let (r, w) = persist_decision kind app (pi_append i) d w in (r, A, w)))"

section \<open>The state of the server\<close>

record ('s, 'p, 'l) authorizer_handle =
  ah_current :: "('s, 'p, 'l) authorizer"
  ah_store_root :: string
  ah_cache :: "cache_config option"

record ('s, 'p, 'l, 'w, 'f) app_state =
  app_authorizer :: "('s, 'p, 'l) authorizer_handle"
  app_audit_kind :: audit_kind
  app_audit :: 'w
  app_auth :: auth_layer
  app_metrics :: "'f metrics"

definition MAX_CONCURRENT_PDP_WORK_ITEMS :: nat where
  "MAX_CONCURRENT_PDP_WORK_ITEMS = 4"

definition MAX_BATCH_EVALUATIONS :: nat where
  "MAX_BATCH_EVALUATIONS = 100"

definition handle_load ::
  "('s, 'c, 'p, 'e, 'l) engine_env \<Rightarrow> ('s, 'p, 'e) cedar_loader \<Rightarrow> store_disk \<Rightarrow> instant \<Rightarrow> string \<Rightarrow> cache_config option
    \<Rightarrow> string + ('s, 'p, 'l) authorizer" where
  "handle_load E L D now root cache =
    and_then (map_err (\<lambda>e. ''open store: '' @ show_core_error e) (store_open D root)) (\<lambda>root.
    and_then (map_err (\<lambda>e. ''authorizer: '' @ show_core_error e) (authorizer_new L D root)) (\<lambda>A.
    case cache of
      None \<Rightarrow> Inr A
    | Some cfg \<Rightarrow> map_err (\<lambda>e. ''decision cache configuration: '' @ e) (try_with_cache E A now cfg)))"

definition handle_new ::
  "('s, 'c, 'p, 'e, 'l) engine_env \<Rightarrow> ('s, 'p, 'e) cedar_loader \<Rightarrow> store_disk \<Rightarrow> instant \<Rightarrow> string \<Rightarrow> cache_config option
    \<Rightarrow> string + ('s, 'p, 'l) authorizer_handle" where
  "handle_new E L D now root cache =
    and_then (handle_load E L D now root cache) (\<lambda>A. Inr \<lparr>ah_current = A, ah_store_root = root, ah_cache = cache\<rparr>)"

definition handle_reload ::
  "('s, 'c, 'p, 'e, 'l) engine_env \<Rightarrow> ('s, 'p, 'e) cedar_loader \<Rightarrow> store_disk \<Rightarrow> instant \<Rightarrow> ('s, 'p, 'l) authorizer_handle
    \<Rightarrow> (string + unit) \<times> ('s, 'p, 'l) authorizer_handle" where
  "handle_reload E L D now h =
    (case handle_load E L D now (ah_store_root h) (ah_cache h) of
       Inl e \<Rightarrow> (Inl e, h)
     | Inr A \<Rightarrow> (Inr (), h\<lparr>ah_current := A\<rparr>))"

text \<open>The reload sink of the watcher and of the hang-up signal (\<open>server.rs\<close>).\<close>

definition app_reload ::
  "('s, 'c, 'p, 'e, 'l) engine_env \<Rightarrow> ('s, 'p, 'e) cedar_loader \<Rightarrow> store_disk \<Rightarrow> instant \<Rightarrow> ('s, 'p, 'l, 'w, 'f) app_state
    \<Rightarrow> ('s, 'p, 'l, 'w, 'f) app_state" where
  "app_reload E L D now S =
    (case handle_reload E L D now (app_authorizer S) of
       (Inr _, h) \<Rightarrow> S\<lparr>app_authorizer := h, app_metrics := record_policy_reload (app_metrics S)\<rparr>
     | (Inl _, h) \<Rightarrow> S\<lparr>app_authorizer := h\<rparr>)"

text \<open>What is opened as the audit log, by secret and rotation.\<close>

definition open_audit ::
  "log_env \<Rightarrow> io_faults \<Rightarrow> draws \<Rightarrow> log_path \<Rightarrow> string option \<Rightarrow> nat option \<Rightarrow> dir \<Rightarrow> (string + decision_log) \<times> dir" where
  "open_audit E io dw p secret rotation fs =
    (case (secret, rotation) of
       (Some key, Some n) \<Rightarrow> map_err_step (\<lambda>e. ''open rotating chained audit log: '' @ show_core_error e) (open_with_rotation E io dw p (Some key) n) fs
     | (Some key, None) \<Rightarrow> map_err_step (\<lambda>e. ''open chained audit log: '' @ show_core_error e) (open_with_chain E io dw p key) fs
     | (None, Some n) \<Rightarrow> map_err_step (\<lambda>e. ''open rotating audit log: '' @ show_core_error e) (open_with_rotation E io dw p None n) fs
     | (None, None) \<Rightarrow> map_err_step (\<lambda>e. ''open audit log: '' @ show_core_error e) (log_open E io dw p) fs)"

definition build_state_with_options ::
  "('s, 'c, 'p, 'e, 'l) engine_env \<Rightarrow> ('s, 'p, 'e) cedar_loader \<Rightarrow> log_env \<Rightarrow> store_disk \<Rightarrow> instant \<Rightarrow> io_faults \<Rightarrow> draws \<Rightarrow> string
    \<Rightarrow> log_path option \<Rightarrow> string option \<Rightarrow> auth_layer \<Rightarrow> cache_config option \<Rightarrow> nat option \<Rightarrow> dir
    \<Rightarrow> (string + ('s, 'p, 'l, decision_log option, 'f) app_state) \<times> dir" where
  "build_state_with_options E L LE D now io dw root audit_log secret auth cache rotation fs =
    (case handle_new E L D now root cache of
       Inl e \<Rightarrow> (Inl e, fs)
     | Inr h \<Rightarrow>
       (case audit_log of
          None \<Rightarrow>
            (Inr \<lparr>app_authorizer = h, app_audit_kind = NoAudit, app_audit = None, app_auth = auth, app_metrics = metrics_new\<rparr>, fs)
        | Some p \<Rightarrow>
          bind_step (open_audit LE io dw p secret rotation) (\<lambda>log fs.
            (Inr \<lparr>app_authorizer = h, app_audit_kind = SyncAudit, app_audit = Some log, app_auth = auth, app_metrics = metrics_new\<rparr>, fs)) fs))"

section \<open>Handlers\<close>

datatype http_reply =
    ReplyText nat string
  | ReplyDecision evaluation_response
  | ReplyBatch "evaluation_response list"

definition report_pdp_work_failure :: "pdp_work_error \<Rightarrow> 'f metrics \<Rightarrow> (nat \<times> string) \<times> 'f metrics" where
  "report_pdp_work_failure e m =
    (case e of
       Saturated \<Rightarrow> ((503, ''PDP capacity exhausted''), record_pdp_error ''pdp_overloaded'' m)
     | JoinFailed \<Rightarrow> ((500, ''authorization unavailable''), record_pdp_error ''pdp_worker'' m)
     | PdpEntities _ \<Rightarrow> ((400, ''invalid request entities''), record_pdp_error ''entities_build'' m)
     | PdpAuthorize _ \<Rightarrow> ((500, ''internal authorization error''), record_pdp_error ''authorize'' m)
     | PdpAudit _ \<Rightarrow> ((500, ''audit log unavailable''), record_pdp_error ''audit_append'' m))"

definition mapping_reply :: "mapping_error \<Rightarrow> http_reply" where
  "mapping_reply e =
    (case e of
       IdentityMismatch \<Rightarrow> ReplyText 403 ''request identity does not match credential''
     | InvalidRequest msg \<Rightarrow> ReplyText 400 msg)"

definition response_of :: "decision \<Rightarrow> evaluation_response" where
  "response_of d =
    \<lparr>es_decision = (dn_effect d = Allow), es_context = None,
     es_reason = (case dn_reasons d of r # _ \<Rightarrow> Some r | [] \<Rightarrow> None)\<rparr>"

definition count_decision :: "'f float_ops \<Rightarrow> string \<Rightarrow> duration \<Rightarrow> decision \<Rightarrow> 'f metrics \<Rightarrow> 'f metrics" where
  "count_decision F action_label elapsed d m =
    (let policy_id = (case dn_policies d of p # _ \<Rightarrow> p | [] \<Rightarrow> ''none'');
         m = record_decision F (show_effect (dn_effect d)) policy_id action_label [] elapsed m
     in if dn_from_cache d then record_cache_hit m else record_cache_miss m)"

text \<open>The parameters of the handlers: the engine, the loader, the number formats, the writer, and debug printing.\<close>

record ('s, 'c, 'p, 'e, 'l, 'f, 'i, 'w) pdp_env =
  pe_engine :: "('s, 'c, 'p, 'e, 'l) engine_env"
  pe_loader :: "('s, 'p, 'e) cedar_loader"
  pe_floats :: "'f float_ops"
  pe_append :: "'i \<Rightarrow> decision \<Rightarrow> 'w \<Rightarrow> unit core_result option \<times> 'w"
  pe_debug :: "string \<Rightarrow> string"

definition run_pdp ::
  "('s, 'c, 'p, 'e, 'l, 'f, 'i, 'w) pdp_env \<Rightarrow> 'i pdp_input \<Rightarrow> agent_request \<Rightarrow> json list \<Rightarrow> authenticated_identity option
    \<Rightarrow> ('s, 'p, 'l, 'w, 'f) app_state \<Rightarrow> (pdp_work_error + decision) \<times> ('s, 'p, 'l, 'w, 'f) app_state" where
  "run_pdp X i q items caller S =
    (let h = app_authorizer S;
         (r, A, w) = authorize_and_persist_decision (pe_engine X) (pe_loader X) (app_audit_kind S) (pe_append X) i q items
           (authenticated_actor_of caller) (ah_current h, app_audit S)
     in (r, S\<lparr>app_authorizer := h\<lparr>ah_current := A\<rparr>, app_audit := w\<rparr>))"

definition evaluation ::
  "('s, 'c, 'p, 'e, 'l, 'f, 'i, 'w) pdp_env \<Rightarrow> 'i pdp_input \<Rightarrow> string \<Rightarrow> authenticated_identity option \<Rightarrow> evaluation_request
    \<Rightarrow> ('s, 'p, 'l, 'w, 'f) app_state \<Rightarrow> http_reply \<times> ('s, 'p, 'l, 'w, 'f) app_state" where
  "evaluation X i uuid caller req S =
    (case evaluation_request_for_caller (pe_debug X) uuid req caller of
       Inl e \<Rightarrow> (mapping_reply e, S)
     | Inr q \<Rightarrow>
       (case run_pdp X i q (er_entities req) caller S of
          (Inr d, S) \<Rightarrow>
            (ReplyDecision (response_of d),
             S\<lparr>app_metrics := count_decision (pe_floats X) (show_action (rq_action q)) (pi_elapsed i) d (app_metrics S)\<rparr>)
        | (Inl e, S) \<Rightarrow>
            (let ((status, msg), m) = report_pdp_work_failure e (app_metrics S) in (ReplyText status msg, S\<lparr>app_metrics := m\<rparr>))))"

text \<open>The loop of the batch handler; each item comes with its inputs and the identifier it draws.\<close>

fun evaluate_items ::
  "('s, 'c, 'p, 'e, 'l, 'f, 'i, 'w) pdp_env \<Rightarrow> evaluation_semantics \<Rightarrow> authenticated_identity option
    \<Rightarrow> ('i pdp_input \<times> string \<times> evaluation_request) list \<Rightarrow> evaluation_response list
    \<Rightarrow> ('s, 'p, 'l, 'w, 'f) app_state \<Rightarrow> http_reply \<times> ('s, 'p, 'l, 'w, 'f) app_state" where
  "evaluate_items X semantics caller [] responses S = (ReplyBatch responses, S)"
| "evaluate_items X semantics caller ((i, uuid, er) # rest) responses S =
    (case evaluation_request_for_caller (pe_debug X) uuid er caller of
       Inl e \<Rightarrow> (mapping_reply e, S)
     | Inr q \<Rightarrow>
       (case run_pdp X i q (er_entities er) caller S of
          (Inr d, S) \<Rightarrow>
            (let responses = responses @ [response_of d] in
             if semantics = DenyOnFirstDeny \<and> dn_effect d \<noteq> Allow \<or> semantics = PermitOnFirstPermit \<and> dn_effect d = Allow
             then (ReplyBatch responses, S)
             else evaluate_items X semantics caller rest responses S)
        | (Inl e, S) \<Rightarrow>
            (let ((status, msg), m) = report_pdp_work_failure e (app_metrics S) in (ReplyText status msg, S\<lparr>app_metrics := m\<rparr>))))"

definition evaluations ::
  "('s, 'c, 'p, 'e, 'l, 'f, 'i, 'w) pdp_env \<Rightarrow> (nat \<Rightarrow> 'i pdp_input \<times> string) \<Rightarrow> authenticated_identity option \<Rightarrow> batch_request
    \<Rightarrow> ('s, 'p, 'l, 'w, 'f) app_state \<Rightarrow> http_reply \<times> ('s, 'p, 'l, 'w, 'f) app_state" where
  "evaluations X inputs caller req S =
    (let n = length (br_evaluations req) in
     if n > MAX_BATCH_EVALUATIONS then
       (ReplyText 413 (''batch too large: '' @ show_nat n @ '' > '' @ show_nat MAX_BATCH_EVALUATIONS @ '' max evaluations''), S)
     else
       evaluate_items X (case br_semantics req of Some s \<Rightarrow> s | None \<Rightarrow> ExecuteAll) caller
         (map (\<lambda>(k, er). (fst (inputs k), snd (inputs k), er)) (enumerate 0 (br_evaluations req))) [] S)"

section \<open>Readiness\<close>

text \<open>
  What the writer answers: for an asynchronous one, \<open>None\<close> is the deadline.
\<close>

record audit_probe =
  ap_healthy :: "bool option"
  ap_chained :: "bool option"

definition readyz ::
  "('s, 'c, 'p, 'e, 'l, 'f, 'i, 'w) pdp_env \<Rightarrow> audit_probe \<Rightarrow> ('s, 'p, 'l, 'w, 'f) app_state \<Rightarrow> nat \<times> string" where
  "readyz X probe S =
    (let healthy = (ap_healthy probe = Some True); chained = (ap_chained probe = Some True) in
     if cl_count (pe_loader X) (az_policies (ah_current (app_authorizer S))) = 0 then (503, ''policies not loaded'' @ [CHR 0x0A])
     else if app_audit_kind S = NoAudit then (503, ''audit log not configured'' @ [CHR 0x0A])
     else if \<not> healthy then (503, ''audit log unavailable'' @ [CHR 0x0A])
     else if \<not> chained then (503, ''audit log not opened'' @ [CHR 0x0A])
     else (200, ''ok'' @ [CHR 0x0A]))"

section \<open>The endpoint behind its middleware\<close>

definition serve_evaluation ::
  "key_env \<Rightarrow> ('s, 'c, 'p, 'e, 'l, 'f, 'i, 'w) pdp_env \<Rightarrow> int \<Rightarrow> nat \<Rightarrow> bool \<Rightarrow> 'i pdp_input \<Rightarrow> string \<Rightarrow> string option \<Rightarrow> evaluation_request
    \<Rightarrow> ('s, 'p, 'l, 'w, 'f) app_state \<Rightarrow> http_reply \<times> ('s, 'p, 'l, 'w, 'f) app_state" where
  "serve_evaluation K X now free_slots joined i uuid authorization req S =
    (case auth_layer_fn K now (app_auth S)
        \<lparr>hr_method = ''POST'', hr_path = ''/access/v1/evaluation'', hr_authorization = authorization\<rparr> free_slots joined of
       Reply status msg \<Rightarrow> (ReplyText status msg, S)
     | Next caller \<Rightarrow> evaluation X i uuid caller req S)"

section \<open>The decision log as a writer\<close>

text \<open>What an append of the log draws: its failures, names and identifiers, and the record's identifier and time.\<close>

type_synonym log_input = "io_faults \<times> draws \<times> string \<times> int"

definition dlog_append :: "log_env \<Rightarrow> log_input \<Rightarrow> decision \<Rightarrow> world \<Rightarrow> unit core_result option \<times> world" where
  "dlog_append E = (\<lambda>(io, dw, uuid, now) d w.
    case append_decision E io dw uuid now d w of None \<Rightarrow> (None, w) | Some (r, w) \<Rightarrow> (Some r, w))"

definition dlog_healthy :: "world \<Rightarrow> bool" where
  "dlog_healthy w = is_healthy (snd w)"

definition dlog_chained :: "string \<Rightarrow> world \<Rightarrow> bool \<times> world" where
  "dlog_chained fresh w = (let (ident, log) = log_chain_id fresh (snd w) in (ident \<noteq> None, (fst w, log)))"

section \<open>The identity of the caller\<close>

lemma session_keeps_args: "ctx_args (fold (\<lambda>(sk, sv) c. context_with_session c sk sv) fs c) = ctx_args c"
  by (induction fs arbitrary: c) (auto simp: context_with_session_def)

lemma context_entry_args:
  assumes "k \<noteq> j" "get (ctx_args c) j = None"
  shows "get (ctx_args (context_entry (k, v) c)) j = None"
  using assms by (cases "ctx_args c"; cases v) (auto simp: context_entry_def context_with_arg_def map_of_update session_keeps_args)

lemma fold_context_args:
  "j \<notin> fst ` set fs \<Longrightarrow> get (ctx_args c) j = None \<Longrightarrow> get (ctx_args (fold context_entry fs c)) j = None"
  by (induction fs arbitrary: c) (auto simp: context_entry_args)

lemma mapped_request:
  assumes "evaluation_request_to_agent debug uuid req = Inr q"
  shows "principal_entity_type (rq_principal q) = ent_type (er_subject req) \<and> principal_uid (rq_principal q) = ent_id (er_subject req) \<and>
    rq_resource q = resource_new (ent_type (er_resource req)) (ent_id (er_resource req)) \<and>
    rq_context q = (case er_context req of Object fs \<Rightarrow> fold context_entry fs context_new | _ \<Rightarrow> context_new) \<and> rq_tenant_id q = None"
  using assms
  by (auto simp: evaluation_request_to_agent_def result_simps Let_def request_new_def principal_user_def principal_agent_def split: if_splits)

definition normal_tenant :: "string option \<Rightarrow> string option" where
  "normal_tenant t = Option.bind t (\<lambda>s. if trim s = [] then None else Some (trim s))"

lemma caller_binds_request:
  assumes "evaluation_request_for_caller debug uuid req (Some c) = Inr q"
  shows "(ai_can_act_as c \<or> principal_entity_type (rq_principal q) = subject_type (ai_identity c) \<and>
      principal_uid (rq_principal q) = subject_id (ai_identity c)) \<and>
    rq_tenant_id q = normal_tenant (tenant_id (ai_identity c)) \<and>
    (get (er_context req) ''tenant_id'' = None \<or>
      (\<exists>t. get (er_context req) ''tenant_id'' = Some (String t) \<and> tenant_id (ai_identity c) = Some t)) \<and>
    get (ctx_args (rq_context q)) ''tenant_id'' = None"
proof -
  let ?req = "req\<lparr>er_context := drop_tenant (er_context req)\<rparr>"
  obtain t q0 where t: "caller_tenant c req = Inr t" and q0: "evaluation_request_to_agent debug uuid ?req = Inr q0"
      and q: "q = (case t of Some s \<Rightarrow> with_tenant_id q0 s | None \<Rightarrow> q0)"
    using assms by (auto simp: evaluation_request_for_caller_def result_simps)
  note m = mapped_request [OF q0]
  have subject: "ai_can_act_as c \<or> ent_type (er_subject req) = subject_type (ai_identity c) \<and> ent_id (er_subject req) = subject_id (ai_identity c)"
    and tenant: "t = tenant_id (ai_identity c)"
    and supplied: "get (er_context req) ''tenant_id'' = None \<or>
      (\<exists>s. get (er_context req) ''tenant_id'' = Some (String s) \<and> tenant_id (ai_identity c) = Some s)"
    using t by (auto simp: caller_tenant_def result_simps split: if_splits option.splits elim!: as_str.elims)
  have "get (ctx_args (fold context_entry (AList.delete ''tenant_id'' fs) context_new)) ''tenant_id'' = None" for fs
    by (rule fold_context_args) (simp_all add: fst_set_delete context_new_def)
  then have "get (ctx_args (rq_context q0)) ''tenant_id'' = None"
    using m by (cases "er_context req") (simp_all add: drop_tenant_def context_new_def)
  then show ?thesis
    using subject tenant supplied m q by (auto simp: with_tenant_id_def normal_tenant_def split: option.splits)
qed

text \<open>
  C9: a request made with a key is bound to the identity of that key.  Unless the key may act for
  others, the principal the engine sees is the key's subject.  The tenant of the request is always
  the key's: a different one in the context is refused, and the context handed to the policies
  carries none.
\<close>

theorem request_bound_to_caller:
  assumes "evaluation_request_for_caller debug uuid req (Some c) = Inr q"
  shows "(ai_can_act_as c \<or> principal_entity_type (rq_principal q) = subject_type (ai_identity c) \<and>
      principal_uid (rq_principal q) = subject_id (ai_identity c)) \<and>
    rq_tenant_id q = normal_tenant (tenant_id (ai_identity c)) \<and>
    (get (er_context req) ''tenant_id'' = None \<or>
      (\<exists>t. get (er_context req) ''tenant_id'' = Some (String t) \<and> tenant_id (ai_identity c) = Some t)) \<and>
    get (ctx_args (rq_context q)) ''tenant_id'' = None"
  using caller_binds_request [OF assms] .

section \<open>Audit before answer\<close>

lemma evaluation_run:
  assumes "evaluation X i uuid caller req S = (ReplyDecision resp, S')"
  obtains q d S1 where "evaluation_request_for_caller (pe_debug X) uuid req caller = Inr q"
    "run_pdp X i q (er_entities req) caller S = (Inr d, S1)" "resp = response_of d" "app_audit S' = app_audit S1"
  using assms by (auto simp: evaluation_def mapping_reply_def split: sum.splits mapping_error.splits prod.splits)

text \<open>
  The contract of an audit writer: \<open>holds t rs w\<close> says that exactly the records \<open>rs\<close> are stored, in
  order, the last one at time \<open>t\<close>; an append that reports success has stored the record of the
  decision.  \<open>fit\<close> is what the environment owes an append after time \<open>t\<close>, and \<open>tick\<close> its time.
\<close>

locale audit_port =
  fixes app :: "'i \<Rightarrow> decision \<Rightarrow> 'w \<Rightarrow> unit core_result option \<times> 'w"
    and rec_of :: "'i \<Rightarrow> decision \<Rightarrow> 'r"
    and holds :: "'t \<Rightarrow> 'r list \<Rightarrow> 'w \<Rightarrow> bool"
    and fit :: "'t \<Rightarrow> 'i \<Rightarrow> decision \<Rightarrow> bool"
    and tick :: "'i \<Rightarrow> 't"
  assumes stored: "holds t rs w \<Longrightarrow> fit t i d \<Longrightarrow> app i d w = (Some (Inr ()), w') \<Longrightarrow> holds (tick i) (rs @ [rec_of i d]) w'"
begin

lemma persist_stored:
  assumes "holds t rs w" "kind \<noteq> NoAudit" "fit t i d" "persist_decision kind app i d w = (Inr d', w')"
  shows "d' = d \<and> holds (tick i) (rs @ [rec_of i d]) w'"
  using assms stored [OF assms(1,3)]
  by (auto simp: persist_decision_def split: audit_kind.splits prod.splits option.splits sum.splits)

lemma run_pdp_stored:
  assumes "holds t rs (app_audit S)" "app_audit_kind S \<noteq> NoAudit" "pe_append X = app" "run_pdp X i q items caller S = (Inr d, S')"
    and "fit t (pi_append i) d"
  shows "holds (tick (pi_append i)) (rs @ [rec_of (pi_append i) d]) (app_audit S') \<and> app_audit_kind S' = app_audit_kind S"
proof -
  obtain d0 A w where "pdp_work (pe_engine X) (pe_loader X) i q items (authenticated_actor_of caller) (ah_current (app_authorizer S)) = (Inr d0, A)"
      and p: "persist_decision (app_audit_kind S) app (pi_append i) d0 (app_audit S) = (Inr d, w)"
      and S': "app_audit S' = w" "app_audit_kind S' = app_audit_kind S"
    using assms(3,4) by (auto simp: run_pdp_def authorize_and_persist_decision_def Let_def split: prod.splits sum.splits)
  have "d0 = d" using p by (auto simp: persist_decision_def split: audit_kind.splits prod.splits option.splits sum.splits)
  with p persist_stored [OF assms(1,2,5), of d w] S' show ?thesis by blast
qed

lemma evaluation_stored:
  assumes "holds t rs (app_audit S)" "app_audit_kind S \<noteq> NoAudit" "pe_append X = app"
    and "\<forall>q d. evaluation_request_for_caller (pe_debug X) uuid req caller = Inr q \<longrightarrow>
      fst (run_pdp X i q (er_entities req) caller S) = Inr d \<longrightarrow> fit t (pi_append i) d"
    and "evaluation X i uuid caller req S = (ReplyDecision resp, S')"
  shows "\<exists>d. resp = response_of d \<and> holds (tick (pi_append i)) (rs @ [rec_of (pi_append i) d]) (app_audit S')"
proof -
  obtain q d S1 where "evaluation_request_for_caller (pe_debug X) uuid req caller = Inr q"
      "run_pdp X i q (er_entities req) caller S = (Inr d, S1)" "resp = response_of d" "app_audit S' = app_audit S1"
    by (rule evaluation_run [OF assms(5)])
  then show ?thesis using run_pdp_stored [OF assms(1-3)] assms(4) by (metis fst_conv)
qed

fun fits :: "'t \<Rightarrow> 'i list \<Rightarrow> bool" where
  "fits t [] = True"
| "fits t (i # is) = ((\<forall>d. fit t i d) \<and> fits (tick i) is)"

lemma evaluate_items_stored:
  assumes "fits t (map (\<lambda>x. pi_append (fst x)) items)" "pe_append X = app" "app_audit_kind S \<noteq> NoAudit"
    and "holds t rs (app_audit S)" "evaluate_items X sem caller items resps S = (ReplyBatch out, S')"
  shows "\<exists>ds is t'. out = resps @ map response_of ds \<and> length ds = length is \<and> holds t' (rs @ map2 rec_of is ds) (app_audit S')"
  using assms
proof (induction X sem caller items resps S arbitrary: rs t rule: evaluate_items.induct)
  case (1 X sem caller resps S)
  then have "out = resps @ map response_of []" "holds t (rs @ map2 rec_of [] []) (app_audit S')" by auto
  then show ?case by (metis list.size(3))
next
  case (2 X sem caller i uuid er rest resps S)
  obtain q d S1 where q: "evaluation_request_for_caller (pe_debug X) uuid er caller = Inr q"
      and d: "run_pdp X i q (er_entities er) caller S = (Inr d, S1)"
    using "2.prems"(5) by (auto simp: mapping_reply_def split: sum.splits mapping_error.splits prod.splits)
  have s: "holds (tick (pi_append i)) (rs @ [rec_of (pi_append i) d]) (app_audit S1)" "app_audit_kind S1 \<noteq> NoAudit"
    using run_pdp_stored [OF "2.prems"(4,3,2) d] "2.prems"(1,3) by auto
  show ?case
  proof (cases "sem = DenyOnFirstDeny \<and> dn_effect d \<noteq> Allow \<or> sem = PermitOnFirstPermit \<and> dn_effect d = Allow")
    case True
    then have "out = resps @ map response_of [d] \<and> S' = S1" using "2.prems"(5) q d by auto
    moreover have "holds (tick (pi_append i)) (rs @ map2 rec_of [pi_append i] [d]) (app_audit S1)" using s by simp
    ultimately show ?thesis by (metis length_Cons list.size(3))
  next
    case False
    then have "evaluate_items X sem caller rest (resps @ [response_of d]) S1 = (ReplyBatch out, S')"
      using "2.prems"(5) q d by auto
    with "2.IH" [OF q d [symmetric] refl refl False, of "tick (pi_append i)" "rs @ [rec_of (pi_append i) d]"] "2.prems"(1,2) s
    obtain ds js t' where "out = resps @ [response_of d] @ map response_of ds" "length ds = length js"
        "holds t' (rs @ [rec_of (pi_append i) d] @ map2 rec_of js ds) (app_audit S')" by force
    then have "out = resps @ map response_of (d # ds) \<and> length (d # ds) = length (pi_append i # js) \<and>
      holds t' (rs @ map2 rec_of (pi_append i # js) (d # ds)) (app_audit S')" by simp
    then show ?thesis by blast
  qed
qed

end

text \<open>The decision log keeps the contract: what it holds are the records of its successful appends.\<close>

definition dlog_record :: "log_env \<Rightarrow> log_input \<Rightarrow> decision \<Rightarrow> decision_record" where
  "dlog_record E = (\<lambda>(io, dw, uuid, now) d. from_decision (le_rec E) uuid now d None None)"

definition dlog_tick :: "log_input \<Rightarrow> string" where
  "dlog_tick = (\<lambda>(io, dw, uuid, now). dw_timestamp dw)"

definition dlog_fit :: "log_env \<Rightarrow> decision_record set \<Rightarrow> string \<Rightarrow> log_input \<Rightarrow> decision \<Rightarrow> bool" where
  "dlog_fit E R t i d \<longleftrightarrow> t \<le> dlog_tick i \<and> timestamp_ok (dlog_tick i) \<and> dlog_record E i d \<in> R"

interpretation dlog: audit_port "dlog_append E" "dlog_record E" "log_reach E R p key" "dlog_fit E R" dlog_tick for E R p key
proof
  fix t rs w i d w'
  assume a: "log_reach E R p key t rs w" "dlog_fit E R t i d" "dlog_append E i d w = (Some (Inr ()), w')"
  obtain io dw uuid now where i: "i = (io, dw, uuid, now)" by (cases i)
  have "log_append E io dw (dlog_record E i d) w = Some (Inr (), w')"
    using a(3) by (auto simp: i dlog_append_def dlog_record_def append_decision_def split: option.splits)
  then show "log_reach E R p key (dlog_tick i) (rs @ [dlog_record E i d]) w'"
    using log_reach.appended [OF a(1)] a(2) by (simp add: i dlog_fit_def dlog_tick_def)
qed

lemma log_reach_reads:
  "log_env_ok E R \<Longrightarrow> log_name_ok (lp_name p) \<Longrightarrow> lp_dir p \<noteq> [] \<Longrightarrow> log_reach E R p key t rs (fs, log) \<Longrightarrow> read_all E no_faults p fs = Inr rs"
  using reach_inv inv_reads by blast

text \<open>
  What a decision says: the engine's answer for the policies of the snapshot, and, once persisted, a
  record that names the request and the credential it was made with.
\<close>

lemma work_decides:
  assumes ok: "engine_ok E linv Q" and A: "az_reach E A0 Q A"
    and Q: "\<forall>es. build_entities L items = Inr es \<longrightarrow> (q, es) \<in> Q"
    and w: "pdp_work E L i q items actor A = (Inr d, A')"
  obtains es d0 where "build_entities L items = Inr es" "d = with_actor actor d0" "dn_request d0 = request_to_value (ev_hex E) q"
    "direct E (az_schema A0) (az_policies A0) q es = Inr (dn_effect d, dn_policies d, dn_reasons d)"
proof -
  obtain es d0 where es: "build_entities L items = Inr es" "authorize E A (pi_t_get i) (pi_t_put i) q es = Some (Inr d0, A')"
      and d: "d = with_actor actor d0"
    using w by (auto simp: pdp_work_def split: if_splits sum.splits option.splits)
  have "dn_effect d = dn_effect d0 \<and> dn_policies d = dn_policies d0 \<and> dn_reasons d = dn_reasons d0"
    by (simp add: d with_actor_def split: option.split json.split)
  moreover have "outcome (Inr d0) = direct E (az_schema A0) (az_policies A0) q es"
    using authorize_keeps [OF ok reach_faithful [OF ok A] _ es(2)] Q es(1) by blast
  moreover have "dn_request d0 = request_to_value (ev_hex E) q"
    using es(2) by (auto simp: authorize_def Let_def and_then_Inr split: prod.splits option.splits sum.splits if_splits)
  ultimately show ?thesis using that es(1) d by (simp add: outcome_def)
qed

lemma actor_in_request:
  assumes "dn_request d0 = request_to_value h q"
  shows "k \<noteq> ''authenticated_actor'' \<Longrightarrow> get (dn_request (with_actor actor d0)) k = get (request_to_value h q) k"
    and "get (dn_request (with_actor actor d0)) ''authenticated_actor'' = map_option actor_to_value actor"
  using request_has_no_actor [of h q] assms
  by (auto simp: with_actor_def map_of_update request_to_value_def split: option.splits)

lemma run_pdp_work:
  assumes "run_pdp X i q items caller S = (Inr d, S')"
  obtains A' where "pdp_work (pe_engine X) (pe_loader X) i q items (authenticated_actor_of caller) (ah_current (app_authorizer S)) = (Inr d, A')"
proof -
  obtain d0 A' w where "pdp_work (pe_engine X) (pe_loader X) i q items (authenticated_actor_of caller) (ah_current (app_authorizer S)) = (Inr d0, A')"
      and p: "persist_decision (app_audit_kind S) (pe_append X) (pi_append i) d0 (app_audit S) = (Inr d, w)"
    using assms by (auto simp: run_pdp_def authorize_and_persist_decision_def Let_def split: prod.splits sum.splits)
  moreover have "d0 = d" using p by (auto simp: persist_decision_def split: audit_kind.splits prod.splits option.splits sum.splits)
  ultimately show ?thesis using that by blast
qed

lemma decision_record_of:
  assumes "d = with_actor actor d0" "dn_request d0 = request_to_value (re_hex (le_rec LE)) q"
  shows "let rec = dlog_record LE i d in
    dr_principal rec = principal_uid (rq_principal q) \<and> dr_resource rec = res_uid (rq_resource q) \<and> dr_tenant_id rec = rq_tenant_id q \<and>
    dr_effect rec = show_effect (dn_effect d) \<and> dr_policies rec = dn_policies d \<and>
    dr_authenticated_actor rec = Option.bind actor (\<lambda>a. ok_of (re_actor_from_value (le_rec LE) (actor_to_value a)))"
proof -
  obtain io dw uuid now where i: "i = (io, dw, uuid, now)" by (cases i)
  have "get (dn_request d) ''authenticated_actor'' = map_option actor_to_value actor"
    using actor_in_request(2) [OF assms(2)] by (simp add: assms(1))
  then have "dr_authenticated_actor (dlog_record LE i d) = Option.bind actor (\<lambda>a. ok_of (re_actor_from_value (le_rec LE) (actor_to_value a)))"
    by (cases actor) (simp_all add: i dlog_record_def from_decision_def Let_def)
  moreover have "\<forall>k. k \<noteq> ''authenticated_actor'' \<longrightarrow> get (dn_request d) k = get (request_to_value (re_hex (le_rec LE)) q) k"
    using actor_in_request(1) [OF assms(2)] by (simp add: assms(1))
  ultimately show ?thesis
    using record_fields [of d "le_rec LE" q uuid now None None] by (simp add: i dlog_record_def Let_def)
qed

text \<open>
  C6: no decision leaves the server before it is in the audit log.  When the endpoint answers with a
  decision, the log that is read back from disk is the former one with one record more, which has
  the effect that was answered.
\<close>

theorem decision_audited_before_reply:
  assumes "log_env_ok LE R" "log_name_ok (lp_name p)" "lp_dir p \<noteq> []" "log_reach LE R p key t rs (app_audit S)"
    and "app_audit_kind S = SyncAudit" "pe_append X = dlog_append LE"
    and "t \<le> dlog_tick (pi_append i)" "timestamp_ok (dlog_tick (pi_append i))"
    and "\<forall>q d. evaluation_request_for_caller (pe_debug X) uuid req caller = Inr q \<longrightarrow>
      fst (run_pdp X i q (er_entities req) caller S) = Inr d \<longrightarrow> dlog_record LE (pi_append i) d \<in> R"
    and "evaluation X i uuid caller req S = (ReplyDecision resp, S')"
  shows "\<exists>d. resp = response_of d \<and>
    read_all LE no_faults p (fst (app_audit S')) = Inr (rs @ [dlog_record LE (pi_append i) d]) \<and>
    dr_effect (dlog_record LE (pi_append i) d) = (if es_decision resp then ''allow'' else ''deny'')"
proof -
  have "\<forall>q d. evaluation_request_for_caller (pe_debug X) uuid req caller = Inr q \<longrightarrow>
      fst (run_pdp X i q (er_entities req) caller S) = Inr d \<longrightarrow> dlog_fit LE R t (pi_append i) d"
    using assms(7-9) by (simp add: dlog_fit_def)
  then obtain d where d: "resp = response_of d"
      "log_reach LE R p key (dlog_tick (pi_append i)) (rs @ [dlog_record LE (pi_append i) d]) (app_audit S')"
    using dlog.evaluation_stored [OF assms(4) _ assms(6) _ assms(10)] assms(5) by auto
  have "dr_effect (dlog_record LE (pi_append i) d) = show_effect (dn_effect d)"
    by (cases "pi_append i") (simp add: dlog_record_def from_decision_def Let_def)
  moreover have "show_effect (dn_effect d) = (if es_decision resp then ''allow'' else ''deny'')"
    by (cases "dn_effect d") (simp_all add: d(1) response_of_def)
  ultimately show ?thesis using d log_reach_reads [OF assms(1-3)] by (metis surjective_pairing)
qed

section \<open>A request\<close>

definition demo_identity :: authenticated_identity where
  "demo_identity = \<lparr>ai_identity = \<lparr>subject_type = ''User'', subject_id = ''alice'', tenant_id = None\<rparr>, ai_credential_id = ''id1'', ai_can_act_as = False\<rparr>"

definition demo_evaluation :: evaluation_request where
  "demo_evaluation = \<lparr>er_subject = \<lparr>ent_type = ''User'', ent_id = ''alice''\<rparr>, er_action = \<lparr>ent_type = ''Action'', ent_id = ''ToolCall::send''\<rparr>,
    er_resource = \<lparr>ent_type = ''Mailbox'', ent_id = ''m''\<rparr>, er_context = Null, er_entities = []\<rparr>"

definition demo_pdp :: "(unit, unit, unit, unit, list_lru, unit, log_input, world) pdp_env" where
  "demo_pdp = \<lparr>pe_engine = sample_engine\<lparr>ev_cedar := sample_cedar\<lparr>is_authorized := (\<lambda>_ _ _. \<lparr>cr_decision = CedarDeny, cr_reason = [''p0''], cr_errors = []\<rparr>)\<rparr>\<rparr>,
    pe_loader = \<lparr>cl_empty = (), cl_parse = (\<lambda>_. Inr ()), cl_merge = (\<lambda>_ _. Inr ()), cl_count = (\<lambda>_. 1), cl_schema = (\<lambda>_. Inr ()),
      cl_policy_parse = (\<lambda>_ _. None), cl_validate = (\<lambda>_ _. ([], [])), cl_utf8_error = (\<lambda>_. []), cl_entity_text = (\<lambda>_. Inr []),
      cl_entities = (\<lambda>_. Inr ()), cl_entity_parse = (\<lambda>_. Inr ())\<rparr>,
    pe_floats = \<lparr>f_finite = (\<lambda>_. True), f_order = (\<lambda>_. 0), f_eq = (\<lambda>_ _. True), f_le = (\<lambda>_ _. True), f_lit = (\<lambda>_. ()), f_secs = (\<lambda>_. ()),
      f_micros_to_secs = (\<lambda>_. ()), f_show = (\<lambda>_. [])\<rparr>,
    pe_append = dlog_append sample_env, pe_debug = (\<lambda>s. s)\<rparr>"

definition demo_input :: "log_input pdp_input" where
  "demo_input = \<lparr>pi_free_slots = 1, pi_t_get = 0, pi_t_put = 0, pi_elapsed = 0, pi_append = (no_faults, sample_draws, ''u'', 0)\<rparr>"

definition demo_state :: "auth_layer \<Rightarrow> world \<Rightarrow> (unit, unit, list_lru, world, unit) app_state" where
  "demo_state auth w = \<lparr>app_authorizer = \<lparr>ah_current = sample_authorizer, ah_store_root = [], ah_cache = None\<rparr>, app_audit_kind = SyncAudit,
    app_audit = w, app_auth = auth, app_metrics = metrics_new\<rparr>"

lemma demo_mapped: "evaluation_request_for_caller f ''id'' demo_evaluation (Some demo_identity) = Inr (sample_request ''alice'')"
  by (simp add: evaluation_request_for_caller_def caller_tenant_def demo_evaluation_def demo_identity_def drop_tenant_def
      evaluation_request_to_agent_def sample_request_def)

lemma demo_mapped_open: "evaluation_request_for_caller f ''id'' demo_evaluation None = Inr (sample_request ''alice'')"
  by (simp add: evaluation_request_for_caller_def demo_evaluation_def evaluation_request_to_agent_def sample_request_def)

definition demo_decision :: "authenticated_identity option \<Rightarrow> decision" where
  "demo_decision caller = with_actor (authenticated_actor_of caller)
    \<lparr>dn_effect = Deny, dn_policies = [''p0''], dn_reasons = [], dn_request = request_to_value plain_hex (sample_request ''alice''),
     dn_trace = Some (build_trace \<lparr>cr_decision = CedarDeny, cr_reason = [''p0''], cr_errors = []\<rparr> [''p0''] []), dn_from_cache = False\<rparr>"

lemma demo_record: "dlog_record sample_env (no_faults, sample_draws, ''u'', 0) (demo_decision caller) = sample_rec"
proof -
  have "le_rec sample_env = sample_record_env" by (simp add: sample_log_env_def)
  then show ?thesis
    by (cases caller)
      (simp_all add: dlog_record_def demo_decision_def with_actor_def authenticated_actor_of_def sample_rec_def from_decision_def Let_def
        sample_decision_def request_to_value_def get_str_def map_of_update sample_request_def request_new_def sample_record_env_def ok_of_def)
qed

lemma demo_work:
  "pdp_work (pe_engine demo_pdp) (pe_loader demo_pdp) demo_input (sample_request ''alice'') [] (authenticated_actor_of caller) sample_authorizer =
    (Inr (demo_decision caller), sample_authorizer)"
  by (simp add: pdp_work_def demo_input_def demo_pdp_def build_entities_def authorize_def cache_lookup_def sample_authorizer_def Let_def
      to_cedar_request_def sample_cedar_def sample_engine_def demo_decision_def)

lemma demo_run:
  obtains fs log w where "log_reach sample_env {sample_rec} sample_path ''k'' [] [] (fs, log)" "dl_rotation log = None"
    "\<forall>auth caller. run_pdp demo_pdp demo_input (sample_request ''alice'') [] caller (demo_state auth (fs, log)) = (Inr (demo_decision caller), demo_state auth w)"
proof -
  obtain fs log where r: "log_reach sample_env {sample_rec} sample_path ''k'' [] [] (fs, log)"
      "is_healthy log" "dl_rotation log = None" "tmp_free sample_draws sample_path fs"
    by (rule sample_log_reach)
  obtain ident where "log_inv sample_env {sample_rec} sample_path ''k'' [] ident [] (fs, log)"
    using reach_inv [OF sample_log_env_ok sample_draws_ok(4) r(1)] by blast
  then obtain w where w: "log_append sample_env no_faults sample_draws sample_rec (fs, log) = Some (Inr (), w)"
    using append_live [OF sample_log_env_ok _ _ sample_draws_ok(3) r(4)] r(2,3) by (fastforce simp: is_healthy_def)
  have "dlog_append sample_env (no_faults, sample_draws, ''u'', 0) (demo_decision caller) (fs, log) = (Some (Inr ()), w)" for caller
    using w demo_record [of caller] by (simp add: dlog_append_def append_decision_def dlog_record_def)
  moreover have "pe_append demo_pdp = dlog_append sample_env" "pi_append demo_input = (no_faults, sample_draws, ''u'', 0)"
    by (simp_all add: demo_pdp_def demo_input_def)
  ultimately have "run_pdp demo_pdp demo_input (sample_request ''alice'') [] caller (demo_state auth (fs, log)) = (Inr (demo_decision caller), demo_state auth w)" for auth caller
    using demo_work [of caller] by (simp add: run_pdp_def demo_state_def authorize_and_persist_decision_def persist_decision_def)
  then show ?thesis using that r(1,3) by blast
qed

theorem request_bound_to_caller_witness:
  "principal_uid (rq_principal (sample_request ''alice'')) = subject_id (ai_identity demo_identity) \<and> rq_tenant_id (sample_request ''alice'') = None"
  using request_bound_to_caller [OF demo_mapped] by (simp add: demo_identity_def normal_tenant_def)

theorem decision_audited_before_reply_witness:
  "\<exists>S S' resp rec. evaluation demo_pdp demo_input ''id'' (Some demo_identity) demo_evaluation S = (ReplyDecision resp, S') \<and> \<not> es_decision resp \<and>
    read_all sample_env no_faults sample_path (fst (app_audit S')) = Inr [rec] \<and> dr_effect rec = ''deny''"
proof -
  obtain fs log w where r: "log_reach sample_env {sample_rec} sample_path ''k'' [] [] (fs, log)"
      and "dl_rotation log = None" and run: "\<forall>auth caller. run_pdp demo_pdp demo_input (sample_request ''alice'') [] caller (demo_state auth (fs, log)) = (Inr (demo_decision caller), demo_state auth w)"
    by (rule demo_run)
  let ?S = "demo_state LayerDisabled (fs, log)"
  have i: "pi_append demo_input = (no_faults, sample_draws, ''u'', 0)" "er_entities demo_evaluation = []"
    by (simp_all add: demo_input_def demo_evaluation_def)
  let ?resp = "response_of (demo_decision (Some demo_identity))"
  obtain S' where e: "evaluation demo_pdp demo_input ''id'' (Some demo_identity) demo_evaluation ?S = (ReplyDecision ?resp, S')"
    using run i(2) by (simp add: evaluation_def demo_mapped)
  have S: "log_reach sample_env {sample_rec} sample_path ''k'' [] [] (app_audit ?S)" "app_audit_kind ?S = SyncAudit"
      "pe_append demo_pdp = dlog_append sample_env"
    using r by (simp_all add: demo_state_def demo_pdp_def)
  have t: "[] \<le> dlog_tick (pi_append demo_input)" "timestamp_ok (dlog_tick (pi_append demo_input))"
    using sample_draws_ok(1,2) by (simp_all add: i(1) dlog_tick_def)
  have "\<forall>q d. evaluation_request_for_caller (pe_debug demo_pdp) ''id'' demo_evaluation (Some demo_identity) = Inr q \<longrightarrow>
      fst (run_pdp demo_pdp demo_input q (er_entities demo_evaluation) (Some demo_identity) ?S) = Inr d \<longrightarrow>
      dlog_record sample_env (pi_append demo_input) d \<in> {sample_rec}"
    using run i demo_record by (auto simp: demo_mapped)
  from decision_audited_before_reply [OF sample_log_env_ok sample_draws_ok(4,3) S t this e]
  have "\<exists>rec. read_all sample_env no_faults sample_path (fst (app_audit S')) = Inr [rec] \<and> dr_effect rec = (if es_decision ?resp then ''allow'' else ''deny'')"
    by auto
  moreover have "\<not> es_decision ?resp"
    by (simp add: response_of_def demo_decision_def with_actor_def authenticated_actor_of_def split: option.splits json.splits)
  ultimately show ?thesis using e by auto
qed

section \<open>Batches\<close>

text \<open>The answers a batch may give to \<open>n\<close> items under its semantics.\<close>

fun batch_shape :: "evaluation_semantics \<Rightarrow> nat \<Rightarrow> evaluation_response list \<Rightarrow> bool" where
  "batch_shape ExecuteAll n rs \<longleftrightarrow> length rs = n"
| "batch_shape DenyOnFirstDeny n rs \<longleftrightarrow> length rs \<le> n \<and> list_all es_decision (butlast rs) \<and>
    (length rs < n \<longrightarrow> rs \<noteq> [] \<and> \<not> es_decision (last rs))"
| "batch_shape PermitOnFirstPermit n rs \<longleftrightarrow> length rs \<le> n \<and> list_all (\<lambda>r. \<not> es_decision r) (butlast rs) \<and>
    (length rs < n \<longrightarrow> rs \<noteq> [] \<and> es_decision (last rs))"

lemma evaluate_items_shape:
  assumes "evaluate_items X sem caller items resps S = (ReplyBatch out, S')"
    and "sem = DenyOnFirstDeny \<longrightarrow> list_all es_decision resps" "sem = PermitOnFirstPermit \<longrightarrow> list_all (\<lambda>r. \<not> es_decision r) resps"
  shows "batch_shape sem (length resps + length items) out"
  using assms
proof (induction X sem caller items resps S rule: evaluate_items.induct)
  case (1 X sem caller resps S)
  then show ?case by (cases sem) (auto simp: list_all_iff dest: in_set_butlastD)
next
  case (2 X sem caller i uuid er rest resps S)
  obtain q d S1 where q: "evaluation_request_for_caller (pe_debug X) uuid er caller = Inr q"
      and d: "run_pdp X i q (er_entities er) caller S = (Inr d, S1)"
    using "2.prems"(1) by (auto simp: mapping_reply_def split: sum.splits mapping_error.splits prod.splits)
  have r: "es_decision (response_of d) = (dn_effect d = Allow)" by (simp add: response_of_def)
  show ?case
  proof (cases "sem = DenyOnFirstDeny \<and> dn_effect d \<noteq> Allow \<or> sem = PermitOnFirstPermit \<and> dn_effect d = Allow")
    case True
    then have "out = resps @ [response_of d]" using "2.prems"(1) q d by auto
    then show ?thesis using True r "2.prems"(2,3) by auto
  next
    case False
    then have "evaluate_items X sem caller rest (resps @ [response_of d]) S1 = (ReplyBatch out, S')"
      using "2.prems"(1) q d by auto
    with "2.IH" [OF q d [symmetric] refl refl False] False r "2.prems"(2,3) show ?thesis by (cases sem) auto
  qed
qed

text \<open>
  C30: a batch answers as its semantics says.  At most 100 items are accepted; every item is answered
  unless the batch stops at the first denial, where all answers before it are permits, or dually at
  the first permit.
\<close>

theorem batch_follows_semantics:
  assumes "evaluations X inputs caller req S = (ReplyBatch out, S')"
  shows "length (br_evaluations req) \<le> MAX_BATCH_EVALUATIONS \<and>
    batch_shape (case br_semantics req of Some s \<Rightarrow> s | None \<Rightarrow> ExecuteAll) (length (br_evaluations req)) out"
proof -
  let ?items = "map (\<lambda>(k, er). (fst (inputs k), snd (inputs k), er)) (enumerate 0 (br_evaluations req))"
  have "length (br_evaluations req) \<le> MAX_BATCH_EVALUATIONS"
      "evaluate_items X (case br_semantics req of Some s \<Rightarrow> s | None \<Rightarrow> ExecuteAll) caller ?items [] S = (ReplyBatch out, S')"
    using assms by (auto simp: evaluations_def Let_def split: if_splits)
  then show ?thesis using evaluate_items_shape [of X _ caller ?items "[]" S out S'] by simp
qed

theorem batch_follows_semantics_witness:
  "\<exists>S S' out. evaluations demo_pdp (\<lambda>_. (demo_input, ''id'')) (Some demo_identity)
      \<lparr>br_evaluations = [demo_evaluation, demo_evaluation], br_semantics = Some DenyOnFirstDeny, br_subject = None, br_resource = None\<rparr> S =
      (ReplyBatch out, S') \<and> length out < 2 \<and> \<not> es_decision (last out)"
proof -
  obtain fs log w where "log_reach sample_env {sample_rec} sample_path ''k'' [] [] (fs, log)" and "dl_rotation log = None"
      and r: "\<forall>auth caller. run_pdp demo_pdp demo_input (sample_request ''alice'') [] caller (demo_state auth (fs, log)) =
      (Inr (demo_decision caller), demo_state auth w)"
    by (rule demo_run)
  let ?S = "demo_state LayerDisabled (fs, log)" and ?resp = "response_of (demo_decision (Some demo_identity))"
  have "er_entities demo_evaluation = []" "dn_effect (demo_decision (Some demo_identity)) \<noteq> Allow"
    by (simp_all add: demo_evaluation_def demo_decision_def with_actor_def authenticated_actor_of_def split: option.splits json.splits)
  then have e: "evaluations demo_pdp (\<lambda>_. (demo_input, ''id'')) (Some demo_identity)
      \<lparr>br_evaluations = [demo_evaluation, demo_evaluation], br_semantics = Some DenyOnFirstDeny, br_subject = None, br_resource = None\<rparr> ?S =
      (ReplyBatch [?resp], demo_state LayerDisabled w)"
    using r by (simp add: evaluations_def MAX_BATCH_EVALUATIONS_def demo_mapped)
  from batch_follows_semantics [OF e] e show ?thesis by force
qed

section \<open>Reloading\<close>

text \<open>A reload that fails keeps the serving snapshot and its cache; one that succeeds serves what was loaded, with an empty cache.\<close>

lemma failed_reload_keeps_snapshot:
  "handle_load E L D now (ah_store_root (app_authorizer S)) (ah_cache (app_authorizer S)) = Inl e \<Longrightarrow> app_reload E L D now S = S"
  by (simp add: app_reload_def handle_reload_def)

lemma reload_serves_loaded:
  assumes "handle_load E L D now (ah_store_root (app_authorizer S)) (ah_cache (app_authorizer S)) = Inr A"
  shows "ah_current (app_authorizer (app_reload E L D now S)) = A \<and>
    (\<exists>P srcs. load_policies L D = Inr (P, srcs) \<and> az_policies A = P)"
proof -
  have "ah_current (app_authorizer (app_reload E L D now S)) = A" using assms by (simp add: app_reload_def handle_reload_def)
  moreover have "\<exists>P srcs. load_policies L D = Inr (P, srcs) \<and> az_policies A = P"
    using assms
    by (auto simp: handle_load_def result_simps authorizer_new_def try_with_cache_def split: option.splits)
  ultimately show ?thesis by blast
qed

section \<open>Findings\<close>

text \<open>Decisions of a batch are not counted: the batch endpoint leaves the decision and cache counters as they are.\<close>

lemma failure_metrics:
  "report_pdp_work_failure e m = (r, m') \<Longrightarrow> m_decision_total m' = m_decision_total m \<and> m_cache_hit_total m' = m_cache_hit_total m"
  by (auto simp: report_pdp_work_failure_def record_pdp_error_def split: pdp_work_error.splits option.splits)

lemma run_pdp_metrics: "run_pdp X i q items caller S = (r, S') \<Longrightarrow> app_metrics S' = app_metrics S"
  by (auto simp: run_pdp_def Let_def split: prod.splits)

theorem batch_decisions_not_counted:
  "m_decision_total (app_metrics (snd (evaluate_items X sem caller items resps S))) = m_decision_total (app_metrics S) \<and>
   m_cache_hit_total (app_metrics (snd (evaluate_items X sem caller items resps S))) = m_cache_hit_total (app_metrics S)"
proof (induction X sem caller items resps S rule: evaluate_items.induct)
  case (2 X sem caller i uuid er rest resps S)
  show ?case
  proof (cases "evaluation_request_for_caller (pe_debug X) uuid er caller")
    case (Inr q)
    obtain r S1 where r: "run_pdp X i q (er_entities er) caller S = (r, S1)" by fastforce
    note m = run_pdp_metrics [OF r]
    show ?thesis
    proof (cases r)
      case (Inl e)
      obtain st msg m' where "report_pdp_work_failure e (app_metrics S1) = ((st, msg), m')" by (metis surj_pair)
      then show ?thesis using failure_metrics Inr Inl r m by simp
    next
      case (Inr d)
      then show ?thesis
        using "2.IH" [OF \<open>evaluation_request_for_caller (pe_debug X) uuid er caller = Inr q\<close> r [symmetric]]
          \<open>evaluation_request_for_caller (pe_debug X) uuid er caller = Inr q\<close> r m by (simp add: Let_def)
    qed
  qed simp
qed simp

text \<open>The subject and the resource given for a whole batch are accepted and have no effect.\<close>

theorem batch_defaults_ignored:
  "evaluations X inputs caller (req\<lparr>br_subject := s, br_resource := r\<rparr>) S = evaluations X inputs caller req S"
  by (simp add: evaluations_def Let_def cong: if_cong)

end
