(* ===== verification/Grpc.thy ===== *)
theory Grpc
  imports Authzen
begin

text \<open>
  The gRPC transport (\<open>agentguard-server/src/grpc.rs\<close>): authentication, the size budget, decoding of
  the message, and the same decision path as the HTTP endpoint.  What the handler receives is the
  decoded protobuf message; the JSON parser is a parameter.
\<close>

section \<open>The service\<close>

record pb_request =
  pb_subject :: "entity_ref option"
  pb_action :: "entity_ref option"
  pb_resource :: "entity_ref option"
  pb_context_json :: string
  pb_entities_json :: string

record pb_response =
  pb_decision :: bool
  pb_reason :: string
  pb_context :: string

datatype grpc_status =
    GrpcUnauthenticated string
  | GrpcPermissionDenied string
  | GrpcUnavailable string
  | GrpcInvalidArgument string
  | GrpcResourceExhausted string
  | GrpcInternal string

definition MAX_GRPC_REQUEST_BYTES :: nat where
  "MAX_GRPC_REQUEST_BYTES = 64 * 1024"

text \<open>The parser of the JSON package, for a value and for a list of values.\<close>

record json_reader =
  jr_value :: "string \<Rightarrow> string + json"
  jr_values :: "string \<Rightarrow> string + json list"

definition grpc_auth_status :: "authentication_failure \<Rightarrow> grpc_status" where
  "grpc_auth_status f =
    (case f of
       Unauthenticated \<Rightarrow> GrpcUnauthenticated ''unauthorized''
     | Forbidden \<Rightarrow> GrpcPermissionDenied ''forbidden''
     | Unavailable \<Rightarrow> GrpcUnavailable ''authentication capacity exhausted'')"

text \<open>\<open>usize::saturating_add\<close> on a 64-bit target.\<close>

definition usize_sat_add :: "nat \<Rightarrow> nat \<Rightarrow> nat" where
  "usize_sat_add a b = min (a + b) u64_max"

definition entity_bytes :: "entity_ref option \<Rightarrow> nat" where
  "entity_bytes e = (case e of None \<Rightarrow> 0 | Some e \<Rightarrow> usize_sat_add (length (ent_type e)) (length (ent_id e)))"

definition request_bytes :: "pb_request \<Rightarrow> nat" where
  "request_bytes r =
    usize_sat_add (usize_sat_add (usize_sat_add (usize_sat_add (entity_bytes (pb_subject r)) (entity_bytes (pb_action r)))
      (entity_bytes (pb_resource r))) (length (pb_context_json r))) (length (pb_entities_json r))"

text \<open>The message as a request of the HTTP interface.\<close>

definition http_style :: "json_reader \<Rightarrow> pb_request \<Rightarrow> grpc_status + evaluation_request" where
  "http_style J r =
    and_then (ok_or (GrpcInvalidArgument ''missing subject'') (pb_subject r)) (\<lambda>subject.
    and_then (ok_or (GrpcInvalidArgument ''missing action'') (pb_action r)) (\<lambda>action.
    and_then (ok_or (GrpcInvalidArgument ''missing resource'') (pb_resource r)) (\<lambda>res.
    and_then (if pb_context_json r = [] then Inr (Object [])
      else map_err (\<lambda>e. GrpcInvalidArgument (''context_json: '' @ e)) (jr_value J (pb_context_json r))) (\<lambda>ctx.
    and_then (if pb_entities_json r = [] then Inr []
      else map_err (\<lambda>e. GrpcInvalidArgument (''entities_json: '' @ e)) (jr_values J (pb_entities_json r))) (\<lambda>ents.
    Inr \<lparr>er_subject = subject, er_action = action, er_resource = res, er_context = ctx, er_entities = ents\<rparr>)))))"

definition grpc_mapping_status :: "mapping_error \<Rightarrow> grpc_status" where
  "grpc_mapping_status e =
    (case e of
       IdentityMismatch \<Rightarrow> GrpcPermissionDenied ''subject or tenant does not match API key''
     | InvalidRequest msg \<Rightarrow> GrpcInvalidArgument msg)"

definition grpc_work_status :: "nat \<times> string \<Rightarrow> grpc_status" where
  "grpc_work_status = (\<lambda>(status, msg).
    if status = 503 then GrpcUnavailable msg else if status = 400 then GrpcInvalidArgument msg else GrpcInternal msg)"

definition pb_response_of :: "decision \<Rightarrow> pb_response" where
  "pb_response_of d =
    \<lparr>pb_decision = (dn_effect d = Allow), pb_reason = (case dn_reasons d of r # _ \<Rightarrow> r | [] \<Rightarrow> []), pb_context = []\<rparr>"

definition grpc_evaluation ::
  "key_env \<Rightarrow> json_reader \<Rightarrow> ('s, 'c, 'p, 'e, 'l, 'f, 'i, 'w) pdp_env \<Rightarrow> int \<Rightarrow> nat \<Rightarrow> bool \<Rightarrow> 'i pdp_input \<Rightarrow> string \<Rightarrow> string option \<Rightarrow> pb_request
    \<Rightarrow> ('s, 'p, 'l, 'w, 'f) app_state \<Rightarrow> (grpc_status + pb_response) \<times> ('s, 'p, 'l, 'w, 'f) app_state" where
  "grpc_evaluation K J X now free_slots joined i uuid authorization r S =
    (case authenticate_bearer_async K now (app_auth S) authorization ''authorize'' True free_slots joined of
       Inl f \<Rightarrow> (Inl (grpc_auth_status f), S)
     | Inr caller \<Rightarrow>
       if request_bytes r > MAX_GRPC_REQUEST_BYTES then (Inl (GrpcResourceExhausted ''evaluation request exceeds 64 KiB''), S)
       else
         (case http_style J r of
            Inl e \<Rightarrow> (Inl e, S)
          | Inr req \<Rightarrow>
            (case evaluation_request_for_caller (pe_debug X) uuid req caller of
               Inl e \<Rightarrow> (Inl (grpc_mapping_status e), S)
             | Inr q \<Rightarrow>
               (case run_pdp X i q (er_entities req) caller S of
                  (Inl e, S) \<Rightarrow>
                    (let (reply, m) = report_pdp_work_failure e (app_metrics S) in (Inl (grpc_work_status reply), S\<lparr>app_metrics := m\<rparr>))
                | (Inr d, S) \<Rightarrow>
                    (Inr (pb_response_of d),
                     S\<lparr>app_metrics := count_decision (pe_floats X) (show_action (rq_action q)) (pi_elapsed i) d (app_metrics S)\<rparr>)))))"

section \<open>Both transports agree\<close>

text \<open>The same answer on the two transports: a decision with the same reason, or the same kind of refusal.\<close>

fun same_answer :: "http_reply \<Rightarrow> grpc_status + pb_response \<Rightarrow> bool" where
  "same_answer (ReplyDecision d) (Inr r) \<longleftrightarrow> pb_decision r = es_decision d \<and> pb_reason r = (case es_reason d of Some s \<Rightarrow> s | None \<Rightarrow> [])"
| "same_answer (ReplyText st _) (Inl (GrpcUnauthenticated _)) \<longleftrightarrow> st = 401"
| "same_answer (ReplyText st _) (Inl (GrpcPermissionDenied _)) \<longleftrightarrow> st = 403"
| "same_answer (ReplyText st _) (Inl (GrpcUnavailable _)) \<longleftrightarrow> st = 503"
| "same_answer (ReplyText st m) (Inl (GrpcInvalidArgument m')) \<longleftrightarrow> st = 400 \<and> m = m'"
| "same_answer (ReplyText st m) (Inl (GrpcInternal m')) \<longleftrightarrow> st = 500 \<and> m = m'"
| "same_answer _ _ \<longleftrightarrow> False"

text \<open>The middleware in front of the HTTP route asks for what the gRPC handler asks for.\<close>

lemma http_gate:
  "auth_layer_fn K now layer \<lparr>hr_method = ''POST'', hr_path = ''/access/v1/evaluation'', hr_authorization = a\<rparr> slots joined =
    (case authenticate_bearer_async K now layer a ''authorize'' True slots joined of
       Inr c \<Rightarrow> Next c
     | Inl Unauthenticated \<Rightarrow> Reply 401 (''unauthorized'' @ [CHR 0x0A])
     | Inl Forbidden \<Rightarrow> Reply 403 (''forbidden'' @ [CHR 0x0A])
     | Inl Unavailable \<Rightarrow> Reply 503 (''authentication capacity exhausted'' @ [CHR 0x0A]))"
  by (cases "layer = LayerDisabled") (simp_all add: auth_layer_fn_def route_requirements_def authenticate_bearer_async_def)

lemma work_failure_same:
  "report_pdp_work_failure e m = ((st, msg), m') \<Longrightarrow> same_answer (ReplyText st msg) (Inl (grpc_work_status (st, msg)))"
  by (cases e) (auto simp: report_pdp_work_failure_def grpc_work_status_def)

lemma decision_same: "same_answer (ReplyDecision (response_of d)) (Inr (pb_response_of d))"
  by (simp add: response_of_def pb_response_of_def split: list.split)

lemma mapping_same: "same_answer (mapping_reply e) (Inl (grpc_mapping_status e))"
  by (cases e) (simp_all add: mapping_reply_def grpc_mapping_status_def)

text \<open>
  C16: the two transports agree.  For a message within the size budget that decodes to a request, the
  gRPC handler gives the answer of the HTTP endpoint, and changes the state of the server (the
  snapshot's cache, the audit log and the metrics) in the same way, whoever calls and whatever
  fails.
\<close>

theorem grpc_mirrors_http:
  assumes "request_bytes r \<le> MAX_GRPC_REQUEST_BYTES" "http_style J r = Inr req"
  shows "\<exists>reply answer S'. serve_evaluation K X now slots joined i uuid authorization req S = (reply, S') \<and>
    grpc_evaluation K J X now slots joined i uuid authorization r S = (answer, S') \<and> same_answer reply answer"
proof (cases "authenticate_bearer_async K now (app_auth S) authorization ''authorize'' True slots joined")
  case (Inl f)
  then show ?thesis by (cases f) (simp_all add: serve_evaluation_def http_gate grpc_evaluation_def grpc_auth_status_def)
next
  case (Inr caller)
  then have s: "serve_evaluation K X now slots joined i uuid authorization req S = evaluation X i uuid caller req S"
    by (simp add: serve_evaluation_def http_gate)
  show ?thesis
  proof (cases "evaluation_request_for_caller (pe_debug X) uuid req caller")
    case e: (Inl e)
    show ?thesis using assms Inr e mapping_same [of e] by (simp add: s grpc_evaluation_def evaluation_def)
  next
    case q: (Inr q)
    obtain res S1 where r: "run_pdp X i q (er_entities req) caller S = (res, S1)" by fastforce
    show ?thesis
    proof (cases res)
      case e: (Inl e)
      obtain st msg m where m: "report_pdp_work_failure e (app_metrics S1) = ((st, msg), m)" by (metis surj_pair)
      show ?thesis using assms Inr q r e m work_failure_same [OF m] by (simp add: s grpc_evaluation_def evaluation_def)
    next
      case d: (Inr d)
      show ?thesis using assms Inr q r d decision_same [of d] by (simp add: s grpc_evaluation_def evaluation_def)
    qed
  qed
qed

text \<open>A message that is too large or does not decode changes nothing.\<close>

lemma grpc_refusal_keeps_state:
  assumes "request_bytes r > MAX_GRPC_REQUEST_BYTES \<or> \<not> is_ok (http_style J r)"
  shows "\<exists>st. grpc_evaluation K J X now slots joined i uuid authorization r S = (Inl st, S)"
  using assms by (auto simp: grpc_evaluation_def is_ok_iff split: sum.splits)

definition demo_message :: pb_request where
  "demo_message = \<lparr>pb_subject = Some \<lparr>ent_type = ''User'', ent_id = ''alice''\<rparr>, pb_action = Some \<lparr>ent_type = ''Action'', ent_id = ''ToolCall::send''\<rparr>,
    pb_resource = Some \<lparr>ent_type = ''Mailbox'', ent_id = ''m''\<rparr>, pb_context_json = ''null'', pb_entities_json = []\<rparr>"

definition demo_reader :: json_reader where
  "demo_reader = \<lparr>jr_value = (\<lambda>s. if s = ''null'' then Inr Null else Inl []), jr_values = (\<lambda>_. Inl [])\<rparr>"

theorem grpc_mirrors_http_witness:
  "\<exists>S S' resp answer. serve_evaluation demo_key_env demo_pdp 7 0 True demo_input ''id'' None demo_evaluation S = (ReplyDecision resp, S') \<and>
    grpc_evaluation demo_key_env demo_reader demo_pdp 7 0 True demo_input ''id'' None demo_message S = (Inr answer, S') \<and>
    pb_decision answer = es_decision resp"
proof -
  obtain fs log w where "log_reach sample_env {sample_rec} sample_path ''k'' [] [] (fs, log)"
      and "dl_rotation log = None" and run: "\<forall>auth caller. run_pdp demo_pdp demo_input (sample_request ''alice'') [] caller (demo_state auth (fs, log)) = (Inr (demo_decision caller), demo_state auth w)"
    by (rule demo_run)
  let ?S = "demo_state LayerDisabled (fs, log)"
  have "app_auth ?S = LayerDisabled" "er_entities demo_evaluation = []" by (simp_all add: demo_state_def demo_evaluation_def)
  then obtain S' where e: "serve_evaluation demo_key_env demo_pdp 7 0 True demo_input ''id'' None demo_evaluation ?S = (ReplyDecision (response_of (demo_decision None)), S')"
    using run by (simp add: serve_evaluation_def auth_layer_fn_def evaluation_def demo_mapped_open)
  have m: "request_bytes demo_message \<le> MAX_GRPC_REQUEST_BYTES" "http_style demo_reader demo_message = Inr demo_evaluation"
    by (simp_all add: demo_message_def demo_reader_def request_bytes_def entity_bytes_def usize_sat_add_def u64_max_def MAX_GRPC_REQUEST_BYTES_def
        http_style_def demo_evaluation_def)
  obtain answer where "grpc_evaluation demo_key_env demo_reader demo_pdp 7 0 True demo_input ''id'' None demo_message ?S = (answer, S')"
      "same_answer (ReplyDecision (response_of (demo_decision None))) answer"
    using grpc_mirrors_http [OF m, of demo_key_env demo_pdp 7 0 True demo_input "''id''" None ?S] e by auto
  with e show ?thesis by (cases answer) auto
qed

end
