(* ===== verification/Watchers.thy ===== *)
theory Watchers
  imports Authzen
begin

text \<open>
  The background tasks of the server: the debounced watcher of the policy directory
  (\<open>agentguard-policy/src/watcher.rs\<close>) and its reload task, the poller of the API-key file, and the
  signals (\<open>agentguard-server/src/server.rs\<close>).

  The notifications of the file-system package are inputs.  Each access of the key poller sees the
  directory as it is then, with its own failures, so that a file may change between two of them.
  Log lines are left out.
\<close>

section \<open>The policy watcher\<close>

datatype watch_event_kind = WatchCreate | WatchWrite | WatchRemove | WatchOther

record watch_event =
  we_paths :: "string list"
  we_kind :: watch_event_kind

text \<open>The kinds of the notification package, as far as they are told apart.\<close>

datatype notify_kind = NotifyCreate | NotifyModify | NotifyRemove | NotifyAny

fun watch_kind_of :: "notify_kind \<Rightarrow> watch_event_kind" where
  "watch_kind_of NotifyCreate = WatchCreate"
| "watch_kind_of NotifyModify = WatchWrite"
| "watch_kind_of NotifyRemove = WatchRemove"
| "watch_kind_of NotifyAny = WatchOther"

definition MAX_PENDING_WATCH_PATHS :: nat where
  "MAX_PENDING_WATCH_PATHS = 128"

definition MAX_PENDING_WATCH_ERRORS :: nat where
  "MAX_PENDING_WATCH_ERRORS = 16"

definition MAX_WATCH_ERROR_BYTES :: nat where
  "MAX_WATCH_ERROR_BYTES = 512"

record pending_signals =
  pnd_changed :: bool
  pnd_paths :: "string list"
  pnd_kind :: watch_event_kind
  pnd_errors :: "string list"
  pnd_last_error :: "string option"

definition pending_default :: pending_signals where
  "pending_default = \<lparr>pnd_changed = False, pnd_paths = [], pnd_kind = WatchOther, pnd_errors = [], pnd_last_error = None\<rparr>"

record policy_watcher =
  pw_pending :: pending_signals
  pw_debounce :: duration
  pw_last_emit :: "instant option"

text \<open>\<open>str::is_char_boundary\<close>, and the loop that searches downwards for one.\<close>

definition is_char_boundary :: "string \<Rightarrow> nat \<Rightarrow> bool" where
  "is_char_boundary s n \<longleftrightarrow> n = 0 \<or> n = length s \<or> n < length s \<and> \<not> utf8_cont (s ! n)"

fun floor_boundary :: "string \<Rightarrow> nat \<Rightarrow> nat" where
  "floor_boundary s 0 = 0"
| "floor_boundary s (Suc n) = (if is_char_boundary s (Suc n) then Suc n else floor_boundary s n)"

definition truncate_error :: "string \<Rightarrow> string" where
  "truncate_error e = (if length e > MAX_WATCH_ERROR_BYTES then take (floor_boundary e MAX_WATCH_ERROR_BYTES) e else e)"

definition queue_new_error :: "string \<Rightarrow> string list \<Rightarrow> string option \<Rightarrow> string list \<times> string option" where
  "queue_new_error e errors last_error =
    (let e = truncate_error e in
     if last_error \<noteq> Some e then (if length errors < MAX_PENDING_WATCH_ERRORS then errors @ [e] else errors, Some e)
     else (errors, last_error))"

definition promote_kind :: "watch_event_kind \<Rightarrow> watch_event_kind \<Rightarrow> watch_event_kind" where
  "promote_kind a b =
    (if a = WatchCreate \<or> b = WatchCreate then WatchCreate
     else if a = WatchWrite \<or> b = WatchWrite then WatchWrite
     else if a = WatchRemove \<or> b = WatchRemove then WatchRemove
     else WatchOther)"

fun push_paths :: "string list \<Rightarrow> string list \<Rightarrow> string list" where
  "push_paths ps [] = ps"
| "push_paths ps (x # xs) = (if length ps = MAX_PENDING_WATCH_PATHS then ps else push_paths (ps @ [x]) xs)"

definition record_event :: "string list \<Rightarrow> watch_event_kind \<Rightarrow> pending_signals \<Rightarrow> pending_signals" where
  "record_event paths kind p =
    p\<lparr>pnd_changed := True, pnd_last_error := None, pnd_kind := promote_kind (pnd_kind p) kind,
      pnd_paths := push_paths (pnd_paths p) paths\<rparr>"

definition record_error :: "string \<Rightarrow> pending_signals \<Rightarrow> pending_signals" where
  "record_error e p =
    (let (errors, last_error) = queue_new_error e (pnd_errors p) (pnd_last_error p)
     in p\<lparr>pnd_errors := errors, pnd_last_error := last_error\<rparr>)"

text \<open>The paths whose change matters: the schema, and policy files anywhere below the policy directory.\<close>

definition watched_path :: "string \<Rightarrow> string \<Rightarrow> bool" where
  "watched_path root path \<longleftrightarrow> path = schema_path root \<or>
    (let d = split_on CHR ''/'' (policies_dir root); p = split_on CHR ''/'' path
     in take (length d) (butlast p) = d \<and> extension (last p) = Some ''cedar'')"

definition on_notify :: "string \<Rightarrow> string + notify_kind \<times> string list \<Rightarrow> pending_signals \<Rightarrow> pending_signals" where
  "on_notify root res p =
    (case res of
       Inr (kind, paths) \<Rightarrow>
         (let bounded = push_paths [] (filter (watched_path root) paths)
          in if bounded \<noteq> [] then record_event bounded (watch_kind_of kind) p else p)
     | Inl e \<Rightarrow> record_error e p)"

definition watcher_ready :: "policy_watcher \<Rightarrow> instant \<Rightarrow> bool" where
  "watcher_ready w now \<longleftrightarrow> (case pw_last_emit w of None \<Rightarrow> True | Some t \<Rightarrow> now - t \<ge> pw_debounce w)"

definition watcher_events :: "instant \<Rightarrow> policy_watcher \<Rightarrow> watch_event list \<times> policy_watcher" where
  "watcher_events now w =
    (let p = pw_pending w in
     if \<not> watcher_ready w now \<or> \<not> pnd_changed p then ([], w)
     else
       ([\<lparr>we_paths = pnd_paths p, we_kind = pnd_kind p\<rparr>],
        w\<lparr>pw_last_emit := Some now, pw_pending := p\<lparr>pnd_changed := False, pnd_paths := [], pnd_kind := WatchOther\<rparr>\<rparr>))"

definition take_errors :: "policy_watcher \<Rightarrow> string list \<times> policy_watcher" where
  "take_errors w = (pnd_errors (pw_pending w), w\<lparr>pw_pending := (pw_pending w)\<lparr>pnd_errors := []\<rparr>\<rparr>)"

definition watch_start :: "duration \<Rightarrow> policy_watcher" where
  "watch_start debounce = \<lparr>pw_pending = pending_default, pw_debounce = debounce, pw_last_emit = None\<rparr>"

section \<open>The reload task\<close>

text \<open>A tick of the task: the watcher is drained, and any event reloads the whole store.\<close>

definition policy_tick ::
  "('s, 'c, 'p, 'e, 'l) engine_env \<Rightarrow> ('s, 'p, 'e) cedar_loader \<Rightarrow> store_disk \<Rightarrow> instant \<Rightarrow> instant
    \<Rightarrow> policy_watcher \<times> ('s, 'p, 'l, 'w, 'f) app_state \<Rightarrow> policy_watcher \<times> ('s, 'p, 'l, 'w, 'f) app_state" where
  "policy_tick E L D now cache_now = (\<lambda>(w, S).
    let (events, w) = watcher_events now w; (errors, w) = take_errors w
    in (w, if events = [] then S else app_reload E L D cache_now S))"

text \<open>What happens to the watcher and the server: notifications, on the thread of the watcher, and ticks.\<close>

datatype watch_step = Notified "string + notify_kind \<times> string list" | Ticked store_disk instant instant

fun run_watch ::
  "('s, 'c, 'p, 'e, 'l) engine_env \<Rightarrow> ('s, 'p, 'e) cedar_loader \<Rightarrow> string \<Rightarrow> watch_step
    \<Rightarrow> policy_watcher \<times> ('s, 'p, 'l, 'w, 'f) app_state \<Rightarrow> policy_watcher \<times> ('s, 'p, 'l, 'w, 'f) app_state" where
  "run_watch E L root (Notified res) (w, S) = (w\<lparr>pw_pending := on_notify root res (pw_pending w)\<rparr>, S)"
| "run_watch E L root (Ticked D now cache_now) ws = policy_tick E L D now cache_now ws"

section \<open>Signals\<close>

text \<open>\<open>CtrlCFailed\<close> is the handler of the interrupt that could not be installed.\<close>

datatype os_signal = Sigint | CtrlCFailed | Sigterm | Sighup store_disk instant

text \<open>
  The loop that waits for the end: a hang-up reloads the policies, an interrupt or a termination ends it.
  Once the wait for an interrupt has failed the loop is parked, and no later signal is looked at.
\<close>

fun shutdown_signal ::
  "('s, 'c, 'p, 'e, 'l) engine_env \<Rightarrow> ('s, 'p, 'e) cedar_loader \<Rightarrow> os_signal list \<Rightarrow> ('s, 'p, 'l, 'w, 'f) app_state
    \<Rightarrow> ('s, 'p, 'l, 'w, 'f) app_state option" where
  "shutdown_signal E L [] S = None"
| "shutdown_signal E L (Sigint # sigs) S = Some S"
| "shutdown_signal E L (CtrlCFailed # sigs) S = None"
| "shutdown_signal E L (Sigterm # sigs) S = Some S"
| "shutdown_signal E L (Sighup D now # sigs) S =
    shutdown_signal E L sigs
      (case handle_reload E L D now (app_authorizer S) of
         (Inr _, h) \<Rightarrow> S\<lparr>app_authorizer := h, app_metrics := record_policy_reload (app_metrics S)\<rparr>
       | (Inl _, h) \<Rightarrow> S\<lparr>app_authorizer := h\<rparr>)"

section \<open>The key poller\<close>

datatype read_outcome = ReadOk string | ReadNotFound | ReadFailed

definition read_key_file :: "io_faults \<Rightarrow> dir \<Rightarrow> string \<Rightarrow> read_outcome" where
  "read_key_file io fs name =
    (if \<not> is_ok (attempt io (AtRead name)) then ReadFailed
     else case map_of fs name of
       None \<Rightarrow> ReadNotFound
     | Some Special \<Rightarrow> ReadFailed
     | Some (Regular c) \<Rightarrow> ReadOk c)"

text \<open>What one tick sees: the failures and the directory of its own read, and those of the reload.\<close>

record key_tick =
  kt_io :: io_faults
  kt_dir :: dir
  kt_reload_io :: io_faults
  kt_reload_dir :: dir

type_synonym key_watcher = "string option \<times> key_store"

definition reload_keys :: "key_env \<Rightarrow> string \<Rightarrow> key_tick \<Rightarrow> key_store \<Rightarrow> key_store" where
  "reload_keys E name t S = snd (reload_from_file E (kt_reload_io t) name (kt_reload_dir t) S)"

definition key_watcher_start :: "key_env \<Rightarrow> string \<Rightarrow> key_tick \<Rightarrow> key_store \<Rightarrow> key_watcher" where
  "key_watcher_start E name t S =
    (case read_key_file (kt_io t) (kt_dir t) name of ReadOk c \<Rightarrow> Some c | _ \<Rightarrow> None, reload_keys E name t S)"

definition key_watcher_tick :: "key_env \<Rightarrow> string \<Rightarrow> key_tick \<Rightarrow> key_watcher \<Rightarrow> key_watcher" where
  "key_watcher_tick E name t = (\<lambda>(attempted, S).
    case read_key_file (kt_io t) (kt_dir t) name of
      ReadOk snapshot \<Rightarrow>
        if attempted \<noteq> Some snapshot then (Some snapshot, reload_keys E name t S) else (attempted, S)
    | ReadNotFound \<Rightarrow> (None, if attempted \<noteq> None then reload_keys E name t S else S)
    | ReadFailed \<Rightarrow> (attempted, S))"

section \<open>The watcher is bounded\<close>

lemma push_paths_length: "length ps \<le> MAX_PENDING_WATCH_PATHS \<Longrightarrow> length (push_paths ps xs) \<le> MAX_PENDING_WATCH_PATHS"
  by (induction ps xs rule: push_paths.induct) auto

lemma push_paths_Nil: "push_paths ps xs = [] \<longleftrightarrow> ps = [] \<and> xs = []"
proof -
  have "ps \<noteq> [] \<Longrightarrow> push_paths ps xs \<noteq> []" for ps xs by (induction ps xs rule: push_paths.induct) auto
  then show ?thesis by (cases xs) (auto simp: MAX_PENDING_WATCH_PATHS_def)
qed

lemma floor_boundary_le: "floor_boundary s n \<le> n"
  by (induction s n rule: floor_boundary.induct) auto

lemma floor_boundary_ok: "is_char_boundary s (floor_boundary s n)"
  by (induction s n rule: floor_boundary.induct) (auto simp: is_char_boundary_def)

lemma utf8_lead_not_cont: "utf8_lead c = Some x \<Longrightarrow> \<not> utf8_cont c"
  by (auto simp: utf8_lead_def utf8_cont_def Let_def split: if_splits)

text \<open>A valid text cut at a character boundary is valid.\<close>

lemma utf8_take_boundary: "utf8_valid s \<Longrightarrow> n \<le> length s \<Longrightarrow> is_char_boundary s n \<Longrightarrow> utf8_valid (take n s)"
proof (induction s arbitrary: n rule: utf8_valid.induct)
  case (2 c cs)
  show ?case
  proof (cases n)
    case (Suc m)
    obtain k lo hi where l: "utf8_lead c = Some (k, lo, hi)" using "2.prems"(1) by (auto split: option.splits)
    then have v: "k \<le> length cs" "k > 0 \<longrightarrow> lo \<le> (of_char (hd cs) :: nat) \<and> (of_char (hd cs) :: nat) \<le> hi"
        "list_all utf8_cont (take k cs)" "utf8_valid (drop k cs)"
      using "2.prems"(1) by auto
    have "k \<le> m"
    proof (rule ccontr)
      assume "\<not> k \<le> m"
      then have "m < k" "m < length cs" using v(1) by auto
      then have "utf8_cont (cs ! m)" using v(3) by (metis in_set_conv_nth length_take list_all_iff min.absorb2 nth_take v(1))
      then show False using "2.prems"(3) \<open>m < length cs\<close> by (auto simp: Suc is_char_boundary_def)
    qed
    moreover have "is_char_boundary (drop k cs) (m - k)"
      using "2.prems"(2,3) \<open>k \<le> m\<close> v(1) by (auto simp: Suc is_char_boundary_def)
    ultimately have "utf8_valid (take (m - k) (drop k cs))"
      using "2.IH" [OF l refl refl v(4)] "2.prems"(2) by (simp add: Suc)
    moreover have "take k (take m cs) = take k cs" "drop k (take m cs) = take (m - k) (drop k cs)"
      using \<open>k \<le> m\<close> by (simp_all add: min.absorb1 drop_take)
    moreover have "k > 0 \<Longrightarrow> hd (take m cs) = hd cs" using \<open>k \<le> m\<close> v(1) by (cases cs) (auto simp: take_Cons')
    ultimately show ?thesis using v l \<open>k \<le> m\<close> "2.prems"(2) by (auto simp: Suc)
  qed simp
qed simp

lemma truncate_error_ok: "utf8_valid e \<Longrightarrow> utf8_valid (truncate_error e) \<and> length (truncate_error e) \<le> MAX_WATCH_ERROR_BYTES"
  using utf8_take_boundary [of e "floor_boundary e MAX_WATCH_ERROR_BYTES"] floor_boundary_ok [of e MAX_WATCH_ERROR_BYTES]
    floor_boundary_le [of e MAX_WATCH_ERROR_BYTES]
  by (auto simp: truncate_error_def)

definition watcher_ok :: "policy_watcher \<Rightarrow> bool" where
  "watcher_ok w \<longleftrightarrow> (let p = pw_pending w in
    length (pnd_paths p) \<le> MAX_PENDING_WATCH_PATHS \<and> length (pnd_errors p) \<le> MAX_PENDING_WATCH_ERRORS \<and>
    (\<forall>e \<in> set (pnd_errors p). utf8_valid e \<and> length e \<le> MAX_WATCH_ERROR_BYTES) \<and> (pnd_changed p \<longleftrightarrow> pnd_paths p \<noteq> []))"

fun step_utf8 :: "watch_step \<Rightarrow> bool" where
  "step_utf8 (Notified (Inl e)) \<longleftrightarrow> utf8_valid e"
| "step_utf8 _ \<longleftrightarrow> True"

lemma run_watch_ok: "watcher_ok (fst ws) \<Longrightarrow> step_utf8 x \<Longrightarrow> watcher_ok (fst (run_watch E L root x ws))"
proof (induction E L root x ws rule: run_watch.induct)
  case (1 E L root res w S)
  show ?case
  proof (cases res)
    case (Inl e)
    then show ?thesis using 1 truncate_error_ok [of e]
      by (auto simp: watcher_ok_def on_notify_def record_error_def queue_new_error_def Let_def)
  next
    case (Inr kp)
    then show ?thesis using 1 push_paths_length [of "pnd_paths (pw_pending w)"]
      by (auto simp: watcher_ok_def on_notify_def record_event_def Let_def push_paths_Nil split: prod.splits)
  qed
next
  case (2 E L root D now cache_now ws)
  then show ?case by (auto simp: watcher_ok_def policy_tick_def watcher_events_def take_errors_def Let_def split: prod.splits if_splits)
qed

text \<open>
  Every file the store loads is watched: the walk of the store yields the policy directory joined
  with a relative path.
\<close>

lemma store_files_watched:
  assumes "path = policies_dir root @ ''/'' @ rel" "is_policy_file (path, True)"
  shows "watched_path root path"
proof -
  let ?d = "split_on CHR ''/'' (policies_dir root)" and ?r = "split_on CHR ''/'' rel"
  have p: "split_on CHR ''/'' path = ?d @ ?r" using split_on_join [of "CHR ''/''" "policies_dir root" rel] by (simp add: assms(1))
  have "?r \<noteq> []" by simp
  then have "take (length ?d) (butlast (?d @ ?r)) = ?d" by (simp add: butlast_append)
  then show ?thesis using assms(2) by (simp add: watched_path_def p is_policy_file_def Let_def)
qed

section \<open>A change of the policies is served\<close>

lemma notified_pending:
  assumes "x = Notified (Inr (kind, paths))" "list_ex (watched_path root) paths" "run_watch E L root x (w, S) = (w', S')"
  shows "pnd_changed (pw_pending w') \<and> pw_last_emit w' = pw_last_emit w \<and> pw_debounce w' = pw_debounce w \<and> S' = S"
  using assms by (auto simp: on_notify_def record_event_def Let_def push_paths_Nil filter_empty_conv list_ex_iff split: if_splits)

text \<open>A step that does not drain the watcher: a notification, or a tick within the debounce window.\<close>

fun idle_step :: "policy_watcher \<Rightarrow> watch_step \<Rightarrow> bool" where
  "idle_step w (Notified res) = True"
| "idle_step w (Ticked D now cache_now) = (\<not> watcher_ready w now)"

lemma watcher_ready_cong:
  "pw_last_emit w = pw_last_emit w' \<Longrightarrow> pw_debounce w = pw_debounce w' \<Longrightarrow> watcher_ready w now = watcher_ready w' now"
  by (simp add: watcher_ready_def split: option.split)

lemma idle_keeps_pending:
  assumes "\<forall>x \<in> set xs. idle_step w0 x" "pw_last_emit w = pw_last_emit w0" "pw_debounce w = pw_debounce w0" "pnd_changed (pw_pending w)"
  shows "\<exists>w'. fold (run_watch E L root) xs (w, S) = (w', S) \<and> pw_last_emit w' = pw_last_emit w0 \<and> pw_debounce w' = pw_debounce w0 \<and>
    pnd_changed (pw_pending w')"
  using assms
proof (induction xs arbitrary: w)
  case (Cons x xs)
  have "\<exists>w1. run_watch E L root x (w, S) = (w1, S) \<and> pw_last_emit w1 = pw_last_emit w0 \<and> pw_debounce w1 = pw_debounce w0 \<and> pnd_changed (pw_pending w1)"
  proof (cases x)
    case (Notified res)
    then show ?thesis using Cons.prems
      by (auto simp: on_notify_def record_event_def record_error_def Let_def split: sum.splits prod.splits)
  next
    case (Ticked D now cn)
    then show ?thesis using Cons.prems watcher_ready_cong [of w w0 now] by (auto simp: policy_tick_def watcher_events_def take_errors_def Let_def)
  qed
  then show ?case using Cons by auto
qed simp

text \<open>
  C17: a policy change is served.  After a notification about a policy file or the schema, whatever
  else is notified and however often the task wakes up within the debounce window, the first tick
  after the window reloads the store: if it loads, the server answers from exactly what is on disk
  then; if it does not, the former policies keep serving.
\<close>

theorem policy_change_served:
  assumes "list_ex (watched_path root) paths" "\<forall>x \<in> set mid. idle_step w x" "watcher_ready w now"
    and "fold (run_watch E L root) (Notified (Inr (kind, paths)) # mid @ [Ticked D now cache_now]) (w, S) = (w', S')"
  shows "(case handle_load E L D cache_now (ah_store_root (app_authorizer S)) (ah_cache (app_authorizer S)) of
      Inr A \<Rightarrow> ah_current (app_authorizer S') = A \<and> m_policy_reload_total (app_metrics S') = m_policy_reload_total (app_metrics S) + 1
    | Inl _ \<Rightarrow> S' = S)"
proof -
  obtain w1 where 1: "run_watch E L root (Notified (Inr (kind, paths))) (w, S) = (w1, S)" by simp
  note n = notified_pending [OF refl assms(1) 1]
  obtain w2 where 2: "fold (run_watch E L root) mid (w1, S) = (w2, S)" "pw_last_emit w2 = pw_last_emit w" "pw_debounce w2 = pw_debounce w"
      "pnd_changed (pw_pending w2)"
    using idle_keeps_pending [OF assms(2)] n by blast
  have "watcher_ready w2 now" using assms(3) 2(2,3) watcher_ready_cong by blast
  then have "S' = app_reload E L D cache_now S"
    using assms(4) 1 2 by (auto simp: policy_tick_def watcher_events_def Let_def split: prod.splits)
  then show ?thesis
    by (auto simp: app_reload_def handle_reload_def record_policy_reload_def counter_inc_def counter_add_def split: sum.splits)
qed

definition demo_server :: "(unit, unit, list_lru, unit, unit) app_state" where
  "demo_server = \<lparr>app_authorizer = \<lparr>ah_current = sample_authorizer, ah_store_root = ''s'', ah_cache = None\<rparr>, app_audit_kind = NoAudit,
    app_audit = (), app_auth = LayerDisabled, app_metrics = metrics_new\<rparr>"

definition demo_store :: store_disk where
  "demo_store = \<lparr>sd_root_exists = True, sd_create_dirs = Inr (), sd_dir_exists = True, sd_schema_exists = False,
    sd_entries = [Inr (''s/policies'', False)], sd_read = (\<lambda>_. Inl [])\<rparr>"

theorem policy_change_served_witness:
  "m_policy_reload_total (app_metrics (snd (fold (run_watch (pe_engine demo_pdp) (pe_loader demo_pdp) ''s'')
    [Notified (Inr (NotifyModify, [''s/policies/a.cedar''])), Notified (Inl ''e''), Ticked demo_store 5 0] (watch_start 3, demo_server)))) = 1"
proof -
  let ?E = "pe_engine demo_pdp" and ?L = "pe_loader demo_pdp"
  obtain w' S' where f: "fold (run_watch ?E ?L ''s'') (Notified (Inr (NotifyModify, [''s/policies/a.cedar''])) # [Notified (Inl ''e'')] @ [Ticked demo_store 5 0])
      (watch_start 3, demo_server) = (w', S')" by fastforce
  have w: "list_ex (watched_path ''s'') [''s/policies/a.cedar'']" by code_simp
  obtain A where "handle_load ?E ?L demo_store 0 ''s'' None = Inr A"
    by (simp add: handle_load_def demo_store_def store_open_def authorizer_new_def load_policies_def load_schema_def is_policy_file_def
        Let_def MAX_POLICY_TREE_ENTRIES_def)
  then show ?thesis
    using policy_change_served [OF w, of "[Notified (Inl ''e'')]" "watch_start 3" 5 ?E ?L NotifyModify demo_store 0 demo_server w' S'] f
    by (simp add: watch_start_def watcher_ready_def demo_server_def metrics_new_def metrics_with_cap_def)
qed

section \<open>A revocation in the key file takes effect\<close>

lemma reload_keys_ok: "store_ok E S \<Longrightarrow> store_ok E (reload_keys E name t S)"
  using reload_cases [of E "kt_reload_io t" name "kt_reload_dir t" S] by (cases "reload_from_file E (kt_reload_io t) name (kt_reload_dir t) S") (auto simp: reload_keys_def)

lemma key_watcher_ok: "store_ok E (snd kw) \<Longrightarrow> store_ok E (snd (key_watcher_tick E name t kw))"
  by (cases kw) (auto simp: key_watcher_tick_def reload_keys_ok split: read_outcome.splits)

lemma unchanged_file_kept:
  assumes "map_of (kt_dir t) name = Some (Regular c)"
  shows "key_watcher_tick E name t (Some c, S) = (Some c, S)"
  using assms by (auto simp: key_watcher_tick_def read_key_file_def)

lemma unchanged_file_kept_fold:
  "\<forall>t \<in> set ts. map_of (kt_dir t) name = Some (Regular c) \<Longrightarrow> fold (key_watcher_tick E name) ts (Some c, S) = (Some c, S)"
  by (induction ts) (simp_all add: unchanged_file_kept)

lemma load_then_reload:
  "load_from_file E io name fs = Inr S' \<Longrightarrow> reload_from_file E io name fs S = (Inr (), S')"
  by (auto simp: load_from_file_def reload_from_file_def Let_def split: sum.splits)

text \<open>
  C11: a revocation by the operator reaches a running server.  When the operator's tool revokes a key
  and saves the key file, the next poll that reads it refuses the key at any time, and so do all later
  polls for as long as the file stays as it is, whatever calls fail in them.
\<close>

theorem file_revocation_takes_effect:
  assumes "key_env_ok E" "store_ok E S" "revoke_key t0 ident S = (Inr (), S1)" "save_to_file E io uuid name S1 fs = (Inr (), fs1)"
    and "\<forall>c. attempted = Some c \<longrightarrow> (\<exists>ks k. kx_from_json E c = Inr ks \<and> k \<in> set ks \<and> ak_id k = ident \<and> ak_revoked_at k = None)"
    and "kt_dir t = fs1" "kt_reload_dir t = fs1" "attempt (kt_io t) (AtRead name) = Inr ()"
    and "attempt (kt_reload_io t) (AtStat name) = Inr ()" "attempt (kt_reload_io t) (AtRead name) = Inr ()"
    and "\<forall>u \<in> set later. map_of (kt_dir u) name = map_of fs1 name"
    and "split_on CHR '':'' raw = [p, ident, s]"
  shows "\<not> is_ok (verify_key E now (snd (fold (key_watcher_tick E name) (t # later) (attempted, live))) raw)"
proof -
  obtain k where k: "map_of S ident = Some k" "S1 = AList.update ident (k\<lparr>ak_revoked_at := Some t0\<rparr>) S"
    using assms(3) by (auto simp: revoke_key_def split: option.splits)
  have S1: "store_ok E S1" using revoke_key_ok [OF assms(2), of t0 ident] assms(3) by simp
  obtain c where c: "kx_to_json E (snapshot_keys S1) = Inr c" "map_of fs1 name = Some (Regular c)"
    using save_cases(1) [OF assms(4)] by auto
  have "attempted \<noteq> Some c"
  proof
    assume "attempted = Some c"
    then obtain j where j: "j \<in> set (snapshot_keys S1)" "ak_id j = ident" "ak_revoked_at j = None"
      using assms(1,5) c(1) unfolding key_env_ok_def by (metis sum.inject(2))
    then obtain i where "(i, j) \<in> set S1" by (auto simp: snapshot_keys_def)
    then have "map_of S1 ident = Some j" using S1 j(2) by (auto simp: store_ok_def)
    then have "k\<lparr>ak_revoked_at := Some t0\<rparr> = j" by (simp add: k(2) map_of_update)
    then show False using j(3) by auto
  qed
  moreover obtain S2 where "load_from_file E (kt_reload_io t) name fs1 = Inr S2" "map_of S2 = map_of S1"
    using reloaded_snapshot [OF assms(1) S1 c(2,1) assms(9,10)] by metis
  ultimately have "key_watcher_tick E name t (attempted, live) = (Some c, S2)" and S2: "map_of S2 = map_of S1"
    using assms(6-8) c(2) by (auto simp: key_watcher_tick_def read_key_file_def reload_keys_def load_then_reload)
  then have "fold (key_watcher_tick E name) (t # later) (attempted, live) = (Some c, S2)"
    using unchanged_file_kept_fold [of later name c] assms(11) c(2) by simp
  then show ?thesis using assms(12) S2 k(2) by (auto simp: is_ok_iff verify_key_Inr map_of_update)
qed

definition demo_revoked :: api_key where
  "demo_revoked = demo_key\<lparr>ak_revoked_at := Some 120\<rparr>"

definition demo_file_env :: key_env where
  "demo_file_env = demo_key_env
    \<lparr>kx_to_json := (\<lambda>ks. if ks = [demo_key] then Inr ''[k]'' else if ks = [demo_revoked] then Inr ''[r]'' else Inl []),
     kx_from_json := (\<lambda>t. if t = ''[k]'' then Inr [demo_key] else if t = ''[r]'' then Inr [demo_revoked] else Inl [])\<rparr>"

lemma demo_revoked_differs: "demo_revoked \<noteq> demo_key"
  by (simp add: demo_revoked_def demo_key_def)

lemma demo_file_env_ok: "key_env_ok demo_file_env"
proof -
  have "utf8_valid ''[k]''" "utf8_valid ''[r]''" by code_simp+
  then show ?thesis using demo_key_env_ok demo_revoked_differs by (simp add: key_env_ok_def demo_file_env_def)
qed

lemma demo_store_ok: "store_ok demo_file_env [(''id1'', demo_key)]"
proof -
  have "validate_api_key_record demo_file_env demo_key = Inr ()"
    using demo_trimmed by (simp add: validate_api_key_record_def demo_file_env_def demo_key_env_def demo_key_def demo_phc_def identity_new_def valid_scope_def
        ascii_whitespace_def Let_def)
  then show ?thesis by (simp add: store_ok_def demo_key_def)
qed

theorem file_revocation_takes_effect_witness:
  "\<not> is_ok (verify_key demo_file_env 300 (snd (fold (key_watcher_tick demo_file_env ''keys.json'')
    [\<lparr>kt_io = no_faults, kt_dir = [(''keys.json'', Regular ''[r]'')], kt_reload_io = no_faults, kt_reload_dir = [(''keys.json'', Regular ''[r]'')]\<rparr>]
    (Some ''[k]'', [(''id1'', demo_key)]))) (''ag:id1:'' @ hex_encode plain_hex ''secret''))"
proof (rule file_revocation_takes_effect [OF demo_file_env_ok demo_store_ok])
  show "revoke_key 120 ''id1'' [(''id1'', demo_key)] = (Inr (), [(''id1'', demo_revoked)])" by (simp add: revoke_key_def demo_revoked_def)
  show "save_to_file demo_file_env no_faults ''u'' ''keys.json'' [(''id1'', demo_revoked)] [] = (Inr (), [(''keys.json'', Regular ''[r]'')])"
    using demo_revoked_differs by (simp add: save_to_file_def demo_file_env_def replace_file_def set_content_def)
  show "\<forall>c. Some ''[k]'' = Some c \<longrightarrow> (\<exists>ks k. kx_from_json demo_file_env c = Inr ks \<and> k \<in> set ks \<and> ak_id k = ''id1'' \<and> ak_revoked_at k = None)"
    by (simp add: demo_file_env_def demo_key_def)
  show "split_on CHR '':'' (''ag:id1:'' @ hex_encode plain_hex ''secret'') = [''ag'', ''id1'', hex_encode plain_hex ''secret'']"
    using hex_no_colon by (simp add: split_on_no_sep)
qed simp_all

section \<open>Findings\<close>

text \<open>
  A snapshot counts as attempted even when its reload failed for a passing reason.  If the reload of a
  new key file cannot read it, the former keys stay live, however often the unchanged and valid file
  is polled afterwards.
\<close>

theorem failed_reload_never_retried:
  assumes "map_of (kt_dir t) name = Some (Regular c)" "attempt (kt_io t) (AtRead name) = Inr ()" "attempted \<noteq> Some c"
    and "path_exists (kt_reload_io t) (kt_reload_dir t) name" "attempt (kt_reload_io t) (AtRead name) = Inl e"
    and "\<forall>u \<in> set later. map_of (kt_dir u) name = Some (Regular c)"
  shows "fold (key_watcher_tick E name) (t # later) (attempted, S) = (Some c, S)"
proof -
  have "reload_keys E name t S = S" using assms(4,5) by (simp add: reload_keys_def reload_from_file_def read_to_string_def Let_def)
  then have "key_watcher_tick E name t (attempted, S) = (Some c, S)"
    using assms(1-3) by (simp add: key_watcher_tick_def read_key_file_def)
  then show ?thesis using unchanged_file_kept_fold [OF assms(6)] by simp
qed

end
