(* ===== verification/Serving.thy ===== *)
theory Serving
  imports Authzen
begin

text \<open>
  The server as a whole: decisions of concurrent requests, over both transports and in batches, and
  what the audit log says of them.

  Every handler decides in one bounded unit of work and persists the decision in another
  (\<open>authorize_and_persist_decision\<close> in \<open>agentguard-server/src/authzen.rs\<close>), and units of different requests
  interleave; the log appends one decision at a time, under its lock.  The relation \<open>serving\<close> has these
  steps: a decision becomes pending, a pending decision is persisted (and leaves the server if that
  succeeded), and anything happens that does not touch the audit log: reloads, polls of the key
  file, metrics, refused requests.
\<close>

section \<open>Interleaved requests\<close>

inductive serving ::
  "('s, 'c, 'p, 'e, 'l, 'f, log_input, world) pdp_env \<Rightarrow> log_env \<Rightarrow> decision_record set \<Rightarrow> log_path \<Rightarrow> string \<Rightarrow> decision_record list
    \<Rightarrow> string \<Rightarrow> (log_input \<times> decision) list \<Rightarrow> (log_input \<times> decision) list \<Rightarrow> ('s, 'p, 'l, world, 'f) app_state \<Rightarrow> bool"
  for X LE R p key rs0 where
  started: "log_reach LE R p key t rs0 (app_audit S) \<Longrightarrow> dl_rotation (snd (app_audit S)) = None \<Longrightarrow> app_audit_kind S = SyncAudit \<Longrightarrow>
    serving X LE R p key rs0 t [] [] S"
| decided: "serving X LE R p key rs0 t out pending S \<Longrightarrow>
    pdp_work (pe_engine X) (pe_loader X) i q items actor A = (Inr d, A') \<Longrightarrow>
    serving X LE R p key rs0 t out ((pi_append i, d) # pending) S"
| persisted: "serving X LE R p key rs0 t out pending S \<Longrightarrow> (i, d) \<in> set pending \<Longrightarrow> dlog_fit LE R t i d \<Longrightarrow>
    persist_decision (app_audit_kind S) (dlog_append LE) i d (app_audit S) = (r, w) \<Longrightarrow>
    serving X LE R p key rs0 (dlog_tick i) (if is_ok r then out @ [(i, d)] else out) (remove1 (i, d) pending) (S\<lparr>app_audit := w\<rparr>)"
| elsewhere: "serving X LE R p key rs0 t out pending S \<Longrightarrow> app_audit S' = app_audit S \<Longrightarrow> app_audit_kind S' = app_audit_kind S \<Longrightarrow>
    serving X LE R p key rs0 t out pending S'"

text \<open>A log that has failed, without a rotation that could open it again, stays closed.\<close>

definition log_closed :: "world \<Rightarrow> bool" where
  "log_closed w \<longleftrightarrow> \<not> dl_open (snd w) \<and> dl_rotation (snd w) = None"

lemma closed_log_refuses:
  assumes "log_closed w" "log_append E io dw rec w = Some (r, w')"
  shows "r \<noteq> Inr () \<and> log_closed w'"
proof (cases "dl_chain (snd w)")
  case None
  then show ?thesis using assms
    by (auto simp: log_closed_def log_append_def rotate_if_needed_def append_plain_def split: sum.splits if_splits)
next
  case (Some c)
  then have "append_chained E io dw rec c w = (r, w')" using assms by (simp add: log_append_def rotate_if_needed_def log_closed_def)
  then show ?thesis using assms(1)
    by (auto simp: log_closed_def append_chained_def on_dir_def close_file_def Let_def split: sum.splits prod.splits if_splits)
qed

lemma append_keeps_rotation: "log_append E io dw rec w = Some (r, w') \<Longrightarrow> dl_rotation (snd w) = None \<Longrightarrow> dl_rotation (snd w') = None"
  by (auto simp: log_append_def rotate_if_needed_def append_plain_def append_chained_def on_dir_def close_file_def Let_def
      split: sum.splits prod.splits if_splits option.splits)

lemma dlog_append_Some:
  assumes "dlog_append E i d w = (r, w')" "dl_rotation (snd w) = None"
  obtains res where "r = Some res" "log_append E (fst i) (fst (snd i)) (dlog_record E i d) w = Some (res, w')"
proof -
  obtain io dw uuid now where i: "i = (io, dw, uuid, now)" by (cases i)
  have "log_append E io dw (dlog_record E i d) w \<noteq> None" using assms(2) by (simp add: log_append_def rotate_if_needed_def)
  then show ?thesis using assms that
    by (auto simp: i dlog_append_def dlog_record_def append_decision_def split: option.splits)
qed

definition serving_inv :: "log_env \<Rightarrow> decision_record set \<Rightarrow> log_path \<Rightarrow> string \<Rightarrow> decision_record list \<Rightarrow> string \<Rightarrow> (log_input \<times> decision) list \<Rightarrow> world \<Rightarrow> bool" where
  "serving_inv LE R p key rs0 t out w \<longleftrightarrow>
    dl_rotation (snd w) = None \<and>
    (log_reach LE R p key t (rs0 @ map (\<lambda>(i, d). dlog_record LE i d) out) w \<or> log_closed w)"

lemma persist_step:
  assumes "log_env_ok LE R" "log_name_ok (lp_name p)" "serving_inv LE R p key rs0 t out w" "dlog_fit LE R t i d"
    and "persist_decision SyncAudit (dlog_append LE) i d w = (r, w')"
  shows "serving_inv LE R p key rs0 (dlog_tick i) (if is_ok r then out @ [(i, d)] else out) w' \<and> (is_ok r \<longrightarrow> r = Inr d \<and> \<not> log_closed w)"
proof -
  obtain res where a: "dlog_append LE i d w = (Some res, w')" "log_append LE (fst i) (fst (snd i)) (dlog_record LE i d) w = Some (res, w')"
      and r: "r = (case res of Inl e \<Rightarrow> Inl (PdpAudit e) | Inr _ \<Rightarrow> Inr d)"
    using assms(3,5) dlog_append_Some [of LE i d w] unfolding serving_inv_def
    by (cases "dlog_append LE i d w") (auto simp: persist_decision_def split: option.splits sum.splits)
  have rot: "dl_rotation (snd w') = None" using append_keeps_rotation [OF a(2)] assms(3) by (simp add: serving_inv_def)
  show ?thesis
  proof (cases "log_closed w")
    case True
    from closed_log_refuses [OF True a(2)] show ?thesis using r rot by (cases res) (auto simp: serving_inv_def)
  next
    case False
    then have live: "log_reach LE R p key t (rs0 @ map (\<lambda>(i, d). dlog_record LE i d) out) w" using assms(3) by (simp add: serving_inv_def)
    show ?thesis
    proof (cases res)
      case (Inl e)
      obtain ident where "log_inv LE R p key t ident (rs0 @ map (\<lambda>(i, d). dlog_record LE i d) out) w"
        using reach_inv [OF assms(1,2) live] by blast
      then have "\<not> dl_open (snd w')"
        using log_append_step [OF assms(2,1), of key t ident _ "fst w" "snd w" "dlog_record LE i d" "fst (snd i)" "fst i" res "fst w'" "snd w'"]
          assms(4) a(2) Inl
        by (cases i) (simp add: dlog_fit_def dlog_tick_def)
      then show ?thesis using r rot Inl by (simp add: serving_inv_def log_closed_def)
    next
      case (Inr u)
      then have "log_reach LE R p key (dlog_tick i) (rs0 @ map (\<lambda>(i, d). dlog_record LE i d) (out @ [(i, d)])) w'"
        using dlog.stored [OF live assms(4)] a(1) by simp
      then show ?thesis using r rot Inr False by (simp add: serving_inv_def)
    qed
  qed
qed

lemma serving_invariant:
  assumes "log_env_ok LE R" "log_name_ok (lp_name p)"
  shows "serving X LE R p key rs0 t out pending S \<Longrightarrow> app_audit_kind S = SyncAudit \<and> serving_inv LE R p key rs0 t out (app_audit S)"
proof (induction rule: serving.induct)
  case (persisted t out pending S i d r w)
  then have "app_audit_kind S = SyncAudit" by blast
  with persisted persist_step [OF assms, of key rs0 t out "app_audit S" i d r w] show ?case by simp
qed (auto simp: serving_inv_def)

section \<open>Handlers are sequences of steps\<close>

text \<open>One decision of a handler, whichever the transport: work, persistence, and its metrics.\<close>

lemma run_pdp_serving:
  assumes "log_env_ok LE R" "log_name_ok (lp_name p)" "serving X LE R p key rs0 t out [] S" "pe_append X = dlog_append LE"
    and "run_pdp X i q items caller S = (r, S')"
    and "\<forall>d. fst (pdp_work (pe_engine X) (pe_loader X) i q items (authenticated_actor_of caller) (ah_current (app_authorizer S))) = Inr d
      \<longrightarrow> dlog_fit LE R t (pi_append i) d"
  shows "\<exists>t' out'. serving X LE R p key rs0 t' out' [] S' \<and>
    (case r of Inr d \<Rightarrow> out' = out @ [(pi_append i, d)] \<and> t' = dlog_tick (pi_append i) | Inl _ \<Rightarrow> out' = out)"
proof -
  let ?h = "app_authorizer S"
  have k: "app_audit_kind S = SyncAudit" using serving_invariant [OF assms(1-3)] by blast
  obtain r1 A where w: "pdp_work (pe_engine X) (pe_loader X) i q items (authenticated_actor_of caller) (ah_current ?h) = (r1, A)" by fastforce
  show ?thesis
  proof (cases r1)
    case (Inl e)
    then have "r = Inl e" "app_audit S' = app_audit S" "app_audit_kind S' = app_audit_kind S"
      using assms(5) w by (auto simp: run_pdp_def authorize_and_persist_decision_def Let_def)
    then show ?thesis using serving.elsewhere [OF assms(3)] by auto
  next
    case (Inr d)
    obtain r2 w2 where p: "persist_decision SyncAudit (dlog_append LE) (pi_append i) d (app_audit S) = (r2, w2)" by (metis surj_pair)
    have r: "r = r2" "S' = S\<lparr>app_authorizer := ?h\<lparr>ah_current := A\<rparr>, app_audit := w2\<rparr>"
      using assms(4,5) w Inr p k by (auto simp: run_pdp_def authorize_and_persist_decision_def Let_def)
    have f: "dlog_fit LE R t (pi_append i) d" using assms(6) w Inr by simp
    have "serving X LE R p key rs0 (dlog_tick (pi_append i)) (if is_ok r2 then out @ [(pi_append i, d)] else out) [] (S\<lparr>app_audit := w2\<rparr>)"
      using serving.persisted [OF serving.decided [OF assms(3), OF w [unfolded Inr]], of "pi_append i" d r2 w2] f p k by simp
    then have "serving X LE R p key rs0 (dlog_tick (pi_append i)) (if is_ok r2 then out @ [(pi_append i, d)] else out) [] S'"
      by (rule serving.elsewhere) (simp_all add: r)
    moreover have "is_ok r2 \<Longrightarrow> r2 = Inr d"
      using persist_step [OF assms(1,2) _ f p] serving_invariant [OF assms(1-3)] by blast
    ultimately show ?thesis by (cases r2) (auto simp: r)
  qed
qed

lemma evaluation_serving:
  assumes "log_env_ok LE R" "log_name_ok (lp_name p)" "serving X LE R p key rs0 t out [] S" "pe_append X = dlog_append LE"
    and "evaluation X i uuid caller req S = (reply, S')"
    and "\<forall>q d. evaluation_request_for_caller (pe_debug X) uuid req caller = Inr q \<longrightarrow>
      fst (pdp_work (pe_engine X) (pe_loader X) i q (er_entities req) (authenticated_actor_of caller) (ah_current (app_authorizer S))) = Inr d
      \<longrightarrow> dlog_fit LE R t (pi_append i) d"
  shows "\<exists>t' out'. serving X LE R p key rs0 t' out' [] S' \<and>
    (case reply of ReplyDecision resp \<Rightarrow> (\<exists>d. out' = out @ [(pi_append i, d)] \<and> resp = response_of d) | _ \<Rightarrow> out' = out)"
proof (cases "evaluation_request_for_caller (pe_debug X) uuid req caller")
  case (Inl e)
  then have "S' = S" "reply = mapping_reply e" using assms(5) by (simp_all add: evaluation_def)
  then show ?thesis using assms(3) by (cases e) (auto simp: mapping_reply_def)
next
  case (Inr q)
  obtain r S1 where run: "run_pdp X i q (er_entities req) caller S = (r, S1)" by fastforce
  obtain t' out' where s: "serving X LE R p key rs0 t' out' [] S1"
      "case r of Inr d \<Rightarrow> out' = out @ [(pi_append i, d)] \<and> t' = dlog_tick (pi_append i) | Inl _ \<Rightarrow> out' = out"
    using run_pdp_serving [OF assms(1-4) run] assms(6) Inr by blast
  have S': "app_audit S' = app_audit S1" "app_audit_kind S' = app_audit_kind S1"
      "reply = (case r of Inr d \<Rightarrow> ReplyDecision (response_of d) | Inl e \<Rightarrow> (let (st, msg) = fst (report_pdp_work_failure e (app_metrics S1)) in ReplyText st msg))"
    using assms(5) Inr run by (auto simp: evaluation_def Let_def split: sum.splits prod.splits)
  from serving.elsewhere [OF s(1) S'(1,2)] show ?thesis
    using s(2) S'(3) by (cases r) (auto split: prod.splits)
qed

section \<open>Properties\<close>


lemma append_ok_healthy:
  assumes "log_append E io dw rec w = Some (Inr (), w')"
  shows "is_healthy (snd w')"
proof -
  obtain r1 w1 where r: "rotate_if_needed E io dw w = Some (r1, w1)" using assms by (auto simp: log_append_def)
  show ?thesis
  proof (cases r1)
    case (Inr u)
    then have "(case dl_chain (snd w1) of None \<Rightarrow> append_plain E io rec w1 | Some c \<Rightarrow> append_chained E io dw rec c w1) = (Inr (), w')"
      using assms r by (simp add: log_append_def)
    then show ?thesis
      by (auto simp: is_healthy_def append_plain_def append_chained_def on_dir_def close_file_def Let_def
          split: sum.splits prod.splits if_splits option.splits)
  qed (use assms r in \<open>simp add: log_append_def\<close>)
qed

lemma answered_healthy:
  assumes "run_pdp X i q items caller S = (Inr d, S')" "app_audit_kind S = SyncAudit" "pe_append X = dlog_append LE"
  shows "is_healthy (snd (app_audit S'))"
proof -
  obtain d0 w where "persist_decision SyncAudit (dlog_append LE) (pi_append i) d0 (app_audit S) = (Inr d, w)" "app_audit S' = w"
    using assms by (auto simp: run_pdp_def authorize_and_persist_decision_def Let_def split: prod.splits sum.splits)
  then have "dlog_append LE (pi_append i) d0 (app_audit S) = (Some (Inr ()), app_audit S')"
    by (auto simp: persist_decision_def split: prod.splits option.splits sum.splits)
  then show ?thesis
    by (cases "pi_append i") (auto simp: dlog_append_def append_decision_def split: option.splits intro: append_ok_healthy)
qed


end
