(* ===== verification/Startup.thy ===== *)
theory Startup
  imports Watchers
begin


text \<open>
  Starting the server (\<open>run\<close> and \<open>build_router\<close> in \<open>agentguard-server/src/server.rs\<close>): configuration
  checks, the authentication layer, the chain secret (\<open>agentguard-core/src/chain_secret.rs\<close>), the state
  with its policies and audit log, and the watchers.  Binding the listeners and serving is where the
  handlers of the other theories take over.

  What the process reads on the way is one record: environment, files, clocks and identifiers.
\<close>

section \<open>The chain secret\<close>

record secret_codec =
  sx_hex :: hex_codec
  sx_base64 :: "string \<Rightarrow> string option"

definition ascii_hexdigit :: "char \<Rightarrow> bool" where
  "ascii_hexdigit c =
    (let n = of_char c :: nat in 48 \<le> n \<and> n \<le> 57 \<or> 65 \<le> n \<and> n \<le> 70 \<or> 97 \<le> n \<and> n \<le> 102)"

definition decode_chain_secret :: "secret_codec \<Rightarrow> string \<Rightarrow> string option" where
  "decode_chain_secret C bytes =
    (if bytes = [] then None
     else if \<not> utf8_valid bytes then Some bytes
     else
       let s = trim bytes in
       if length s = 64 \<and> list_all ascii_hexdigit s \<and> is_ok (hex_decode (sx_hex C) s) then Some (projr (hex_decode (sx_hex C) s))
       else case sx_base64 C s of Some b \<Rightarrow> Some b | None \<Rightarrow> Some bytes)"

section \<open>Startup\<close>

datatype start_error =
    StartConfig config_error
  | StartAuth string
  | StartSecretUnreadable string string
  | StartSecretEmpty string
  | StartState string
  | StartWatcher string

text \<open>The directory and file name of a path without doubled or trailing slashes.\<close>

definition log_path_of :: "string \<Rightarrow> log_path" where
  "log_path_of s =
    (let parts = split_on CHR ''/'' s in
     \<lparr>lp_dir = (if length parts = 1 then [] else if butlast parts = [[]] then ''/'' else join_with CHR ''/'' (butlast parts)),
      lp_name = last parts\<rparr>)"

record ('s, 'c, 'p, 'e, 'l) boot =
  bt_env :: "string \<Rightarrow> env_var"
  bt_parse_duration :: "string \<Rightarrow> string + duration"
  bt_meta :: "string \<Rightarrow> string + bool \<times> nat"
  bt_debug :: "string \<Rightarrow> string"
  bt_keys :: key_env
  bt_key_io :: io_faults
  bt_key_dir :: dir
  bt_codec :: secret_codec
  bt_read :: "string \<Rightarrow> string + string"
  bt_engine :: "('s, 'c, 'p, 'e, 'l) engine_env"
  bt_loader :: "('s, 'p, 'e) cedar_loader"
  bt_log :: log_env
  bt_disk :: store_disk
  bt_now :: instant
  bt_log_io :: io_faults
  bt_draws :: draws
  bt_watch :: "string + unit"
  bt_key_tick :: key_tick

text \<open>\<open>run\<close> refuses a secret file that decodes to nothing.\<close>

definition load_secret :: "('s, 'c, 'p, 'e, 'l) boot \<Rightarrow> server_config \<Rightarrow> start_error + string option" where
  "load_secret B cfg =
    (case sc_chain_secret cfg of
       None \<Rightarrow> Inr None
     | Some path \<Rightarrow>
       and_then (map_err (StartSecretUnreadable path) (bt_read B path)) (\<lambda>bytes.
       and_then (ok_or (StartSecretEmpty path) (decode_chain_secret (bt_codec B) bytes)) (\<lambda>key. Inr (Some key))))"

record ('s, 'p, 'l, 'f) running =
  rn_app :: "('s, 'p, 'l, decision_log option, 'f) app_state"
  rn_watcher :: policy_watcher
  rn_attempted :: "string option"
  rn_grpc :: "socket_addr option"

text \<open>The debounce window of the policy watcher: 250 milliseconds.\<close>

definition WATCH_DEBOUNCE :: duration where
  "WATCH_DEBOUNCE = 250 * 10 ^ 6"

text \<open>The key poller and the authentication layer share one key store.\<close>

definition start_watchers ::
  "('s, 'c, 'p, 'e, 'l) boot \<Rightarrow> server_config \<Rightarrow> ('s, 'p, 'l, decision_log option, 'f) app_state \<Rightarrow> start_error + ('s, 'p, 'l, 'f) running" where
  "start_watchers B cfg S =
    and_then (map_err StartWatcher (bt_watch B)) (\<lambda>_.
    let (attempted, auth) =
      (case reloadable_key_store (app_auth S) of
         None \<Rightarrow> (None, app_auth S)
       | Some (path, keys) \<Rightarrow>
         (let (attempted, keys) = key_watcher_start (bt_keys B) path (bt_key_tick B) keys in (attempted, LayerReloadable keys path)))
    in Inr \<lparr>rn_app = S\<lparr>app_auth := auth\<rparr>, rn_watcher = watch_start WATCH_DEBOUNCE, rn_attempted = attempted, rn_grpc = sc_grpc_listener cfg\<rparr>)"

definition run_server ::
  "('s, 'c, 'p, 'e, 'l) boot \<Rightarrow> server_config \<Rightarrow> dir \<Rightarrow> (start_error + ('s, 'p, 'l, 'f) running) \<times> dir" where
  "run_server B cfg fs =
    (case and_then (map_err StartConfig (run_checks (bt_parse_duration B) (bt_meta B) (bt_env B) cfg)) (\<lambda>(cache, rotation, bypass).
          and_then (map_err StartAuth (layer_from_config (bt_keys B) (bt_debug B) (bt_key_io B) (bt_key_dir B) (sc_auth cfg))) (\<lambda>auth.
          and_then (load_secret B cfg) (\<lambda>secret. Inr (cache, rotation, auth, secret)))) of
       Inl e \<Rightarrow> (Inl e, fs)
     | Inr (cache, rotation, auth, secret) \<Rightarrow>
       bind_step (map_err_step StartState (build_state_with_options (bt_engine B) (bt_loader B) (bt_log B) (bt_disk B) (bt_now B) (bt_log_io B)
           (bt_draws B) (sc_store_root cfg) (map_option log_path_of (sc_audit_log cfg)) secret auth (Some cache) rotation))
         (\<lambda>S fs. (start_watchers B cfg S, fs)) fs)"

text \<open>The router for embedders and tests: no checks, default cache, and a secret that may decode to nothing.\<close>

definition build_router ::
  "('s, 'c, 'p, 'e, 'l) boot \<Rightarrow> server_config \<Rightarrow> dir \<Rightarrow> (start_error + ('s, 'p, 'l, decision_log option, 'f) app_state) \<times> dir" where
  "build_router B cfg fs =
    (case and_then (map_err StartAuth (layer_from_config (bt_keys B) (bt_debug B) (bt_key_io B) (bt_key_dir B) (sc_auth cfg))) (\<lambda>auth.
          and_then (case sc_chain_secret cfg of
              None \<Rightarrow> Inr None
            | Some path \<Rightarrow> and_then (map_err (StartSecretUnreadable path) (bt_read B path)) (\<lambda>bytes. Inr (decode_chain_secret (bt_codec B) bytes))) (\<lambda>secret.
          Inr (auth, secret))) of
       Inl e \<Rightarrow> (Inl e, fs)
     | Inr (auth, secret) \<Rightarrow>
       map_err_step StartState (build_state_with_options (bt_engine B) (bt_loader B) (bt_log B) (bt_disk B) (bt_now B) (bt_log_io B)
           (bt_draws B) (sc_store_root cfg) (map_option log_path_of (sc_audit_log cfg)) secret auth (Some default_config) None) fs)"

section \<open>What a started server has\<close>

lemma load_head_root: "load_head_from_file E io fs name c = (r, c') \<Longrightarrow> hc_root c' = hc_root c"
  by (auto simp: load_head_from_file_def Let_def split: sum.splits list.splits if_splits prod.splits option.splits)

lemma chain_id_root: "chain_id c fresh = (i, c') \<Longrightarrow> hc_root c' = hc_root c"
  by (auto simp: chain_id_def split: option.splits)

lemma adopt_id_root: "hc_root (adopt_id c i) = hc_root c"
  by (simp add: adopt_id_def split: option.split)

lemma opened_chain:
  assumes "open_internal E io dw p (Some key) rotation fs = (Inr log, fs')"
  shows "\<exists>c. dl_chain log = Some c \<and> hc_root c = key \<and> is_healthy log"
proof -
  obtain fs1 where "open_chained E io dw p key rotation fs1 = (Inr log, fs')"
    using assms by (auto simp: open_internal_def bind_step_def split: sum.splits prod.splits)
  then show ?thesis
    by (auto simp: open_chained_def bind_step_def Let_def adopt_id_root is_healthy_def chain_new_def dest!: load_head_root chain_id_root
        split: sum.splits prod.splits option.splits)
qed

lemma open_audit_chained:
  assumes "open_audit E io dw p (Some key) rotation fs = (Inr log, fs')"
  shows "\<exists>c. dl_chain log = Some c \<and> hc_root c = key \<and> is_healthy log"
proof -
  have "open_internal E io dw p (Some key) rotation fs = (Inr log, fs')"
    using assms by (cases rotation; cases "open_internal E io dw p (Some key) rotation fs"; cases "fst (open_internal E io dw p (Some key) rotation fs)")
      (simp_all add: open_audit_def open_with_rotation_def open_with_chain_def map_err_step_def)
  then show ?thesis by (rule opened_chain)
qed

lemma load_secret_Inr:
  "load_secret B cfg = Inr s \<longleftrightarrow> (case sc_chain_secret cfg of
     None \<Rightarrow> s = None
   | Some path \<Rightarrow> (\<exists>bytes key. bt_read B path = Inr bytes \<and> decode_chain_secret (bt_codec B) bytes = Some key \<and> s = Some key))"
  by (auto simp: load_secret_def result_simps split: option.splits)

lemma build_state_parts:
  assumes "build_state_with_options E L LE D now io dw root audit secret auth cache rotation fs = (Inr S, fs')"
  shows "app_auth S = auth \<and> handle_new E L D now root cache = Inr (app_authorizer S) \<and>
    (case audit of
       None \<Rightarrow> app_audit_kind S = NoAudit \<and> app_audit S = None
     | Some p \<Rightarrow> app_audit_kind S = SyncAudit \<and> (\<exists>log. app_audit S = Some log \<and> open_audit LE io dw p secret rotation fs = (Inr log, fs')))"
  using assms by (auto simp: build_state_with_options_def bind_step_def split: sum.splits option.splits prod.splits)

lemma handle_new_policies:
  "handle_new E L D now root cache = Inr h \<Longrightarrow> \<exists>P srcs. load_policies L D = Inr (P, srcs) \<and> az_policies (ah_current h) = P"
  by (auto simp: handle_new_def handle_load_def result_simps authorizer_new_def try_with_cache_def split: option.splits)

lemma layer_from_config_Inr:
  "layer_from_config K debug io fs a = Inr layer \<Longrightarrow>
    (case a of AuthDisabled \<Rightarrow> layer = LayerDisabled | AuthApiKey path \<Rightarrow> \<exists>keys. load_from_file K io path fs = Inr keys \<and> layer = LayerReloadable keys path)"
  by (auto simp: layer_from_config_def split: auth_config.splits sum.splits)

lemma loaded_store_ok: "load_from_file K io path fs = Inr keys \<Longrightarrow> store_ok K keys"
  using reload_cases [of K io path fs store_new] by (auto simp: load_from_file_def split: prod.splits sum.splits)

lemma run_server_Inr:
  assumes "run_server B cfg fs = (Inr r, fs')"
  obtains cache rotation bypass auth secret S where
    "run_checks (bt_parse_duration B) (bt_meta B) (bt_env B) cfg = Inr (cache, rotation, bypass)"
    "layer_from_config (bt_keys B) (bt_debug B) (bt_key_io B) (bt_key_dir B) (sc_auth cfg) = Inr auth"
    "load_secret B cfg = Inr secret"
    "build_state_with_options (bt_engine B) (bt_loader B) (bt_log B) (bt_disk B) (bt_now B) (bt_log_io B) (bt_draws B) (sc_store_root cfg)
      (map_option log_path_of (sc_audit_log cfg)) secret auth (Some cache) rotation fs = (Inr S, fs')"
    "start_watchers B cfg S = Inr r"
  using assms
  by (auto simp: run_server_def bind_step_def map_err_step_def result_simps split: sum.splits prod.splits)

lemma started_layer:
  assumes "start_watchers B cfg S = Inr r"
  shows "app_audit (rn_app r) = app_audit S \<and> app_audit_kind (rn_app r) = app_audit_kind S \<and> app_authorizer (rn_app r) = app_authorizer S \<and>
    (case app_auth S of
       LayerReloadable keys path \<Rightarrow> app_auth (rn_app r) = LayerReloadable (reload_keys (bt_keys B) path (bt_key_tick B) keys) path
     | layer \<Rightarrow> app_auth (rn_app r) = layer)"
  using assms by (auto simp: start_watchers_def result_simps Let_def key_watcher_start_def split: auth_layer.splits prod.splits option.splits)


definition demo_codec :: secret_codec where
  "demo_codec = \<lparr>sx_hex = plain_hex, sx_base64 = (\<lambda>s. if s = [] then Some [] else None)\<rparr>"

definition demo_boot :: "(unit, unit, unit, unit, list_lru) boot" where
  "demo_boot = \<lparr>bt_env = (\<lambda>_. EnvAbsent), bt_parse_duration = (\<lambda>_. Inr 0), bt_meta = (\<lambda>_. Inl []), bt_debug = (\<lambda>s. s), bt_keys = demo_key_env,
    bt_key_io = no_faults, bt_key_dir = [], bt_codec = demo_codec, bt_read = (\<lambda>_. Inr ''k''), bt_engine = pe_engine demo_pdp,
    bt_loader = pe_loader demo_pdp, bt_log = sample_env, bt_disk = demo_store, bt_now = 0, bt_log_io = no_faults, bt_draws = sample_draws,
    bt_watch = Inr (), bt_key_tick = \<lparr>kt_io = no_faults, kt_dir = [], kt_reload_io = no_faults, kt_reload_dir = []\<rparr>\<rparr>"

definition demo_config :: server_config where
  "demo_config = \<lparr>sc_listener = Tcp (SocketV4 [127, 0, 0, 1] 8443), sc_store_root = ''s'', sc_audit_log = Some ''d/a.log'',
    sc_chain_secret = Some ''sec'', sc_auth = AuthApiKey ''keys.json'', sc_grpc_listener = None\<rparr>"

lemma demo_parts:
  "log_path_of ''d/a.log'' = sample_path" "decode_chain_secret demo_codec ''k'' = Some ''k''"
  by code_simp+

lemma demo_starts:
  obtains r fs' where "run_server demo_boot demo_config [] = (Inr r :: start_error + (unit, unit, list_lru, unit) running, fs')"
proof -
  have c: "run_checks (bt_parse_duration demo_boot) (bt_meta demo_boot) (bt_env demo_boot) demo_config = Inr (default_config, None, False)"
    by (simp add: demo_boot_def demo_config_def run_checks_def try_config_from_env_def cache_env_def try_config_from_overrides_def parse_audit_rotation_def
        validate_listener_security_def is_public_def loopback_bypass_def)
  have a: "layer_from_config (bt_keys demo_boot) (bt_debug demo_boot) (bt_key_io demo_boot) (bt_key_dir demo_boot) (sc_auth demo_config)
      = Inr (LayerReloadable [] ''keys.json'')"
    by (simp add: demo_boot_def demo_config_def layer_from_config_def load_from_file_def reload_from_file_def path_exists_def)
  have s: "load_secret demo_boot demo_config = Inr (Some ''k'')"
    using demo_parts(2) by (simp add: load_secret_def demo_boot_def demo_config_def)
  let ?log = "projr (fst sample_opened)" and ?fs = "snd sample_opened"
  have "open_internal sample_env no_faults sample_draws sample_path (Some ''k'') None [] = (Inr ?log, ?fs)"
    using sample_opened_ok sample_opened_def by (metis prod.collapse sum.collapse(2))
  then have o: "open_audit sample_env no_faults sample_draws sample_path (Some ''k'') None [] = (Inr ?log, ?fs)"
    by (simp add: open_audit_def open_with_chain_def map_err_step_def)
  obtain A where "handle_load (pe_engine demo_pdp) (pe_loader demo_pdp) demo_store 0 ''s'' (Some default_config) = Inr A"
    by (simp add: handle_load_def demo_store_def store_open_def authorizer_new_def load_policies_def load_schema_def is_policy_file_def
        Let_def MAX_POLICY_TREE_ENTRIES_def try_with_cache_def cache_try_new_def default_config_def instant_add_def instant_limit_def)
  then obtain S :: "(unit, unit, list_lru, decision_log option, unit) app_state" where "build_state_with_options (bt_engine demo_boot) (bt_loader demo_boot) (bt_log demo_boot) (bt_disk demo_boot) (bt_now demo_boot)
      (bt_log_io demo_boot) (bt_draws demo_boot) (sc_store_root demo_config) (map_option log_path_of (sc_audit_log demo_config)) (Some ''k'')
      (LayerReloadable [] ''keys.json'') (Some default_config) None [] = (Inr S, ?fs)"
    using o demo_parts(1) by (simp add: build_state_with_options_def handle_new_def bind_step_def demo_boot_def demo_config_def)
  moreover have "bt_watch demo_boot = Inr ()" by (simp add: demo_boot_def)
  ultimately have "\<exists>r fs'. run_server demo_boot demo_config [] = (Inr r :: start_error + (unit, unit, list_lru, unit) running, fs')"
    using c a s by (simp add: run_server_def bind_step_def map_err_step_def start_watchers_def Let_def split: prod.splits option.splits)
  then show ?thesis using that by blast
qed


section \<open>Findings\<close>

text \<open>A secret file of blanks only decodes to the empty key, which the startup check accepts.\<close>

theorem blank_secret_is_empty_key:
  assumes "sx_base64 C [] = Some []" "bytes \<noteq> []" "utf8_valid bytes" "trim bytes = []"
  shows "decode_chain_secret C bytes = Some []"
  using assms by (simp add: decode_chain_secret_def)

text \<open>The router for embedders takes an empty secret file for no secret, and opens the audit log unchained.\<close>

theorem empty_secret_router_unchained:
  assumes "sc_chain_secret cfg = Some path" "bt_read B path = Inr []" "build_router B cfg fs = (Inr S, fs')" "app_audit S = Some log"
  shows "dl_chain log = None"
proof -
  obtain auth p where "open_audit (bt_log B) (bt_log_io B) (bt_draws B) p None None fs = (Inr log, fs')"
    using assms
    by (auto simp: build_router_def decode_chain_secret_def result_simps map_err_step_def dest!: build_state_parts split: sum.splits prod.splits option.splits)
  then show ?thesis
    by (auto simp: open_audit_def log_open_def open_internal_def map_err_step_def bind_step_def result_simps split: sum.splits prod.splits)
qed

text \<open>It has no guard on the listener either: a configuration without authentication is served on any address.\<close>

theorem router_skips_listener_guard:
  "build_router B (cfg\<lparr>sc_listener := l\<rparr>) fs = build_router B cfg fs"
  by (simp add: build_router_def split: sum.split)

end
