(* ===== verification/Bundles.thy ===== *)
theory Bundles
  imports Authzen
begin

text \<open>
  Policy operations (\<open>agentguard-policy/src/\<close>\<open>lib.rs\<close>, \<open>version.rs\<close>, \<open>diff.rs\<close>, \<open>blast_radius.rs\<close>): versioned
  bundles and their registry, the difference between two bundles, and the replay of past requests
  against an old and a new bundle.

  A hash map is an association list with distinct keys, and an ordered map one that is sorted.  The
  line differ, the hash, the JSON codec and the Cedar packages are parameters.
\<close>

section \<open>Versions and bundles\<close>

text \<open>A policy version is a 64-bit counter.\<close>

type_synonym policy_version = nat

definition version_next :: "policy_version \<Rightarrow> policy_version" where
  "version_next v = min (v + 1) u64_max"

definition show_version :: "policy_version \<Rightarrow> string" where
  "show_version v = CHR ''v'' # show_nat v"

record named_policy =
  np_id :: string
  np_source :: string

record policy_bundle =
  bn_version :: policy_version
  bn_tenant_id :: string
  bn_schema_hash :: string
  bn_policies_hash :: string
  bn_created_at :: int
  bn_created_by :: string
  bn_signature :: "string option"
  bn_schema_source :: string
  bn_policies :: "named_policy list"

definition content_hash :: "(string \<Rightarrow> string) \<Rightarrow> policy_bundle \<Rightarrow> string" where
  "content_hash sha b = sha (bn_schema_hash b @ bn_policies_hash b)"

section \<open>The registry\<close>

fun btree_insert :: "nat \<Rightarrow> 'v \<Rightarrow> (nat \<times> 'v) list \<Rightarrow> (nat \<times> 'v) list" where
  "btree_insert k v [] = [(k, v)]"
| "btree_insert k v ((k', v') # m) =
    (if k < k' then (k, v) # (k', v') # m else if k = k' then (k, v) # m else (k', v') # btree_insert k v m)"

type_synonym bundle_registry = "(string \<times> (policy_version \<times> policy_bundle) list) list"

definition register_bundle :: "policy_bundle \<Rightarrow> bundle_registry \<Rightarrow> bundle_registry" where
  "register_bundle b R =
    AList.update (bn_tenant_id b) (btree_insert (bn_version b) b (case map_of R (bn_tenant_id b) of None \<Rightarrow> [] | Some m \<Rightarrow> m)) R"

definition latest_bundle :: "bundle_registry \<Rightarrow> string \<Rightarrow> policy_bundle option" where
  "latest_bundle R t = Option.bind (map_of R t) (\<lambda>m. if m = [] then None else Some (snd (last m)))"

definition bundle_at :: "bundle_registry \<Rightarrow> string \<Rightarrow> policy_version \<Rightarrow> policy_bundle option" where
  "bundle_at R t v = Option.bind (map_of R t) (\<lambda>m. map_of m v)"

definition list_bundles :: "bundle_registry \<Rightarrow> string \<Rightarrow> policy_bundle list" where
  "list_bundles R t = (case map_of R t of None \<Rightarrow> [] | Some m \<Rightarrow> map snd m)"

definition total_bundles :: "bundle_registry \<Rightarrow> nat" where
  "total_bundles R = sum_list (map (\<lambda>(t, m). length m) R)"

section \<open>Bundles on disk\<close>

text \<open>The outcomes of the calls are arguments, as for the policy store; a failed write may leave part of the text.\<close>

definition write_bundle_to_path ::
  "(policy_bundle \<Rightarrow> string + string) \<Rightarrow> string + unit \<Rightarrow> write_outcome \<Rightarrow> string \<Rightarrow> policy_bundle \<Rightarrow> (string + unit) \<times> (string \<times> string) option" where
  "write_bundle_to_path to_json mkdir wr path b =
    (case and_then mkdir (\<lambda>_. to_json b) of
       Inl e \<Rightarrow> (Inl e, None)
     | Inr txt \<Rightarrow>
       (case wr of
          Inr _ \<Rightarrow> (Inr (), Some (path, txt))
        | Inl (e, left) \<Rightarrow> (Inl e, map_option (\<lambda>n. (path, take n txt)) left)))"

definition read_bundle_from_path :: "(string \<Rightarrow> string + policy_bundle) \<Rightarrow> string + string \<Rightarrow> string + policy_bundle" where
  "read_bundle_from_path from_json rd =
    and_then rd (\<lambda>bytes. if utf8_valid bytes then from_json bytes else Inl ''stream did not contain valid UTF-8'')"

lemma bundle_disk_round_trip:
  assumes "write_bundle_to_path to_json mkdir wr path b = (Inr (), file)" "\<forall>txt. to_json b = Inr txt \<longrightarrow> utf8_valid txt \<and> from_json txt = Inr b"
  shows "\<exists>txt. file = Some (path, txt) \<and> read_bundle_from_path from_json (Inr txt) = Inr b"
  using assms by (auto simp: write_bundle_to_path_def read_bundle_from_path_def result_simps split: sum.splits)

section \<open>Differences\<close>

datatype change_tag = ChangeEqual | ChangeInsert | ChangeDelete

type_synonym line_differ = "string \<Rightarrow> string \<Rightarrow> (change_tag \<times> string) list"

fun change_prefix :: "change_tag \<Rightarrow> char" where
  "change_prefix ChangeEqual = CHR '' ''"
| "change_prefix ChangeInsert = CHR ''+''"
| "change_prefix ChangeDelete = CHR ''-''"

definition diff_line :: "change_tag \<times> string \<Rightarrow> string" where
  "diff_line = (\<lambda>(tag, line). change_prefix tag # line @ (if line = [] \<or> last line \<noteq> CHR 0x0A then [CHR 0x0A] else []))"

definition line_diff :: "line_differ \<Rightarrow> string option \<Rightarrow> string option \<Rightarrow> string" where
  "line_diff differ old new =
    concat (map diff_line (differ (case old of None \<Rightarrow> [] | Some s \<Rightarrow> s) (case new of None \<Rightarrow> [] | Some s \<Rightarrow> s)))"

text \<open>The map from identifiers to sources: a later policy replaces an earlier one of the same name.\<close>

definition source_map :: "policy_bundle \<Rightarrow> (string \<times> string) list" where
  "source_map b = fold (\<lambda>p. AList.update (np_id p) (np_source p)) (bn_policies b) []"

definition diff_bundles :: "line_differ \<Rightarrow> policy_bundle \<Rightarrow> policy_bundle \<Rightarrow> (string \<times> string) list" where
  "diff_bundles differ old new =
    (let old_map = source_map old; new_map = source_map new in
     map (\<lambda>(i, _). (i, line_diff differ (Some []) (Some []))) (filter (\<lambda>(i, _). map_of new_map i = None) old_map)
     @ map (\<lambda>(i, src). (i, line_diff differ (map_of old_map i) (Some src))) (filter (\<lambda>(i, src). map_of old_map i \<noteq> Some src) new_map))"

section \<open>Blast radius\<close>

datatype change_class = Unchanged | AllowToDeny | DenyToAllow | OtherChange string

definition is_dangerous :: "change_class \<Rightarrow> bool" where
  "is_dangerous c \<longleftrightarrow> c = AllowToDeny"

record replay_request =
  rr_request :: agent_request
  rr_entities :: "json list"
  rr_old_effect :: string

record blast_report =
  br_unchanged :: nat
  br_allow_to_deny :: nat
  br_deny_to_allow :: nat
  br_other :: nat
  br_sample_allow_to_deny :: "replay_request list"
  br_sample_deny_to_allow :: "replay_request list"

definition br_empty :: blast_report where
  "br_empty = \<lparr>br_unchanged = 0, br_allow_to_deny = 0, br_deny_to_allow = 0, br_other = 0, br_sample_allow_to_deny = [], br_sample_deny_to_allow = []\<rparr>"

definition br_total :: "blast_report \<Rightarrow> nat" where
  "br_total r = br_unchanged r + br_allow_to_deny r + br_deny_to_allow r + br_other r"

definition has_allow_to_deny :: "blast_report \<Rightarrow> bool" where
  "has_allow_to_deny r \<longleftrightarrow> br_allow_to_deny r > 0"

text \<open>The arrow of the report in UTF-8.\<close>

definition arrow :: string where
  "arrow = [CHR 0xE2, CHR 0x86, CHR 0x92]"

definition show_blast_report :: "blast_report \<Rightarrow> string" where
  "show_blast_report r =
    ''blast-radius report:'' @ [CHR 0x0A] @
    ''  unchanged:    '' @ show_nat (br_unchanged r) @ [CHR 0x0A] @
    ''  allow'' @ arrow @ ''deny:   '' @ show_nat (br_allow_to_deny r) @ '' (DANGEROUS)'' @ [CHR 0x0A] @
    ''  deny'' @ arrow @ ''allow:   '' @ show_nat (br_deny_to_allow r) @ [CHR 0x0A] @
    (if br_other r > 0 then ''  other:        '' @ show_nat (br_other r) @ [CHR 0x0A] else []) @
    (if has_allow_to_deny r then ''  WARNING: at least one allow'' @ arrow @ ''deny flip detected'' @ [CHR 0x0A] else [])"

fun debug_effect :: "effect \<Rightarrow> string" where
  "debug_effect Allow = ''Allow''"
| "debug_effect Deny = ''Deny''"

definition classify :: "effect \<Rightarrow> effect \<Rightarrow> change_class" where
  "classify old new =
    (if old = Allow \<and> new = Deny then AllowToDeny
     else if old = Deny \<and> new = Allow then DenyToAllow
     else if old = new then Unchanged
     else OtherChange (debug_effect old @ arrow @ debug_effect new))"

definition SAMPLE_CAP :: nat where
  "SAMPLE_CAP = 10"

text \<open>The calls that create the temporary store, and its path.\<close>

record bundle_io =
  bi_tempdir :: "string + string"
  bi_mkdir :: "string + unit"
  bi_write_schema :: "string + unit"
  bi_write :: "nat \<Rightarrow> string + unit"

definition pad3 :: "nat \<Rightarrow> string" where
  "pad3 i = (let s = show_nat i in replicate (3 - length s) CHR ''0'' @ s)"

definition policy_file_name :: "nat \<Rightarrow> string \<Rightarrow> string" where
  "policy_file_name i ident = pad3 i @ ''_'' @ ident @ ''.cedar''"

text \<open>A slash in the name would be in a directory that does not exist.\<close>

fun write_bundle_policies :: "bundle_io \<Rightarrow> string \<Rightarrow> nat \<Rightarrow> named_policy list \<Rightarrow> string + (string \<times> string) list" where
  "write_bundle_policies io dir i [] = Inr []"
| "write_bundle_policies io dir i (p # ps) =
    and_then (map_err (\<lambda>e. ''write policy '' @ np_id p @ '': '' @ e)
        (if CHR ''/'' \<in> set (np_id p) then Inl ''No such file or directory (os error 2)'' else bi_write io i)) (\<lambda>_.
    and_then (write_bundle_policies io dir (i + 1) ps) (\<lambda>files.
    Inr ((join_path dir (policy_file_name i (np_id p)), np_source p) # files)))"

text \<open>The store of a bundle: its directory, and one file for each policy.\<close>

definition bundle_disk :: "string \<Rightarrow> string \<Rightarrow> (string \<times> string) list \<Rightarrow> store_disk" where
  "bundle_disk root schema files =
    \<lparr>sd_root_exists = True, sd_create_dirs = Inr (), sd_dir_exists = True, sd_schema_exists = True,
     sd_entries = Inr (policies_dir root, False) # map (\<lambda>(path, _). Inr (path, True)) files,
     sd_read = (\<lambda>path. ok_or ''No such file or directory (os error 2)'' (map_of ((schema_path root, schema) # files) path))\<rparr>"

definition build_authorizer ::
  "('s, 'p, 'e) cedar_loader \<Rightarrow> bundle_io \<Rightarrow> policy_bundle \<Rightarrow> string + ('s, 'p, 'l) authorizer" where
  "build_authorizer L io b =
    and_then (map_err (\<lambda>e. ''create tempdir: '' @ e) (bi_tempdir io)) (\<lambda>root.
    and_then (map_err (\<lambda>e. ''create policies dir: '' @ e) (bi_mkdir io)) (\<lambda>_.
    and_then (map_err (\<lambda>e. ''write schema: '' @ e) (bi_write_schema io)) (\<lambda>_.
    and_then (write_bundle_policies io (policies_dir root) 0 (bn_policies b)) (\<lambda>files.
    let D = bundle_disk root (bn_schema_source b) files in
    and_then (map_err (\<lambda>e. ''open policy store: '' @ show_core_error e) (store_open D root)) (\<lambda>root.
    map_err (\<lambda>e. ''build authorizer: '' @ show_core_error e) (authorizer_new L D root))))))"

definition record_change :: "replay_request \<Rightarrow> change_class \<Rightarrow> blast_report \<Rightarrow> blast_report" where
  "record_change req c rep =
    (case c of
       Unchanged \<Rightarrow> rep\<lparr>br_unchanged := br_unchanged rep + 1\<rparr>
     | AllowToDeny \<Rightarrow> rep\<lparr>br_allow_to_deny := br_allow_to_deny rep + 1,
         br_sample_allow_to_deny := (if length (br_sample_allow_to_deny rep) < SAMPLE_CAP then br_sample_allow_to_deny rep @ [req]
           else br_sample_allow_to_deny rep)\<rparr>
     | DenyToAllow \<Rightarrow> rep\<lparr>br_deny_to_allow := br_deny_to_allow rep + 1,
         br_sample_deny_to_allow := (if length (br_sample_deny_to_allow rep) < SAMPLE_CAP then br_sample_deny_to_allow rep @ [req]
           else br_sample_deny_to_allow rep)\<rparr>
     | OtherChange _ \<Rightarrow> rep\<lparr>br_other := br_other rep + 1\<rparr>)"

text \<open>The authorizers of bundles have no cache, so no clock is read; a panic is the value \<open>None\<close>.\<close>

fun replay_all ::
  "('s, 'c, 'p, 'e, 'l) engine_env \<Rightarrow> ('s, 'p, 'e) cedar_loader \<Rightarrow> ('s, 'p, 'l) authorizer \<Rightarrow> ('s, 'p, 'l) authorizer \<Rightarrow> replay_request list
    \<Rightarrow> blast_report \<Rightarrow> (string + blast_report) option" where
  "replay_all E L A B [] rep = Some (Inr rep)"
| "replay_all E L A B (req # rest) rep =
    (case build_entities L (rr_entities req) of
       Inl e \<Rightarrow> Some (Inl (''replay entity build: '' @ show_core_error e))
     | Inr es \<Rightarrow>
       Option.bind (authorize E A 0 0 (rr_request req) es) (\<lambda>(r, A).
       case r of
         Inl e \<Rightarrow> Some (Inl (''old-bundle authorize: '' @ show_core_error e))
       | Inr old_decision \<Rightarrow>
         Option.bind (authorize E B 0 0 (rr_request req) es) (\<lambda>(r, B).
         case r of
           Inl e \<Rightarrow> Some (Inl (''new-bundle authorize: '' @ show_core_error e))
         | Inr new_decision \<Rightarrow>
           replay_all E L A B rest (record_change req (classify (dn_effect old_decision) (dn_effect new_decision)) rep))))"

definition analyze ::
  "('s, 'c, 'p, 'e, 'l) engine_env \<Rightarrow> ('s, 'p, 'e) cedar_loader \<Rightarrow> bundle_io \<Rightarrow> bundle_io \<Rightarrow> policy_bundle \<Rightarrow> policy_bundle \<Rightarrow> replay_request list
    \<Rightarrow> (string + blast_report) option" where
  "analyze E L io io' old new replay =
    (case and_then (build_authorizer L io old) (\<lambda>A. and_then (build_authorizer L io' new) (\<lambda>B. Inr (A, B))) of
       Inl e \<Rightarrow> Some (Inl e)
     | Inr (A, B) \<Rightarrow> replay_all E L A B replay br_empty)"

section \<open>The registry keeps what was registered\<close>

lemma last_sorted_Max: "sorted_wrt (<) xs \<Longrightarrow> xs \<noteq> [] \<Longrightarrow> last xs = Max (set xs)" for xs :: "nat list"
proof (induction xs rule: rev_induct)
  case (snoc x xs)
  have "Max (set (xs @ [x])) = x" by (rule Max_eqI) (use snoc.prems(1) in \<open>auto simp: sorted_wrt_append less_imp_le\<close>)
  then show ?case by simp
qed simp

lemma map_of_btree_insert: "map_of (btree_insert k v m) = (map_of m)(k \<mapsto> v)"
  by (induction k v m rule: btree_insert.induct) auto

lemma keys_btree_insert: "set (map fst (btree_insert k v m)) = insert k (set (map fst m))"
  by (induction k v m rule: btree_insert.induct) auto

lemma sorted_btree_insert:
  "sorted_wrt (<) (map fst m) \<Longrightarrow> sorted_wrt (<) (map fst (btree_insert k v m))"
proof (induction k v m rule: btree_insert.induct)
  case (2 k v k' v' m)
  then show ?case using keys_btree_insert [of k v m] by (auto simp: less_trans)
qed simp

lemma length_btree_insert:
  "sorted_wrt (<) (map fst m) \<Longrightarrow> length (btree_insert k v m) = length m + (if map_of m k = None then 1 else 0)"
proof (induction k v m rule: btree_insert.induct)
  case (2 k v k' v' m)
  moreover have "map_of m k = None" if "k < k'" using that 2(2) by (fastforce simp: map_of_eq_None_iff)
  ultimately show ?case by auto
qed simp

text \<open>The bundle a history of registrations leaves under a tenant and a version, and the tenant's versions.\<close>

definition registered :: "policy_bundle list \<Rightarrow> string \<Rightarrow> policy_version \<Rightarrow> policy_bundle option" where
  "registered bs t v = find (\<lambda>b. bn_tenant_id b = t \<and> bn_version b = v) (rev bs)"

definition versions_of :: "policy_bundle list \<Rightarrow> string \<Rightarrow> policy_version set" where
  "versions_of bs t = bn_version ` {b \<in> set bs. bn_tenant_id b = t}"

definition registry_ok :: "bundle_registry \<Rightarrow> bool" where
  "registry_ok R \<longleftrightarrow> distinct (map fst R) \<and> (\<forall>(t, m) \<in> set R. m \<noteq> [] \<and> sorted_wrt (<) (map fst m))"

abbreviation registry_of :: "policy_bundle list \<Rightarrow> bundle_registry" where
  "registry_of bs \<equiv> fold register_bundle bs []"

lemma btree_insert_not_Nil: "btree_insert k v m \<noteq> []"
  by (cases m) (auto split: if_splits)

lemma register_bundle_ok: "registry_ok R \<Longrightarrow> registry_ok (register_bundle b R)"
proof -
  assume R: "registry_ok R"
  let ?m = "case map_of R (bn_tenant_id b) of None \<Rightarrow> [] | Some m \<Rightarrow> m"
  have m: "sorted_wrt (<) (map fst ?m)" using R map_of_SomeD [of R "bn_tenant_id b"] by (fastforce simp: registry_ok_def split: option.split)
  have s: "set (register_bundle b R) \<subseteq> insert (bn_tenant_id b, btree_insert (bn_version b) b ?m) (set R)"
    unfolding register_bundle_def by (induction R) auto
  have "distinct (map fst (register_bundle b R))" using R by (simp add: registry_ok_def register_bundle_def distinct_update)
  then show ?thesis
    using R s sorted_btree_insert [OF m, of "bn_version b" b] btree_insert_not_Nil [of "bn_version b" b ?m] unfolding registry_ok_def by fastforce
qed

lemma registry_of_ok: "registry_ok (registry_of bs)"
  by (induction bs rule: rev_induct) (simp_all add: register_bundle_ok, simp add: registry_ok_def)

lemma map_of_register:
  "map_of (register_bundle b R) = (map_of R)(bn_tenant_id b \<mapsto> btree_insert (bn_version b) b (case map_of R (bn_tenant_id b) of None \<Rightarrow> [] | Some m \<Rightarrow> m))"
  by (simp add: register_bundle_def update_conv')

lemma registry_at: "bundle_at (registry_of bs) t v = registered bs t v"
proof (induction bs rule: rev_induct)
  case (snoc b bs)
  then show ?case
    by (auto simp: bundle_at_def registered_def map_of_register map_of_btree_insert split: option.split)
qed (simp add: bundle_at_def registered_def)

lemma registry_versions:
  "(case map_of (registry_of bs) t of None \<Rightarrow> {} | Some m \<Rightarrow> set (map fst m)) = versions_of bs t"
proof (induction bs rule: rev_induct)
  case (snoc b bs)
  have "versions_of (bs @ [b]) t = (if bn_tenant_id b = t then insert (bn_version b) (versions_of bs t) else versions_of bs t)"
    by (auto simp: versions_of_def)
  then show ?case using snoc by (auto simp: map_of_register keys_btree_insert simp del: set_map split: option.splits if_splits)
qed (simp add: versions_of_def)

lemma registry_parts:
  assumes "map_of (registry_of bs) t = Some m"
  shows "m \<noteq> []" "map fst m = sorted_list_of_set (versions_of bs t)" "map snd m = map (\<lambda>v. the (registered bs t v)) (map fst m)"
proof -
  have ok: "m \<noteq> [] \<and> sorted_wrt (<) (map fst m)" using registry_of_ok [of bs] map_of_SomeD [OF assms] by (auto simp: registry_ok_def)
  then show "m \<noteq> []" by simp
  have "set (map fst m) = versions_of bs t" using registry_versions [of bs t] assms by simp
  then show "map fst m = sorted_list_of_set (versions_of bs t)"
    using ok strict_sorted_equal_Uniq [THEN Uniq_D] by (metis sorted_list_of_set.idem_if_sorted_distinct strict_sorted_iff)
  have d: "distinct (map fst m)" using ok strict_sorted_iff by blast
  have "registered bs t v = Some b" if "(v, b) \<in> set m" for v b
    using registry_at [of bs t v] assms map_of_is_SomeI [OF d that] by (simp add: bundle_at_def)
  then show "map snd m = map (\<lambda>v. the (registered bs t v)) (map fst m)" by force
qed

lemma sum_update:
  fixes f :: "'b \<Rightarrow> nat"
  shows "distinct (map fst R) \<Longrightarrow> sum_list (map (\<lambda>(t, m). f m) (AList.update k x R)) + (case map_of R k of None \<Rightarrow> 0 | Some y \<Rightarrow> f y)
    = sum_list (map (\<lambda>(t, m). f m) R) + f x"
  by (induction R) (auto split: option.splits simp: rev_image_eqI)

lemma registry_total: "total_bundles (registry_of bs) = card {(bn_tenant_id b, bn_version b) | b. b \<in> set bs}"
proof (induction bs rule: rev_induct)
  case (snoc b bs)
  let ?R = "registry_of bs" and ?t = "bn_tenant_id b" and ?v = "bn_version b"
  let ?m = "case map_of ?R ?t of None \<Rightarrow> [] | Some m \<Rightarrow> m"
  define S where "S = {(bn_tenant_id b, bn_version b) | b. b \<in> set bs}"
  have ok: "registry_ok ?R" by (rule registry_of_ok)
  have m: "sorted_wrt (<) (map fst ?m)" using ok map_of_SomeD [of ?R ?t] by (fastforce simp: registry_ok_def split: option.split)
  have "map_of ?m ?v = bundle_at ?R ?t ?v" by (simp add: bundle_at_def split: option.split)
  then have "map_of ?m ?v = None \<longleftrightarrow> (?t, ?v) \<notin> S" by (auto simp: S_def registry_at registered_def find_None_iff)
  then have l: "length (btree_insert ?v b ?m) = length ?m + (if (?t, ?v) \<in> S then 0 else 1)" using length_btree_insert [OF m] by auto
  have "(case map_of ?R ?t of None \<Rightarrow> 0 | Some y \<Rightarrow> length y) = length ?m" by (simp split: option.split)
  then have "total_bundles (register_bundle b ?R) + length ?m = total_bundles ?R + length (btree_insert ?v b ?m)"
    using sum_update [of ?R length ?t "btree_insert ?v b ?m"] ok unfolding total_bundles_def register_bundle_def registry_ok_def by simp
  then have t: "total_bundles (register_bundle b ?R) = card S + (if (?t, ?v) \<in> S then 0 else 1)" using l snoc unfolding S_def by simp
  have i: "{(bn_tenant_id c, bn_version c) | c. c \<in> set (bs @ [b])} = insert (?t, ?v) S" by (auto simp: S_def)
  have "finite S" by (simp add: S_def setcompr_eq_image)
  then have "card (insert (?t, ?v) S) = card S + (if (?t, ?v) \<in> S then 0 else 1)" by (simp add: card_insert_if)
  then show ?case unfolding i using t by simp
qed (simp add: total_bundles_def)

text \<open>
  The registry keeps exactly what was registered.  Whatever the order of the registrations, a
  lookup finds the bundle last registered under that tenant and version and nothing of another
  tenant; the list has every version once, oldest first; the latest is the greatest version; and
  the total counts each pair once.
\<close>

theorem registry_keeps_registered:
  "bundle_at (registry_of bs) t v = registered bs t v \<and>
    list_bundles (registry_of bs) t = map (\<lambda>v. the (registered bs t v)) (sorted_list_of_set (versions_of bs t)) \<and>
    latest_bundle (registry_of bs) t = (if versions_of bs t = {} then None else registered bs t (Max (versions_of bs t))) \<and>
    total_bundles (registry_of bs) = card {(bn_tenant_id b, bn_version b) | b. b \<in> set bs}"
proof (cases "map_of (registry_of bs) t")
  case None
  then have "versions_of bs t = {}" using registry_versions [of bs t] by simp
  then show ?thesis using None registry_at registry_total by (simp add: list_bundles_def latest_bundle_def)
next
  case (Some m)
  note p = registry_parts [OF Some]
  have fin: "finite (versions_of bs t)" by (simp add: versions_of_def)
  have V: "versions_of bs t \<noteq> {}" using p(1,2) by (metis map_is_Nil_conv sorted_list_of_set.sorted_key_list_of_set_empty)
  have "last (map fst m) = Max (versions_of bs t)"
    using last_sorted_Max [of "map fst m"] p(1,2) fin V by simp
  then have "last (map snd m) = the (registered bs t (Max (versions_of bs t)))" using p by (metis last_map list.map_disc_iff)
  moreover have "registered bs t (Max (versions_of bs t)) \<noteq> None"
    using Max_in [OF fin V] by (auto simp: registered_def versions_of_def find_None_iff)
  moreover have "snd (last m) = last (map snd m)" using p(1) by (simp add: last_map)
  ultimately have "Some (snd (last m)) = registered bs t (Max (versions_of bs t))" by auto
  then show ?thesis using Some V p registry_at registry_total by (simp add: list_bundles_def latest_bundle_def)
qed

section \<open>A difference shows every change\<close>

text \<open>The lines of a text, each with its line end.\<close>

fun split_lines :: "string \<Rightarrow> string list" where
  "split_lines [] = []"
| "split_lines (c # s) =
    (if c = CHR 0x0A then [c] # split_lines s
     else case split_lines s of [] \<Rightarrow> [[c]] | l # ls \<Rightarrow> (c # l) # ls)"

text \<open>
  The differ: leaving out the insertions gives the lines of the old text, leaving out the deletions
  those of the new one.  Carriage returns, which it takes for line ends, are left out.
\<close>

definition differ_ok :: "line_differ \<Rightarrow> bool" where
  "differ_ok differ \<longleftrightarrow> (\<forall>a b. CHR 0x0D \<notin> set a \<longrightarrow> CHR 0x0D \<notin> set b \<longrightarrow>
    map snd (filter (\<lambda>c. fst c \<noteq> ChangeInsert) (differ a b)) = split_lines a \<and>
    map snd (filter (\<lambda>c. fst c \<noteq> ChangeDelete) (differ a b)) = split_lines b)"

definition end_line :: "string \<Rightarrow> string" where
  "end_line s = (if s = [] \<or> last s = CHR 0x0A then s else s @ [CHR 0x0A])"

text \<open>What is left of a printed difference without the lines of one prefix, and without the prefixes.\<close>

definition diff_side :: "char \<Rightarrow> string \<Rightarrow> string" where
  "diff_side c txt = concat (map tl (filter (\<lambda>l. hd l \<noteq> c) (split_lines txt)))"

lemma split_lines_line: "CHR 0x0A \<notin> set xs \<Longrightarrow> split_lines (xs @ CHR 0x0A # rest) = (xs @ [CHR 0x0A]) # split_lines rest"
  by (induction xs) auto

lemma split_lines_parts: "l \<in> set (split_lines s) \<Longrightarrow> l \<noteq> [] \<and> CHR 0x0A \<notin> set (butlast l)"
proof (induction s arbitrary: l)
  case (Cons c s)
  then show ?case by (fastforce split: if_splits list.splits)
qed simp

lemma split_lines_concat: "concat (map end_line (split_lines s)) = end_line s"
proof (induction s)
  case (Cons c s)
  have n: "split_lines s = [] \<longleftrightarrow> s = []" by (cases s) (auto split: list.splits)
  show ?case
  proof (cases "c = CHR 0x0A")
    case True
    then show ?thesis using Cons by (auto simp: end_line_def)
  next
    case False
    show ?thesis
    proof (cases "split_lines s")
      case (Cons l ls)
      then have l: "l \<noteq> []" using split_lines_parts [of l s] by simp
      have "s \<noteq> []" using Cons by auto
      then show ?thesis using Cons Cons.IH False l by (auto simp: end_line_def split: if_splits)
    qed (use False n in \<open>simp add: end_line_def\<close>)
  qed
qed (simp add: end_line_def)

lemma diff_line_split:
  assumes "CHR 0x0A \<notin> set (butlast l)" "l \<noteq> []"
  shows "split_lines (diff_line (t, l) @ rest) = diff_line (t, l) # split_lines rest"
proof -
  obtain xs where x: "diff_line (t, l) = (change_prefix t # xs) @ [CHR 0x0A]" "CHR 0x0A \<notin> set xs"
  proof (cases l rule: rev_cases)
    case (snoc ys y)
    then show ?thesis using that [of ys] that [of l] assms by (cases "y = CHR 0x0A") (simp_all add: diff_line_def)
  qed (use assms in simp)
  have "change_prefix t \<noteq> CHR 0x0A" by (cases t) simp_all
  then show ?thesis using split_lines_line [of "change_prefix t # xs" rest] x by simp
qed

lemma split_diff:
  "(\<forall>c \<in> set cs. snd c \<noteq> [] \<and> CHR 0x0A \<notin> set (butlast (snd c))) \<Longrightarrow> split_lines (concat (map diff_line cs)) = map diff_line cs"
proof (induction cs)
  case (Cons c cs)
  then show ?case using diff_line_split [of "snd c" "fst c" "concat (map diff_line cs)"] by simp
qed simp

lemma differ_sides:
  assumes "differ_ok differ" "CHR 0x0D \<notin> set a" "CHR 0x0D \<notin> set b"
  shows "map snd (filter (\<lambda>c. fst c \<noteq> ChangeInsert) (differ a b)) = split_lines a"
    "map snd (filter (\<lambda>c. fst c \<noteq> ChangeDelete) (differ a b)) = split_lines b"
  using assms by (simp_all add: differ_ok_def)

lemma change_lines:
  assumes "differ_ok differ" "CHR 0x0D \<notin> set a" "CHR 0x0D \<notin> set b" "c \<in> set (differ a b)"
  shows "snd c \<noteq> [] \<and> CHR 0x0A \<notin> set (butlast (snd c))"
proof -
  have "snd c \<in> set (map snd (filter (\<lambda>c. fst c \<noteq> ChangeInsert) (differ a b))) \<or>
      snd c \<in> set (map snd (filter (\<lambda>c. fst c \<noteq> ChangeDelete) (differ a b)))"
    using assms(4) by (cases "fst c") force+
  then show ?thesis unfolding differ_sides [OF assms(1-3)] using split_lines_parts by blast
qed

lemma diff_side_changes:
  assumes "\<forall>c \<in> set cs. snd c \<noteq> [] \<and> CHR 0x0A \<notin> set (butlast (snd c))"
  shows "diff_side (change_prefix t) (concat (map diff_line cs)) = concat (map end_line (map snd (filter (\<lambda>c. fst c \<noteq> t) cs)))"
proof -
  have p: "hd (diff_line c) \<noteq> change_prefix t \<longleftrightarrow> fst c \<noteq> t" for c by (cases c; cases "fst c"; cases t) (simp_all add: diff_line_def)
  have e: "tl (diff_line c) = end_line (snd c)" if "snd c \<noteq> []" for c using that by (cases c) (simp add: diff_line_def end_line_def)
  have f: "filter (\<lambda>l. hd l \<noteq> change_prefix t) (map diff_line cs) = map diff_line (filter (\<lambda>c. fst c \<noteq> t) cs)" by (simp add: filter_map o_def p)
  have m: "map (\<lambda>c. tl (diff_line c)) (filter (\<lambda>c. fst c \<noteq> t) cs) = map (\<lambda>c. end_line (snd c)) (filter (\<lambda>c. fst c \<noteq> t) cs)"
    by (rule map_cong [OF refl]) (use assms e in auto)
  show ?thesis unfolding diff_side_def split_diff [OF assms] f map_map o_def m ..
qed

lemma line_diff_sides:
  assumes "differ_ok differ" "CHR 0x0D \<notin> set a" "CHR 0x0D \<notin> set b"
  shows "diff_side CHR ''+'' (line_diff differ (Some a) (Some b)) = end_line a \<and>
    diff_side CHR ''-'' (line_diff differ (Some a) (Some b)) = end_line b"
proof -
  have "\<forall>c \<in> set (differ a b). snd c \<noteq> [] \<and> CHR 0x0A \<notin> set (butlast (snd c))" using change_lines [OF assms] by blast
  note sides = diff_side_changes [OF this, unfolded line_diff_def]
  show ?thesis
    using sides [of ChangeInsert] sides [of ChangeDelete] unfolding differ_sides [OF assms] split_lines_concat by (simp add: line_diff_def)
qed

text \<open>The source a bundle has under an identifier: the last one.\<close>

definition source_of :: "policy_bundle \<Rightarrow> string \<Rightarrow> string option" where
  "source_of b i = map_option np_source (find (\<lambda>p. np_id p = i) (rev (bn_policies b)))"

lemma find_in_set: "find P xs = Some x \<Longrightarrow> x \<in> set xs"
  by (induction xs) (auto split: if_splits)

lemma source_map_keys: "distinct (map fst (source_map b))"
proof -
  have "distinct (map fst m) \<Longrightarrow> distinct (map fst (fold (\<lambda>p. AList.update (np_id p) (np_source p)) ps m))" for ps m
    by (induction ps arbitrary: m) (simp_all add: distinct_update)
  from this [of "[]" "bn_policies b"] show ?thesis by (simp add: source_map_def)
qed

lemma source_map_of: "map_of (source_map b) i = source_of b i"
proof -
  have "map_of (fold (\<lambda>p. AList.update (np_id p) (np_source p)) ps []) i = map_option np_source (find (\<lambda>p. np_id p = i) (rev ps))" for ps
    by (induction ps rule: rev_induct) (auto simp: update_conv')
  then show ?thesis by (simp add: source_map_def source_of_def)
qed

lemma in_source_map: "(i, s) \<in> set (source_map b) \<longleftrightarrow> source_of b i = Some s"
  unfolding source_map_of [symmetric] by (rule map_of_eq_Some_iff [OF source_map_keys, symmetric])

lemma in_diff_bundles:
  "(i, txt) \<in> set (diff_bundles differ old new) \<longleftrightarrow>
    (source_of old i \<noteq> None \<and> source_of new i = None \<and> txt = line_diff differ (Some []) (Some [])) \<or>
    (\<exists>s. source_of new i = Some s \<and> source_of old i \<noteq> Some s \<and> txt = line_diff differ (source_of old i) (Some s))"
  by (auto simp: diff_bundles_def Let_def source_map_of in_source_map image_iff)


section \<open>The blast radius is exact\<close>

text \<open>What the engine decides for a replayed request under the policies of an authorizer.\<close>

definition verdict ::
  "('s, 'c, 'p, 'e, 'l) engine_env \<Rightarrow> ('s, 'p, 'e) cedar_loader \<Rightarrow> ('s, 'p, 'l) authorizer \<Rightarrow> replay_request \<Rightarrow> effect option" where
  "verdict E L A req =
    (case and_then (build_entities L (rr_entities req)) (\<lambda>es. direct E (az_schema A) (az_policies A) (rr_request req) es) of
       Inl _ \<Rightarrow> None
     | Inr (eff, _) \<Rightarrow> Some eff)"

definition flips ::
  "('s, 'c, 'p, 'e, 'l) engine_env \<Rightarrow> ('s, 'p, 'e) cedar_loader \<Rightarrow> ('s, 'p, 'l) authorizer \<Rightarrow> ('s, 'p, 'l) authorizer \<Rightarrow> effect \<Rightarrow> effect
    \<Rightarrow> replay_request \<Rightarrow> bool" where
  "flips E L A B e e' req \<longleftrightarrow> verdict E L A req = Some e \<and> verdict E L B req = Some e'"

lemma uncached_authorize:
  assumes "az_cache A = None"
  shows "\<exists>r. authorize E A t t' q es = Some (r, A) \<and> outcome r = direct E (az_schema A) (az_policies A) q es"
  using assms by (cases "to_cedar_request (ev_cedar E) q (az_schema A)")
    (simp_all add: authorize_def cache_lookup_def outcome_def direct_def Let_def)

lemma uncached_verdict:
  assumes "az_cache A = None" "build_entities L (rr_entities req) = Inr es" "authorize E A t t' (rr_request req) es = Some (r, A')"
  shows "A' = A \<and> (case r of Inl _ \<Rightarrow> verdict E L A req = None | Inr d \<Rightarrow> verdict E L A req = Some (dn_effect d))"
  using uncached_authorize [OF assms(1), of E t t' "rr_request req" es] assms(2,3)
  by (auto simp: verdict_def outcome_def split: sum.splits)

lemma replay_total:
  assumes "az_cache A = None" "az_cache B = None"
  shows "replay_all E L A B reqs rep \<noteq> None"
proof (induction reqs arbitrary: rep)
  case (Cons req reqs)
  show ?case
  proof (cases "build_entities L (rr_entities req)")
    case (Inr es)
    obtain r r' where "authorize E A 0 0 (rr_request req) es = Some (r, A)" "authorize E B 0 0 (rr_request req) es = Some (r', B)"
      using uncached_authorize [OF assms(1)] uncached_authorize [OF assms(2)] by metis
    then show ?thesis using Inr Cons by (simp split: sum.split)
  qed simp
qed simp

text \<open>The report after some requests, as counts and samples of the flips.\<close>

definition exact_report ::
  "('s, 'c, 'p, 'e, 'l) engine_env \<Rightarrow> ('s, 'p, 'e) cedar_loader \<Rightarrow> ('s, 'p, 'l) authorizer \<Rightarrow> ('s, 'p, 'l) authorizer \<Rightarrow> replay_request list
    \<Rightarrow> blast_report \<Rightarrow> bool" where
  "exact_report E L A B reqs rep \<longleftrightarrow>
    br_unchanged rep = length (filter (\<lambda>r. flips E L A B Allow Allow r \<or> flips E L A B Deny Deny r) reqs) \<and>
    br_allow_to_deny rep = length (filter (flips E L A B Allow Deny) reqs) \<and>
    br_deny_to_allow rep = length (filter (flips E L A B Deny Allow) reqs) \<and>
    br_other rep = 0 \<and>
    br_sample_allow_to_deny rep = take SAMPLE_CAP (filter (flips E L A B Allow Deny) reqs) \<and>
    br_sample_deny_to_allow rep = take SAMPLE_CAP (filter (flips E L A B Deny Allow) reqs)"

lemma record_change_exact:
  assumes "exact_report E L A B done rep" "verdict E L A req = Some e" "verdict E L B req = Some e'"
  shows "exact_report E L A B (done @ [req]) (record_change req (classify e e') rep)"
  using assms by (cases e; cases e') (auto simp: exact_report_def record_change_def classify_def flips_def)

lemma replay_exact:
  assumes "az_cache A = None" "az_cache B = None" "replay_all E L A B reqs rep = Some (Inr rep')" "exact_report E L A B done rep"
  shows "exact_report E L A B (done @ reqs) rep' \<and> (\<forall>req \<in> set reqs. verdict E L A req \<noteq> None \<and> verdict E L B req \<noteq> None)"
  using assms(3,4)
proof (induction reqs arbitrary: rep "done")
  case (Cons req reqs)
  obtain es where es: "build_entities L (rr_entities req) = Inr es" using Cons.prems(1) by (auto split: sum.splits)
  obtain r r' where a: "authorize E A 0 0 (rr_request req) es = Some (r, A)" "authorize E B 0 0 (rr_request req) es = Some (r', B)"
    using uncached_authorize [OF assms(1)] uncached_authorize [OF assms(2)] by metis
  obtain d d' where r: "r = Inr d" "r' = Inr d'" using Cons.prems(1) es a by (auto split: sum.splits)
  then have v: "verdict E L A req = Some (dn_effect d)" "verdict E L B req = Some (dn_effect d')"
    using uncached_verdict [OF assms(1) es a(1)] uncached_verdict [OF assms(2) es a(2)] by simp_all
  have "replay_all E L A B reqs (record_change req (classify (dn_effect d) (dn_effect d')) rep) = Some (Inr rep')"
    using Cons.prems(1) es a r by simp
  from Cons.IH [OF this record_change_exact [OF Cons.prems(2) v]] v show ?case by simp
qed simp

section \<open>The store of a bundle\<close>

lemma pad3_digits: "c \<in> set (pad3 i) \<Longrightarrow> digit_value c \<noteq> None"
proof -
  have "c \<in> set (show_nat n) \<Longrightarrow> digit_value c \<noteq> None" for n
  proof (induction n rule: less_induct)
    case (less n)
    then show ?case using less.IH [of "n div 10"] by (cases "n < 10") (auto simp: show_nat.simps [of n] digit_value_digit_char)
  qed
  moreover have "digit_value CHR ''0'' = Some 0" by code_simp
  ultimately show "c \<in> set (pad3 i) \<Longrightarrow> digit_value c \<noteq> None" by (auto simp: pad3_def Let_def)
qed

lemma parse_zeros: "parse_digits m 0 (replicate k CHR ''0'' @ s) = parse_digits m 0 s"
proof -
  have "digit_value CHR ''0'' = Some 0" by code_simp
  then show ?thesis by (induction k) simp_all
qed

lemma policy_file_name_inj: "policy_file_name i a = policy_file_name j b \<Longrightarrow> i = j"
proof -
  assume e: "policy_file_name i a = policy_file_name j b"
  have u: "CHR ''_'' \<notin> set (pad3 k)" for k
  proof -
    have "digit_value CHR ''_'' = None" by code_simp
    then show ?thesis using pad3_digits by blast
  qed
  have "split_once CHR ''_'' (policy_file_name k x) = Some (pad3 k, x @ ''.cedar'')" for k x
    using split_once_append [OF u, of k "x @ ''.cedar''"] by (simp add: policy_file_name_def)
  then have "pad3 i = pad3 j" using e by (metis fst_conv option.inject)
  moreover have "parse_digits (max i j) 0 (pad3 k) = Some k" if "k \<le> max i j" for k
    using parse_digits_show_nat [OF that] parse_zeros by (simp add: pad3_def Let_def)
  ultimately show "i = j" by (metis max.cobounded1 max.cobounded2 option.inject)
qed

lemma extension_cedar: "s \<noteq> [] \<Longrightarrow> extension (s @ ''.cedar'') = Some ''cedar''"
proof -
  assume s: "s \<noteq> []"
  have d: "s @ ''.cedar'' \<noteq> ''..''" by (cases s rule: rev_cases) auto
  have "takeWhile (\<lambda>c. c \<noteq> CHR ''.'') (rev (s @ ''.cedar'')) = ''radec''" by simp
  then have "rsplit_dot (s @ ''.cedar'') = (Some s, Some ''cedar'')" using s d by (simp add: rsplit_dot_def Let_def)
  then show ?thesis by (simp add: extension_def)
qed

lemma join_path_slash: "d \<noteq> [] \<Longrightarrow> \<exists>e. join_path d name = e @ CHR ''/'' # name"
  by (cases d rule: rev_cases) (auto simp: join_path_def)

lemma bundle_file_is_policy:
  assumes "CHR ''/'' \<notin> set ident" "dir \<noteq> []"
  shows "is_policy_file (join_path dir (policy_file_name i ident), True)"
proof -
  obtain e where e: "join_path dir (policy_file_name i ident) = e @ CHR ''/'' # policy_file_name i ident"
    using join_path_slash [OF assms(2)] by blast
  have "digit_value CHR ''/'' = None" by code_simp
  then have "CHR ''/'' \<notin> set (policy_file_name i ident)" using assms(1) pad3_digits [of "CHR ''/''" i] by (auto simp: policy_file_name_def)
  then have "last (split_on CHR ''/'' (join_path dir (policy_file_name i ident))) = policy_file_name i ident"
    by (simp add: e split_on_join split_on_no_sep del: split_on.simps)
  moreover have "extension (policy_file_name i ident) = Some ''cedar''"
    using extension_cedar [of "pad3 i @ ''_'' @ ident"] by (simp add: policy_file_name_def)
  ultimately show ?thesis by (simp add: is_policy_file_def del: split_on.simps)
qed

lemma written_files:
  assumes "write_bundle_policies io dir i ps = Inr files" "dir \<noteq> []"
  shows "map snd files = map np_source ps \<and> distinct (map fst files) \<and>
    (\<forall>f \<in> set (map fst files). is_policy_file (f, True) \<and> (\<exists>j x. i \<le> j \<and> f = join_path dir (policy_file_name j x)))"
  using assms
proof (induction ps arbitrary: i files)
  case (Cons p ps)
  obtain rest where r: "CHR ''/'' \<notin> set (np_id p)" "write_bundle_policies io dir (i + 1) ps = Inr rest"
      "files = (join_path dir (policy_file_name i (np_id p)), np_source p) # rest"
    using Cons.prems(1) by (auto simp: result_simps split: if_splits)
  note IH = Cons.IH [OF r(2) Cons.prems(2)]
  have "join_path dir (policy_file_name i (np_id p)) \<noteq> join_path dir (policy_file_name j x)" if "i + 1 \<le> j" for j x
    using policy_file_name_inj [of i "np_id p" j x] that Cons.prems(2) by (auto simp: join_path_def split: if_splits)
  then have "join_path dir (policy_file_name i (np_id p)) \<notin> set (map fst rest)" using IH by metis
  moreover have "\<exists>j x. i \<le> j \<and> f = join_path dir (policy_file_name j x)" if "f \<in> set (map fst rest)" for f
    using IH that by (metis add_leD1)
  ultimately show ?case using IH bundle_file_is_policy [OF r(1) Cons.prems(2), of i] by (auto simp: r(3))
qed simp

lemma policy_not_schema: "join_path (policies_dir root) name \<noteq> schema_path root"
proof -
  obtain R where R: "policies_dir root = R @ ''policies''" "schema_path root = R @ ''schema.cedarschema''"
    by (cases "root = []"; cases "last root = CHR ''/''")
      (fastforce simp: policies_dir_def schema_path_def join_path_def)+
  then show ?thesis by (simp add: join_path_def)
qed

text \<open>The authorizer of a bundle: its schema, and the merge of its policies in some order.\<close>

definition of_bundle :: "('s, 'p, 'e) cedar_loader \<Rightarrow> policy_bundle \<Rightarrow> ('s, 'p, 'l) authorizer \<Rightarrow> bool" where
  "of_bundle L b A \<longleftrightarrow> az_cache A = None \<and> (\<exists>s. cl_schema L (bn_schema_source b) = Inr s \<and> az_schema A = Some s) \<and>
    (\<exists>srcs. mset (map ps_text srcs) = mset (map np_source (bn_policies b)) \<and> merge_sources L (cl_empty L) srcs = Inr (az_policies A))"

lemma bundle_sources:
  assumes f: "write_bundle_policies io (policies_dir root) 0 ps = Inr files" and l: "load_policies L (bundle_disk root schema files) = Inr (P, srcs)"
  shows "mset (map ps_text srcs) = mset (map np_source ps) \<and> merge_sources L (cl_empty L) srcs = Inr P"
proof -
  let ?D = "bundle_disk root schema files" and ?key = "\<lambda>s. split_on CHR ''/'' (ps_path s)"
  have d: "policies_dir root \<noteq> []" by (simp add: policies_dir_def join_path_def)
  note F = written_files [OF f d]
  obtain us where w: "walk_policies (cl_utf8_error L) (sd_read ?D) 0 0 0 (sd_entries ?D) = Inr us"
      and srcs: "srcs = sort_key ?key us" and m: "merge_sources L (cl_empty L) srcs = Inr P"
    using l unfolding load_policies_def Let_def by (auto simp: and_then_Inr bundle_disk_def simp del: split_on.simps)
  have W: "map ps_path us = map fst (filter is_policy_file (map projr (sd_entries ?D)))" "\<forall>s \<in> set us. sd_read ?D (ps_path s) = Inr (ps_text s)"
    using walk_policies_Inr [OF w] by simp_all
  have "filter is_policy_file (map projr (sd_entries ?D)) = map (\<lambda>f. (fst f, True)) files"
    using F by (auto simp: bundle_disk_def is_policy_file_def [of ] case_prod_unfold o_def simp del: split_on.simps intro!: filter_True)
  then have p: "map ps_path us = map fst files" using W(1) by (simp add: o_def)
  have "ps_text (us ! i) = snd (files ! i)" if "i < length us" for i
  proof -
    have i: "i < length files" using p that by (metis length_map)
    then have path: "ps_path (us ! i) = fst (files ! i)" using p that by (metis nth_map)
    have "map_of files (fst (files ! i)) = Some (snd (files ! i))" using F i by (simp add: map_of_is_SomeI)
    moreover have "fst (files ! i) \<noteq> schema_path root" using F i policy_not_schema by (metis length_map nth_map nth_mem)
    ultimately have "sd_read ?D (ps_path (us ! i)) = Inr (snd (files ! i))" by (simp add: bundle_disk_def path)
    then show ?thesis using W(2) that by simp
  qed
  then have "map ps_text us = map snd files" using p by (metis (no_types, lifting) length_map list_eq_iff_nth_eq nth_map)
  then have "mset (map ps_text us) = mset (map np_source ps)" using F by metis
  moreover have "mset (map ps_text srcs) = mset (map ps_text us)" by (simp add: srcs)
  ultimately show ?thesis using m by simp
qed

lemma build_authorizer_bundle:
  assumes "build_authorizer L io b = Inr A"
  shows "of_bundle L b A"
proof -
  obtain root files P srcs schema where
      f: "write_bundle_policies io (policies_dir root) 0 (bn_policies b) = Inr files"
      and l: "load_policies L (bundle_disk root (bn_schema_source b) files) = Inr (P, srcs)"
      and s: "load_schema L (bundle_disk root (bn_schema_source b) files) root = Inr schema"
      and A: "A = \<lparr>az_schema = map_option fst schema, az_policies = P, az_cache = None\<rparr>"
    using assms by (auto simp: build_authorizer_def result_simps authorizer_new_def store_open_def Let_def bundle_disk_def)
  have "\<exists>c. schema = Some (c, bn_schema_source b) \<and> cl_schema L (bn_schema_source b) = Inr c"
    using s by (auto simp: load_schema_def bundle_disk_def result_simps read_bounded_text_Inr)
  then show ?thesis using bundle_sources [OF f l] A by (auto simp: of_bundle_def)
qed

text \<open>
  C27: the blast radius is exact.  When an analysis returns a report, the authorizers it compared have
  the schema and all policies of the two bundles, every replayed request got a decision from
  both, and the report counts exactly the requests that change in either direction, with the
  first ten of each as samples; an analysis never panics.
\<close>

theorem blast_radius_exact:
  fixes E :: "('s, 'c, 'p, 'e, 'l) engine_env"
  shows "case analyze E L io io' old new replay of
     None \<Rightarrow> False
   | Some (Inl _) \<Rightarrow> True
   | Some (Inr rep) \<Rightarrow> \<exists>A B. of_bundle L old A \<and> of_bundle L new B \<and> exact_report E L A B replay rep \<and> br_total rep = length replay"
proof (cases "and_then (build_authorizer L io old :: string + ('s, 'p, 'l) authorizer) (\<lambda>A. and_then (build_authorizer L io' new) (\<lambda>B :: ('s, 'p, 'l) authorizer. Inr (A, B)))")
  case (Inr AB)
  obtain A B where AB: "AB = (A, B)" by fastforce
  have ob: "of_bundle L old A" "of_bundle L new B" using Inr AB build_authorizer_bundle by (auto simp: result_simps)
  then have c: "az_cache A = None" "az_cache B = None" by (simp_all add: of_bundle_def)
  have a: "analyze E L io io' old new replay = replay_all E L A B replay br_empty" using Inr AB by (simp add: analyze_def)
  obtain x where x: "replay_all E L A B replay br_empty = Some x" using replay_total [OF c] by blast
  show ?thesis
  proof (cases x)
    case r: (Inr rep)
    have "exact_report E L A B [] br_empty" by (simp add: exact_report_def br_empty_def)
    from replay_exact [OF c x [unfolded r] this]
    have e: "exact_report E L A B replay rep" "\<forall>req \<in> set replay. verdict E L A req \<noteq> None \<and> verdict E L B req \<noteq> None" by simp_all
    have "length (filter (\<lambda>r. flips E L A B Allow Allow r \<or> flips E L A B Deny Deny r) rs) + length (filter (flips E L A B Allow Deny) rs)
        + length (filter (flips E L A B Deny Allow) rs) = length rs" if "\<forall>req \<in> set rs. verdict E L A req \<noteq> None \<and> verdict E L B req \<noteq> None" for rs
      using that
    proof (induction rs)
      case (Cons r rs)
      then obtain e e' where "verdict E L A r = Some e" "verdict E L B r = Some e'" by auto
      then show ?case using Cons by (cases e; cases e') (auto simp: flips_def)
    qed simp
    then have "br_total rep = length replay" using e by (simp add: exact_report_def br_total_def)
    then show ?thesis using a x r e ob by auto
  qed (use a x in simp)
qed (simp add: analyze_def)

section \<open>Findings\<close>

text \<open>The text printed for a removed policy is empty, whatever it said.\<close>

theorem removed_policy_diff_empty:
  assumes "differ_ok differ" "source_of old i = Some s" "source_of new i = None"
  shows "(i, []) \<in> set (diff_bundles differ old new)"
proof -
  have "differ [] [] = []"
  proof (rule ccontr)
    assume "differ [] [] \<noteq> []"
    then obtain c where "c \<in> set (differ [] [])" by (cases "differ [] []") auto
    then show False using differ_sides [OF assms(1), of "[]" "[]"] by (cases "fst c") (force simp: filter_empty_conv)+
  qed
  then show ?thesis using assms by (simp add: in_diff_bundles line_diff_def)
qed

section \<open>Witnesses\<close>

definition demo_bundle :: "nat \<Rightarrow> string \<Rightarrow> policy_bundle" where
  "demo_bundle v src = \<lparr>bn_version = v, bn_tenant_id = ''t'', bn_schema_hash = [], bn_policies_hash = [], bn_created_at = 0, bn_created_by = ''ops'',
    bn_signature = None, bn_schema_source = ''entity User;'', bn_policies = [\<lparr>np_id = ''p'', np_source = src\<rparr>]\<rparr>"

definition demo_differ :: line_differ where
  "demo_differ a b = (if a = b then map (Pair ChangeEqual) (split_lines a)
    else map (Pair ChangeDelete) (split_lines a) @ map (Pair ChangeInsert) (split_lines b))"

lemma demo_differ_ok: "differ_ok demo_differ"
  by (simp add: differ_ok_def demo_differ_def filter_map o_def)


definition demo_bundle_io :: bundle_io where
  "demo_bundle_io = \<lparr>bi_tempdir = Inr ''t'', bi_mkdir = Inr (), bi_write_schema = Inr (), bi_write = (\<lambda>_. Inr ())\<rparr>"

definition demo_replay :: replay_request where
  "demo_replay = \<lparr>rr_request = sample_request ''alice'', rr_entities = [], rr_old_effect = ''deny''\<rparr>"

lemma demo_built: "build_authorizer (pe_loader demo_pdp) demo_bundle_io (demo_bundle v ''permit'') = Inr \<lparr>az_schema = Some (), az_policies = (), az_cache = None\<rparr>"
proof -
  have f: "is_policy_file (''t/policies'', False) = False" "is_policy_file (''t/policies/000_p.cedar'', True)" by code_simp+
  have u: "utf8_valid ''permit''" "utf8_valid ''entity User;''" by code_simp+
  have n: "join_path ''t/policies'' (policy_file_name 0 ''p'') = ''t/policies/000_p.cedar''" "policies_dir ''t'' = ''t/policies''"
    "schema_path ''t'' = ''t/schema.cedarschema''" by code_simp+
  show ?thesis
    by (simp add: build_authorizer_def demo_bundle_io_def demo_bundle_def n store_open_def bundle_disk_def authorizer_new_def load_policies_def load_schema_def
        read_bounded_text_def u f MAX_POLICY_TREE_ENTRIES_def MAX_POLICY_FILES_def MAX_POLICY_FILE_BYTES_def MAX_SCHEMA_BYTES_def
        MAX_TOTAL_POLICY_BYTES_def u64_max_def Let_def demo_pdp_def del: split_on.simps utf8_valid.simps)
qed

lemma demo_analysis:
  "analyze (pe_engine demo_pdp) (pe_loader demo_pdp) demo_bundle_io demo_bundle_io (demo_bundle 1 ''permit'') (demo_bundle 2 ''permit'') [demo_replay]
    = Some (Inr (br_empty\<lparr>br_unchanged := 1\<rparr>))"
proof -
  let ?A = "\<lparr>az_schema = Some (), az_policies = (), az_cache = None\<rparr> :: (unit, unit, list_lru) authorizer"
  have "\<exists>d. authorize (pe_engine demo_pdp) ?A 0 0 (rr_request demo_replay) () = Some (Inr d, ?A) \<and> dn_effect d = Deny"
    by (simp add: authorize_def cache_lookup_def to_cedar_request_def demo_pdp_def sample_engine_def sample_cedar_def Let_def)
  moreover have "build_entities (pe_loader demo_pdp) (rr_entities demo_replay) = Inr ()"
    by (simp add: build_entities_def demo_replay_def demo_pdp_def)
  ultimately show ?thesis by (auto simp: analyze_def demo_built record_change_def classify_def br_empty_def)
qed

theorem blast_radius_exact_witness:
  "\<exists>A B. of_bundle (pe_loader demo_pdp) (demo_bundle 1 ''permit'') A \<and> of_bundle (pe_loader demo_pdp) (demo_bundle 2 ''permit'') B \<and>
    exact_report (pe_engine demo_pdp) (pe_loader demo_pdp) A B [demo_replay] (br_empty\<lparr>br_unchanged := 1\<rparr>)"
  using blast_radius_exact [where E = "pe_engine demo_pdp" and L = "pe_loader demo_pdp" and io = demo_bundle_io and io' = demo_bundle_io and
      old = "demo_bundle 1 ''permit''" and new = "demo_bundle 2 ''permit''" and replay = "[demo_replay]"]
  unfolding demo_analysis by auto

end
