(* ===== verification/Federation.thy ===== *)
theory Federation
  imports Jwt
begin

text \<open>
  Identity from elsewhere (\<open>agentguard-auth/src/oidc.rs\<close> and \<open>spiffe.rs\<close>): discovery of an OpenID
  provider, which gives a validator for its tokens, and the identities of SPIFFE workloads.

  What the network answers to each request, the X.509 parser, the SPIFFE client and the JSON
  package are parameters.
\<close>

section \<open>OpenID discovery\<close>

record oidc_config =
  oc_issuer :: string
  oc_audience :: string
  oc_algorithms :: "algorithm list"

definition oidc_config_new :: "string \<Rightarrow> string \<Rightarrow> oidc_config" where
  "oidc_config_new issuer audience = \<lparr>oc_issuer = issuer, oc_audience = audience, oc_algorithms = [EdDSA, RS256]\<rparr>"

record oidc_metadata =
  om_issuer :: string
  om_jwks_uri :: string
  om_authorization_endpoint :: "string option"
  om_token_endpoint :: "string option"
  om_introspection_endpoint :: "string option"

text \<open>
  One request: a response of a successful status with the outcome of reading its body, one with a
  server error, any other one, a failure to connect in time, or any other failure.
\<close>

datatype http_attempt =
    GotSuccess "string + string"
  | GotServerError string
  | GotStatus string
  | TransientFailure string
  | OtherFailure string

text \<open>The loop with its attempt, and the backoffs slept in milliseconds.\<close>

definition backoff_ms :: "nat \<Rightarrow> nat" where
  "backoff_ms attempt = 250 * 2 ^ (attempt - 1)"

function discovery_fetch :: "(nat \<Rightarrow> http_attempt) \<Rightarrow> nat \<Rightarrow> (string + string) auth_result \<times> nat list" where
  "discovery_fetch net attempt =
    (case net attempt of
       GotSuccess body \<Rightarrow> (Inr body, [])
     | GotServerError st \<Rightarrow>
         if attempt < 3 then (let (r, slept) = discovery_fetch net (attempt + 1) in (r, backoff_ms attempt # slept))
         else (Inl (OidcDiscovery (''HTTP '' @ st @ '' after '' @ show_nat attempt @ '' attempt(s)'')), [])
     | GotStatus st \<Rightarrow> (Inl (OidcDiscovery (''HTTP '' @ st @ '' after '' @ show_nat attempt @ '' attempt(s)'')), [])
     | TransientFailure e \<Rightarrow>
         if attempt < 3 then (let (r, slept) = discovery_fetch net (attempt + 1) in (r, backoff_ms attempt # slept))
         else (Inl (OidcDiscovery e), [])
     | OtherFailure e \<Rightarrow> (Inl (OidcDiscovery e), []))"
  by pat_completeness auto
termination by (relation "measure (\<lambda>(net, attempt). 3 - attempt)") auto

declare discovery_fetch.simps [simp del]

definition trim_end_slashes :: "string \<Rightarrow> string" where
  "trim_end_slashes s = rev (dropWhile (\<lambda>c. c = CHR ''/'') (rev s))"

definition discovery_url :: "oidc_config \<Rightarrow> string" where
  "discovery_url c = trim_end_slashes (oc_issuer c) @ ''/.well-known/openid-configuration''"

definition discovered_config :: "oidc_config \<Rightarrow> oidc_metadata \<Rightarrow> jwt_config" where
  "discovered_config c meta =
    (with_jwks_uri (with_algorithms_lossy (jwt_config_new (oc_issuer c) (oc_audience c)) (oc_algorithms c)) (om_jwks_uri meta))
      \<lparr>jc_clock_skew := 60 * 10 ^ 9\<rparr>"

record oidc_env =
  oe_jws :: jws_env
  oe_sha256 :: "string \<Rightarrow> string"
  oe_client :: "string + unit"
  oe_net :: "string \<Rightarrow> nat \<Rightarrow> http_attempt"
  oe_metadata :: "string \<Rightarrow> string + oidc_metadata"
  oe_jwks :: "string \<Rightarrow> jwks_reply"
  oe_parse_jwks :: "string \<Rightarrow> string + jwks_key list"

definition read_metadata :: "oidc_env \<Rightarrow> oidc_config \<Rightarrow> oidc_metadata auth_result" where
  "read_metadata N c =
    and_then (map_err (\<lambda>e. OidcDiscovery (''client build: '' @ e)) (oe_client N)) (\<lambda>_.
    and_then (fst (discovery_fetch (oe_net N (discovery_url c)) 1)) (\<lambda>resp.
    and_then (map_err OidcDiscovery resp) (\<lambda>body.
    if length body > 1048576 then Inl (OidcDiscovery ''discovery document exceeds 1 MiB'')
    else
      and_then (map_err (\<lambda>e. OidcDiscovery (''parse: '' @ e)) (oe_metadata N body)) (\<lambda>meta.
      if om_issuer meta \<noteq> oc_issuer c then
        Inl (OidcDiscovery (''issuer mismatch: configured='' @ oc_issuer c @ '' discovered='' @ om_issuer meta))
      else Inr meta))))"

definition discover :: "oidc_env \<Rightarrow> oidc_config \<Rightarrow> (jwt_validator \<times> oidc_metadata) auth_result" where
  "discover N c =
    and_then (read_metadata N c) (\<lambda>meta.
    let (r, V) = refresh_jwks (oe_jws N) (oe_sha256 N) (oe_jwks N) (oe_parse_jwks N) (validator_new (discovered_config c meta))
    in and_then r (\<lambda>_. Inr (V, meta)))"

section \<open>SPIFFE identities\<close>

record spiffe_validator =
  sf_allowed_trust_domains :: "string list"
  sf_clock_skew :: duration
  sf_workload_endpoint :: string

definition spiffe_new :: "string \<Rightarrow> spiffe_validator" where
  "spiffe_new domain = \<lparr>sf_allowed_trust_domains = [domain], sf_clock_skew = 60 * 10 ^ 9,
    sf_workload_endpoint = ''unix:///run/spire/sockets/agent.sock''\<rparr>"

definition allow_trust_domain :: "string \<Rightarrow> spiffe_validator \<Rightarrow> spiffe_validator" where
  "allow_trust_domain domain v = v\<lparr>sf_allowed_trust_domains := sf_allowed_trust_domains v @ [domain]\<rparr>"

definition validate_spiffe_id :: "spiffe_validator \<Rightarrow> string \<Rightarrow> unit auth_result" where
  "validate_spiffe_id v ident =
    and_then (ok_or (SpiffeFetch (''invalid SPIFFE ID (missing scheme): '' @ ident)) (strip_prefix ''spiffe://'' ident)) (\<lambda>rest.
    let domain = hd (split_on CHR ''/'' rest) in
    if domain \<notin> set (sf_allowed_trust_domains v) then Inl (SpiffeFetch (''trust domain '' @ domain @ '' not in allowlist''))
    else Inr ())"

text \<open>The answer of the workload API, with the certificate and the identity it names.\<close>

datatype workload_reply = WorkloadTimeout | ConnectFailed string | SvidFailed string | Svid (svid_leaf: string) (svid_id: string)

text \<open>
  The time package: which instants it can represent, in nanoseconds since the epoch, and how it
  prints them; a sum out of its range panics, the value \<open>None\<close>.
\<close>

record spiffe_env =
  sp_reply :: "string \<Rightarrow> workload_reply"
  sp_certificate :: "string \<Rightarrow> string + int \<times> int"
  sp_representable :: "int \<Rightarrow> bool"
  sp_rfc3339 :: "int \<Rightarrow> string"

definition from_timestamp :: "spiffe_env \<Rightarrow> int \<Rightarrow> int option" where
  "from_timestamp S secs = (if sp_representable S (secs * 10 ^ 9) then Some (secs * 10 ^ 9) else None)"

definition time_add :: "spiffe_env \<Rightarrow> int \<Rightarrow> int \<Rightarrow> int option" where
  "time_add S t d = (if sp_representable S (t + d) then Some (t + d) else None)"

text \<open>A skew that is no signed number of milliseconds is taken for zero.\<close>

definition spiffe_skew :: "spiffe_validator \<Rightarrow> int" where
  "spiffe_skew v = (if int (sf_clock_skew v div 10 ^ 6) \<le> i64_max then int (sf_clock_skew v) else 0)"

definition check_validity :: "spiffe_env \<Rightarrow> spiffe_validator \<Rightarrow> int \<Rightarrow> int \<times> int \<Rightarrow> unit auth_result option" where
  "check_validity S v now = (\<lambda>(not_before, not_after).
    case from_timestamp S not_after of
      None \<Rightarrow> Some (Inl (SpiffeFetch ''invalid SVID not-after timestamp''))
    | Some na \<Rightarrow>
      Option.bind (time_add S na (spiffe_skew v)) (\<lambda>limit.
      if limit < now then Some (Inl (SpiffeFetch (''SVID expired at '' @ sp_rfc3339 S na)))
      else case from_timestamp S not_before of
        None \<Rightarrow> Some (Inl (SpiffeFetch ''invalid SVID not-before timestamp''))
      | Some nb \<Rightarrow>
        Option.bind (time_add S now (spiffe_skew v)) (\<lambda>horizon.
        if nb > horizon then Some (Inl (SpiffeFetch (''SVID not valid until '' @ sp_rfc3339 S nb)))
        else Some (Inr ()))))"

definition fetch_svid :: "spiffe_env \<Rightarrow> spiffe_validator \<Rightarrow> int \<Rightarrow> string auth_result option" where
  "fetch_svid S v now =
    (case sp_reply S (sf_workload_endpoint v) of
       WorkloadTimeout \<Rightarrow> Some (Inl (SpiffeFetch (''timed out fetching SVID from SPIFFE Workload API at '' @ sf_workload_endpoint v)))
     | ConnectFailed e \<Rightarrow> Some (Inl (SpiffeFetch (''workload api connect: '' @ e)))
     | SvidFailed e \<Rightarrow> Some (Inl (SpiffeFetch (''fetch x509-svid: '' @ e)))
     | Svid leaf ident \<Rightarrow>
       (case sp_certificate S leaf of
          Inl e \<Rightarrow> Some (Inl (SpiffeFetch (''parse SVID certificate: '' @ e)))
        | Inr validity \<Rightarrow>
          map_option (\<lambda>r. and_then r (\<lambda>_. and_then (validate_spiffe_id v ident) (\<lambda>_. Inr ident))) (check_validity S v now validity)))"

section \<open>What discovery trusts\<close>

text \<open>At most three requests, the backoffs between them, and an answer that came from one of them.\<close>

definition fetch_ok :: "(nat \<Rightarrow> http_attempt) \<Rightarrow> nat \<Rightarrow> (string + string) auth_result \<times> nat list \<Rightarrow> bool" where
  "fetch_ok net attempt = (\<lambda>(r, slept). (\<exists>k. attempt + k \<le> 3 \<and> slept = map backoff_ms [attempt ..< attempt + k]) \<and>
    (\<forall>body. r = Inr body \<longrightarrow> (\<exists>a. attempt \<le> a \<and> a \<le> 3 \<and> net a = GotSuccess body)))"

lemma fetch_ok_later:
  assumes "fetch_ok net (attempt + 1) (r, slept)"
  shows "fetch_ok net attempt (r, backoff_ms attempt # slept)"
proof -
  obtain k where k: "attempt + 1 + k \<le> 3" "slept = map backoff_ms [attempt + 1 ..< attempt + 1 + k]"
      and r: "\<forall>body. r = Inr body \<longrightarrow> (\<exists>a. attempt + 1 \<le> a \<and> a \<le> 3 \<and> net a = GotSuccess body)"
    using assms unfolding fetch_ok_def prod.case by blast
  have "[attempt ..< attempt + Suc k] = attempt # [attempt + 1 ..< attempt + 1 + k]" by (subst upt_conv_Cons) simp_all
  then have "backoff_ms attempt # slept = map backoff_ms [attempt ..< attempt + Suc k]" using k(2) by (simp del: upt_Suc)
  then have "\<exists>k. attempt + k \<le> 3 \<and> backoff_ms attempt # slept = map backoff_ms [attempt ..< attempt + k]" using k(1) by (intro exI [of _ "Suc k"]) simp
  moreover have "\<exists>a. attempt \<le> a \<and> a \<le> 3 \<and> net a = GotSuccess body" if "r = Inr body" for body
    using r that add_leD1 by blast
  ultimately show ?thesis by (simp add: fetch_ok_def)
qed

lemma fetch_ok_now: "attempt \<le> 3 \<Longrightarrow> (\<forall>body. r = Inr body \<longrightarrow> net attempt = GotSuccess body) \<Longrightarrow> fetch_ok net attempt (r, [])"
  by (auto simp: fetch_ok_def intro: exI [of _ 0])

lemma discovery_fetch_bounded: "attempt \<le> 3 \<Longrightarrow> fetch_ok net attempt (discovery_fetch net attempt)"
proof (induction net attempt rule: discovery_fetch.induct)
  case (1 net attempt)
  obtain r slept where f: "discovery_fetch net (attempt + 1) = (r, slept)" by fastforce
  have later: "fetch_ok net attempt (r, backoff_ms attempt # slept)"
    if "attempt < 3" "fetch_ok net (attempt + 1) (discovery_fetch net (attempt + 1))"
    using fetch_ok_later that f by simp
  show ?case
  proof (cases "net attempt")
    case (GotServerError st)
    then show ?thesis using later "1.IH"(1) [of st] fetch_ok_now [OF "1.prems"] f
      by (cases "attempt < 3"; subst discovery_fetch.simps) simp_all
  next
    case (TransientFailure e)
    then show ?thesis using later "1.IH"(2) [of e] fetch_ok_now [OF "1.prems"] f
      by (cases "attempt < 3"; subst discovery_fetch.simps) simp_all
  qed (use "1.prems" fetch_ok_now in \<open>simp_all add: discovery_fetch.simps [of net attempt]\<close>)
qed

section \<open>What is trusted\<close>

text \<open>The keys of a registry come from a key set.\<close>

definition keys_from :: "jws_env \<Rightarrow> jwks_key list \<Rightarrow> key_registry \<Rightarrow> bool" where
  "keys_from E ks r \<longleftrightarrow> (\<forall>kid. \<forall>e \<in> set (kid_entries r kid). ke_alg e = EdDSA \<and>
    (\<exists>k \<in> set ks. \<exists>x raw. jk_x k = Some x \<and> b64_decode E x = Inr raw \<and> length raw = 32 \<and> ke_key e = Ed25519 raw))"

lemma keys_from_add:
  assumes "registry_inv r" "keys_from E ks r" "k \<in> set ks" "jk_x k = Some x" "b64_decode E x = Inr raw" "length raw = 32"
  shows "keys_from E ks (registry_add r kid EdDSA (Ed25519 raw))"
proof -
  have "e = new_entry kid EdDSA (Ed25519 raw) \<or> e \<in> set (kid_entries r kid')"
    if "e \<in> set (kid_entries (registry_add r kid EdDSA (Ed25519 raw)) kid')" for e kid'
    using that kid_entries_reserve [OF assms(1), of kid]
    by (auto simp: registry_add_def Let_def kid_entries_update split: if_splits)
  then show ?thesis using assms(2-) unfolding keys_from_def by (fastforce simp: new_entry_def)
qed

lemma keys_from_register:
  assumes "registry_inv r \<and> keys_from E ks r" "k \<in> set ks"
  shows "registry_inv (register_jwk E sha k r) \<and> keys_from E ks (register_jwk E sha k r)"
  using assms registry_inv_add keys_from_add by (auto simp: register_jwk_def Let_def split: option.split sum.split)

lemma keys_from_fold:
  "registry_inv r \<and> keys_from E ks r \<Longrightarrow> set js \<subseteq> set ks \<Longrightarrow>
    registry_inv (fold (register_jwk E sha) js r) \<and> keys_from E ks (fold (register_jwk E sha) js r)"
proof (induction js arbitrary: r)
  case (Cons j js)
  then show ?case using keys_from_register [of r E ks j sha] by simp
qed simp

lemma keys_from_new: "registry_inv registry_new \<and> keys_from E ks registry_new"
proof
  show "registry_inv registry_new" unfolding registry_new_def by (rule registry_inv_with_cap)
qed (simp add: registry_new_def keys_from_def kid_entries_def with_cap_def)

lemma discover_Inr:
  assumes "discover N c = Inr (V, meta)"
  obtains jbody ks where "read_metadata N c = Inr meta" "jv_config V = discovered_config c meta"
    "oe_jwks N (om_jwks_uri meta) = JwksBody jbody" "length jbody \<le> 1048576" "oe_parse_jwks N jbody = Inr ks" "length ks \<le> 64"
    "keys_from (oe_jws N) ks (jv_keys V)"
proof -
  have m: "read_metadata N c = Inr meta"
      "refresh_jwks (oe_jws N) (oe_sha256 N) (oe_jwks N) (oe_parse_jwks N) (validator_new (discovered_config c meta)) = (Inr (), V)"
    using assms by (auto simp: discover_def result_simps Let_def case_prod_unfold prod_eq_iff)
  have uri: "jc_jwks_uri (jv_config (validator_new (discovered_config c meta))) = Some (om_jwks_uri meta)"
    by (simp add: validator_new_def discovered_config_def with_jwks_uri_def)
  obtain jbody ks where j: "oe_jwks N (om_jwks_uri meta) = JwksBody jbody" "length jbody \<le> 1048576" "oe_parse_jwks N jbody = Inr ks"
      "length ks \<le> 64" "V = (validator_new (discovered_config c meta))\<lparr>jv_keys := fold (register_jwk (oe_jws N) (oe_sha256 N)) ks registry_new\<rparr>"
    using m(2) uri by (auto simp: refresh_jwks_def validator_new_def not_less split: jwks_reply.splits if_splits sum.splits)
  have "keys_from (oe_jws N) ks (jv_keys V)" using keys_from_fold [OF keys_from_new] j(5) by simp
  moreover have "jv_config V = discovered_config c meta" using j(5) by (simp add: validator_new_def)
  ultimately show ?thesis using that m(1) j by blast
qed


text \<open>
  An identity that is fetched is in an allowed trust domain, and its certificate is valid now up to
  the skew.
\<close>

theorem spiffe_identity_allowed:
  assumes "fetch_svid S v now = Some (Inr ident)"
  shows "\<exists>domain rest nb na leaf. strip_prefix ''spiffe://'' ident = Some rest \<and> hd (split_on CHR ''/'' rest) = domain \<and>
    domain \<in> set (sf_allowed_trust_domains v) \<and> sp_reply S (sf_workload_endpoint v) = Svid leaf ident \<and>
    sp_certificate S leaf = Inr (nb, na) \<and> nb * 10 ^ 9 \<le> now + spiffe_skew v \<and> now \<le> na * 10 ^ 9 + spiffe_skew v"
  using assms
  by (auto simp: fetch_svid_def check_validity_def validate_spiffe_id_def from_timestamp_def time_add_def result_simps Let_def not_less bind_eq_Some_conv
      split: workload_reply.splits sum.splits option.splits if_splits)

definition demo_provider :: oidc_env where
  "demo_provider = \<lparr>oe_jws = jw_jws jwt_demo, oe_sha256 = (\<lambda>s. s), oe_client = Inr (),
    oe_net = (\<lambda>_ a. if a = 2 then GotSuccess (Inr ''doc'') else GotServerError ''503''),
    oe_metadata = (\<lambda>_. Inr \<lparr>om_issuer = ''idp'', om_jwks_uri = ''u'', om_authorization_endpoint = None, om_token_endpoint = None, om_introspection_endpoint = None\<rparr>),
    oe_jwks = (\<lambda>_. JwksBody ''keys''),
    oe_parse_jwks = (\<lambda>_. Inr [\<lparr>jk_kty = None, jk_key_type = None, jk_alg = ''EdDSA'', jk_kid = Some ''k1'', jk_n = None, jk_e = None,
      jk_x = Some (tilde_encode (replicate 32 CHR ''k'')), jk_y = None, jk_crv = None\<rparr>])\<rparr>"

definition demo_discovered :: jwt_validator where
  "demo_discovered = jwt_demo_validator\<lparr>jv_config := (jwt_config_new ''idp'' ''api'')\<lparr>jc_jwks_uri := Some ''u''\<rparr>\<rparr>"

lemma demo_discovers: "\<exists>meta. discover demo_provider (oidc_config_new ''idp'' ''api'') = Inr (demo_discovered, meta)"
proof -
  have "fst (discovery_fetch (oe_net demo_provider url) 1) = Inr (Inr ''doc'')" for url
    by (simp add: demo_provider_def discovery_fetch.simps)
  then obtain meta where m: "read_metadata demo_provider (oidc_config_new ''idp'' ''api'') = Inr meta" "om_jwks_uri meta = ''u''"
    by (simp add: read_metadata_def demo_provider_def oidc_config_new_def)
  have "discovered_config (oidc_config_new ''idp'' ''api'') meta = (jwt_config_new ''idp'' ''api'')\<lparr>jc_jwks_uri := Some ''u''\<rparr>"
    using m(2) by (simp add: discovered_config_def oidc_config_new_def with_jwks_uri_def with_algorithms_lossy_def jwt_config_new_def SUPPORTED_ALGORITHMS_def)
  then show ?thesis using m
    by (simp add: discover_def refresh_jwks_def validator_new_def demo_discovered_def demo_provider_def jwt_demo_validator_def validator_add_key_def
        register_jwk_def parse_alg_def jwt_demo_def demo_env_def tilde_decode_encode)
qed

lemma demo_discovered_validates: "\<exists>v. validate jwt_demo demo_discovered 0 950 jwt_demo_token = Inr v"
proof -
  obtain v where v: "validate jwt_demo jwt_demo_validator 0 950 jwt_demo_token = Inr v" using jwt_demo_validates by blast
  have "jwt_check_header (jv_config demo_discovered) h = jwt_check_header (jv_config jwt_demo_validator) h" for h
    by (simp add: jwt_check_header_def demo_discovered_def jwt_demo_config)
  moreover have s: "jc_issuer (jv_config demo_discovered) = jc_issuer (jv_config jwt_demo_validator)"
      "jc_audience (jv_config demo_discovered) = jc_audience (jv_config jwt_demo_validator)"
      "skew_secs (jv_config demo_discovered) = skew_secs (jv_config jwt_demo_validator)"
    by (simp_all add: skew_secs_def demo_discovered_def jwt_demo_config)
  have "check_claims jwt_demo (jv_config demo_discovered) 950 c = check_claims jwt_demo (jv_config jwt_demo_validator) 950 c" for c
    unfolding check_claims_def s ..
  moreover have "jv_keys demo_discovered = jv_keys jwt_demo_validator" by (simp add: demo_discovered_def)
  ultimately have "validate jwt_demo demo_discovered 0 950 jwt_demo_token = validate jwt_demo jwt_demo_validator 0 950 jwt_demo_token"
    by (simp add: validate_def)
  then show ?thesis using v by simp
qed


end
