(* ===== verification/Spec2Isabelle.thy ===== *)
theory Spec2Isabelle
  imports Prelude Glob Json Constraints AuthKeys CoreError Delegation HashChain Trace Request Cache Engine DecisionRecord LogNames LogFiles DecisionLog
    LogCorrect LogInvariant AuditLog NetAddr Listener Revocation AuthError JtiTracker Jwk Dpop Jwt
    ApiKeys Metrics AuthLayer PolicyStore Authzen Grpc Watchers Serving Startup Bundles Federation
begin

text \<open>
  Verification of agent-guard, an authorization service for AI agents written in Rust (sources under
  \<open>src/crates/\<close>).  A caller asks over HTTP or gRPC whether a principal may perform an action on a
  resource; the server authenticates the caller, has the Cedar policy engine decide, appends the
  decision to a tamper-evident audit log, and answers.  Around this it has delegation grants,
  bearer tokens, API keys, replay protection, a policy store that is reloaded while serving, and
  tools that compare policies.

  \<^bold>\<open>How the code is modelled.\<close>  A Rust \<open>Result\<close> is a sum with the error on the left, \<open>?\<close> is \<open>and_then\<close>, a
  panic is the value \<open>None\<close>.  A string is the list of its UTF-8 bytes.  A hash map is an association
  list with distinct keys.  Integers are numbers with their range or wrap-around written out where
  the code can reach it.  State is passed explicitly; file systems are directories (association lists
  of names and contents) with an oracle that may fail every call.  Clocks, random draws and the
  outcomes of system calls are arguments.  Packages outside \<open>src/\<close> (Cedar, Ed25519, HMAC and SHA-256,
  Argon2, base64, the JSON, UUID, LRU, HTTP and notification packages) are fields of parameter
  records; what the code relies on of them are named hypotheses (\<open>log_env_ok\<close>, \<open>key_env_ok\<close>,
  \<open>engine_ok\<close>, \<open>differ_ok\<close>), and every property that has one has a witness with a concrete instance.

  \<^bold>\<open>Shared theories.\<close>  Prelude: results, 64-bit arithmetic, byte strings, association lists.  Json
  (\<open>decision/canonical.rs\<close>): JSON values and the canonical writer, whose bytes identify a value.
  CoreError and AuthError: the error types.

  \<^bold>\<open>Delegation\<close> (\<open>delegation.rs\<close>, \<open>auth_keys.rs\<close>).  Glob: the two-pointer matcher decides its pattern
  language (interface \<open>scope_matcher\<close>).  Constraints: the constraint language fails closed.  AuthKeys:
  the bounded key registry with rotation.  Delegation: minting, attenuation and verification; a chain
  of attenuated grants never broadens.  Revocation (also \<open>agentguard-redis-store\<close>): the interface
  \<open>revocation_store\<close> and its Redis implementation; a revoked grant never verifies.

  \<^bold>\<open>Decisions\<close> (\<open>principal.rs\<close>, \<open>action.rs\<close>, \<open>resource.rs\<close>, \<open>context.rs\<close>, \<open>request.rs\<close>, \<open>authorize/\<close>, \<open>decision/cache.rs\<close>,
  \<open>policy/store.rs\<close>).  Request: requests and their translation.  Cache: keys that identify the
  question, and the cache under the laws \<open>lru_laws\<close>.  Engine: the cached authorizer refines the engine
  alone in every reachable state (\<open>az_reach\<close>).  PolicyStore: loading is all or nothing.  Trace: trace
  contexts.

  \<^bold>\<open>Audit log\<close> (\<open>decision/chain.rs\<close>, \<open>record.rs\<close>, \<open>formatter.rs\<close>, \<open>log.rs\<close>).  HashChain: tamper evidence up to
  collisions of the keyed hash.  DecisionRecord: records and export formats.  LogNames, LogFiles and
  DecisionLog are the code of the log: names of rotated segments, durable writes and directory
  operations, opening, appending, rotating, reading and verifying.  LogCorrect relates the files to
  the list of appended records, LogInvariant shows that every operation keeps this relation under
  every failure, AuditLog draws the conclusions over all histories (\<open>log_reach\<close>).

  \<^bold>\<open>Authentication\<close> (\<open>agentguard-auth\<close>).  Jwk, Jwt, Dpop, JtiTracker (interface \<open>replay_store\<close>), ApiKeys, and
  Federation (\<open>oidc.rs\<close>, \<open>spiffe.rs\<close>): what an accepted token, proof, key or identity implies, that
  proofs are used once, and that revoked keys stay refused.

  \<^bold>\<open>Server\<close> (\<open>agentguard-server\<close>, \<open>agentguard-telemetry\<close>, \<open>agentguard-policy\<close>).  NetAddr and Listener: addresses,
  configuration and the checks before binding.  AuthLayer: the middleware.  Metrics: bounded counters.
  Authzen: both HTTP handlers, with the audit writer behind the interface \<open>audit_port\<close>, which the decision
  log implements.  Grpc: the second transport answers like the first.  Watchers: policy watcher, key
  poller and signals.  Startup: from the configuration to a running server.  Serving: all requests
  together, as a step relation whose steps are the unit that decides and the unit that persists, in
  any interleaving.  Bundles: versioned policy bundles, their differences and the blast radius.

  This theory composes them: what one answer over HTTP implies, from the credential to the disk.

  \<^bold>\<open>Loops and bounds.\<close>  Every function is total.  Loops over data are structural recursions; the pattern
  matcher, the path walk, UTF-8 validation, the retries of discovery and the search for a free segment
  name have termination proofs or a bound shown to be enough (a directory of n files leaves one of
  n + 1 names free).  Size limits of the code are its own constants.

  \<^bold>\<open>Concurrency.\<close>  Each handler runs its work in units that hold a lock or own their data; a unit is one
  step, and units of different requests interleave freely.

  \<^bold>\<open>Findings.\<close>  Sections at the end of several theories prove where the code departs from its comments,
  for instance that a rotation revives expired keys (AuthKeys) or that a log reopened after two
  rotations forgets its head (AuditLog).

  \<^bold>\<open>Not modelled.\<close>  Binding sockets, TLS and the HTTP and gRPC runtimes, which are packages; log lines
  and spans, which change no state; the command line tool and the telemetry sinks, which print around
  the operations modelled here; identifier wrappers, clock types and the schema listing, which only
  rename or call packages; two unused files under \<open>delegation/\<close>; generated code; and the TypeScript
  client, console, web site, deployment files, fuzz targets and examples.
\<close>

section \<open>From the request to the audit log\<close>

text \<open>Who a request with this header passes the middleware as.\<close>

definition passes_as ::
  "key_env \<Rightarrow> int \<Rightarrow> nat \<Rightarrow> bool \<Rightarrow> string option \<Rightarrow> auth_layer \<Rightarrow> authenticated_identity option \<Rightarrow> bool" where
  "passes_as K now slots joined authorization layer c \<longleftrightarrow> auth_layer_fn K now layer
    \<lparr>hr_method = ''POST'', hr_path = ''/access/v1/evaluation'', hr_authorization = authorization\<rparr> slots joined = Next c"

text \<open>
  C1: every decision the server hands out is authenticated, decided by the policies, and audited.  When
  the HTTP endpoint of a server with authentication answers with a decision, the request carried the
  secret of a live key with the authorization scope; the principal that was asked about is that key's
  subject (unless the key may act for others) and the tenant is that key's; the answer is what the
  policy engine gives for the policies of the serving snapshot, also when it comes from the cache;
  and the audit log on disk has one record more, with the principal, the tenant, the effect and the
  policies of this decision and the credential it was made with.
\<close>

theorem served_decision_sound:
  assumes "layer_keys (app_auth S) = Some keys"
    and "engine_ok (pe_engine X) linv Q" "az_reach (pe_engine X) A0 Q (ah_current (app_authorizer S))"
    and "\<forall>c q es. passes_as K now slots joined authorization (app_auth S) c \<longrightarrow> evaluation_request_for_caller (pe_debug X) uuid req c = Inr q \<longrightarrow>
      build_entities (pe_loader X) (er_entities req) = Inr es \<longrightarrow> (q, es) \<in> Q"
    and "log_env_ok LE R" "log_name_ok (lp_name p)" "lp_dir p \<noteq> []" "log_reach LE R p key t rs (app_audit S)"
    and "app_audit_kind S = SyncAudit" "pe_append X = dlog_append LE" "re_hex (le_rec LE) = ev_hex (pe_engine X)"
    and "t \<le> dlog_tick (pi_append i)" "timestamp_ok (dlog_tick (pi_append i))"
    and "\<forall>c q d. passes_as K now slots joined authorization (app_auth S) c \<longrightarrow> evaluation_request_for_caller (pe_debug X) uuid req c = Inr q \<longrightarrow>
      fst (run_pdp X i q (er_entities req) c S) = Inr d \<longrightarrow> dlog_record LE (pi_append i) d \<in> R"
    and "serve_evaluation K X now slots joined i uuid authorization req S = (ReplyDecision resp, S')"
  shows "\<exists>token k who q es eff policies reasons rec.
    bearer_token authorization = Some token \<and> verify_key K now keys token = Inr k \<and> ak_identity k = Some who \<and>
    (has_scope k ''authorize'' \<or> has_act_as_scope (ak_scopes k)) \<and>
    (has_act_as_scope (ak_scopes k) \<or> principal_entity_type (rq_principal q) = subject_type who \<and> principal_uid (rq_principal q) = subject_id who) \<and>
    rq_tenant_id q = normal_tenant (tenant_id who) \<and> build_entities (pe_loader X) (er_entities req) = Inr es \<and>
    direct (pe_engine X) (az_schema A0) (az_policies A0) q es = Inr (eff, policies, reasons) \<and> es_decision resp = (eff = Allow) \<and>
    read_all LE no_faults p (fst (app_audit S')) = Inr (rs @ [rec]) \<and>
    dr_principal rec = principal_uid (rq_principal q) \<and> dr_tenant_id rec = rq_tenant_id q \<and>
    dr_effect rec = show_effect eff \<and> dr_policies rec = policies \<and>
    dr_authenticated_actor rec = ok_of (re_actor_from_value (le_rec LE) (actor_to_value
      \<lparr>actor_subject_type = subject_type who, actor_subject_id = subject_id who, actor_tenant_id = tenant_id who,
       actor_credential_id = ak_id k, actor_can_act_as = has_act_as_scope (ak_scopes k)\<rparr>))"
proof -
  obtain caller where pass: "auth_layer_fn K now (app_auth S)
      \<lparr>hr_method = ''POST'', hr_path = ''/access/v1/evaluation'', hr_authorization = authorization\<rparr> slots joined = Next caller"
      and e: "evaluation X i uuid caller req S = (ReplyDecision resp, S')"
    using assms(15) by (auto simp: serve_evaluation_def split: middleware.splits)
  have as: "passes_as K now slots joined authorization (app_auth S) caller" using pass by (simp add: passes_as_def)
  obtain token k who where key: "bearer_token authorization = Some token" "verify_key K now keys token = Inr k" "ak_identity k = Some who"
      "has_scope k ''authorize'' \<or> has_act_as_scope (ak_scopes k)"
      and caller: "caller = Some \<lparr>ai_identity = who, ai_credential_id = ak_id k, ai_can_act_as = has_act_as_scope (ak_scopes k)\<rparr>"
    by (rule decision_route_needs_key [OF assms(1) pass]) (auto simp: route_requirements_def)
  obtain q d S1 where q: "evaluation_request_for_caller (pe_debug X) uuid req caller = Inr q"
      and run: "run_pdp X i q (er_entities req) caller S = (Inr d, S1)" and resp: "resp = response_of d" and S': "app_audit S' = app_audit S1"
    by (rule evaluation_run [OF e])
  obtain A' where "pdp_work (pe_engine X) (pe_loader X) i q (er_entities req) (authenticated_actor_of caller) (ah_current (app_authorizer S)) = (Inr d, A')"
    by (rule run_pdp_work [OF run])
  then obtain es d0 where es: "build_entities (pe_loader X) (er_entities req) = Inr es"
      and d: "d = with_actor (authenticated_actor_of caller) d0" "dn_request d0 = request_to_value (re_hex (le_rec LE)) q"
      and dir: "direct (pe_engine X) (az_schema A0) (az_policies A0) q es = Inr (dn_effect d, dn_policies d, dn_reasons d)"
    using work_decides [OF assms(2,3)] assms(4) as q unfolding assms(11) by metis
  have "dlog_fit LE R t (pi_append i) d" using assms(12-14) as q run by (metis dlog_fit_def fst_conv)
  then have "log_reach LE R p key (dlog_tick (pi_append i)) (rs @ [dlog_record LE (pi_append i) d]) (app_audit S1)"
    using dlog.run_pdp_stored [OF assms(8) _ assms(10) run] assms(9) by simp
  then have rd: "read_all LE no_faults p (fst (app_audit S')) = Inr (rs @ [dlog_record LE (pi_append i) d])"
    using log_reach_reads [OF assms(5-7)] S' by (metis surjective_pairing)
  note key es dir rd caller_binds_request [OF q [unfolded caller]] decision_record_of [OF d, of "pi_append i"]
  then show ?thesis by (intro exI [of _ token] exI [of _ k] exI [of _ who] exI [of _ q] exI [of _ es] exI [of _ "dn_effect d"]
      exI [of _ "dn_policies d"] exI [of _ "dn_reasons d"] exI [of _ "dlog_record LE (pi_append i) d"])
    (simp add: resp response_of_def caller authenticated_actor_of_def Let_def)
qed

definition demo_alice :: api_key where
  "demo_alice = demo_key\<lparr>ak_identity := Some \<lparr>subject_type = ''User'', subject_id = ''alice'', tenant_id = None\<rparr>\<rparr>"

definition demo_header :: "string option" where
  "demo_header = Some (''bearer ag:id1:'' @ hex_encode plain_hex ''secret'')"

lemma demo_token: "bearer_token demo_header = Some (''ag:id1:'' @ hex_encode plain_hex ''secret'')"
  by code_simp

lemma demo_alice_verifies: "verify_key demo_key_env now [(''id1'', demo_alice)] (''ag:id1:'' @ hex_encode plain_hex ''secret'') = Inr demo_alice"
  by (auto simp: verify_key_Inr demo_alice_def demo_key_def demo_key_env_def demo_phc_def argon2_def split_on_no_sep hex_no_colon
      plain_hex_ok [unfolded hex_codec_ok_def] ok_of_def split: sum.splits)

lemma demo_passes:
  "passes_as demo_key_env now 2 True demo_header (LayerApiKey [(''id1'', demo_alice)]) c \<longleftrightarrow> c = Some demo_identity"
proof -
  define raw where "raw = ''ag:id1:'' @ hex_encode plain_hex ''secret''"
  have w: "well_formed_token raw" unfolding raw_def by code_simp
  have "verify_key demo_key_env now [(''id1'', demo_alice)] raw = Inr demo_alice" unfolding raw_def by (rule demo_alice_verifies)
  then have "check_credential demo_key_env now [(''id1'', demo_alice)] demo_header ''authorize'' True = Inr (Some demo_identity)"
    using demo_token unfolding raw_def [symmetric]
    by (simp add: check_credential_def) (simp add: demo_alice_def demo_key_def has_scope_def has_act_as_scope_def demo_identity_def)
  then show ?thesis
    using demo_token w unfolding raw_def [symmetric]
    by (auto simp: passes_as_def auth_layer_fn_def route_requirements_def authenticate_bearer_async_def)
qed

lemma demo_engine_ok: "engine_ok (pe_engine demo_pdp) list_lru_inv {(sample_request ''alice'', ())}"
  using sample_engine_ok
  by (simp add: engine_ok_def demo_pdp_def sample_engine_def sample_cedar_def cedar_reads_content_def keys_collision_free_def question_ok_def
      entity_objects_def key_fields_def)

theorem served_decision_sound_witness:
  "\<exists>S S' resp rec. serve_evaluation demo_key_env demo_pdp 7 2 True demo_input ''id'' demo_header demo_evaluation S = (ReplyDecision resp, S') \<and>
    \<not> es_decision resp \<and> read_all sample_env no_faults sample_path (fst (app_audit S')) = Inr [rec] \<and>
    dr_principal rec = ''alice'' \<and> dr_effect rec = ''deny''"
proof -
  obtain fs log w where r: "log_reach sample_env {sample_rec} sample_path ''k'' [] [] (fs, log)"
      and "dl_rotation log = None" and run: "\<forall>auth caller. run_pdp demo_pdp demo_input (sample_request ''alice'') [] caller (demo_state auth (fs, log)) = (Inr (demo_decision caller), demo_state auth w)"
    by (rule demo_run)
  let ?layer = "LayerApiKey [(''id1'', demo_alice)]"
  let ?S = "demo_state ?layer (fs, log)"
  have i: "pi_append demo_input = (no_faults, sample_draws, ''u'', 0)" "er_entities demo_evaluation = []"
    by (simp_all add: demo_input_def demo_evaluation_def)
  have S: "app_auth ?S = ?layer" "app_audit ?S = (fs, log)" "app_audit_kind ?S = SyncAudit" "ah_current (app_authorizer ?S) = sample_authorizer"
    by (simp_all add: demo_state_def)
  have pass: "auth_layer_fn demo_key_env 7 ?layer \<lparr>hr_method = ''POST'', hr_path = ''/access/v1/evaluation'', hr_authorization = demo_header\<rparr> 2 True
      = Next (Some demo_identity)"
    using demo_passes [of 7] by (simp add: passes_as_def)
  obtain S' where e: "serve_evaluation demo_key_env demo_pdp 7 2 True demo_input ''id'' demo_header demo_evaluation ?S
      = (ReplyDecision (response_of (demo_decision (Some demo_identity))), S')"
    using run i(2) pass by (simp add: serve_evaluation_def S(1) evaluation_def demo_mapped)
  have X: "pe_append demo_pdp = dlog_append sample_env" "re_hex (le_rec sample_env) = ev_hex (pe_engine demo_pdp)"
    by (simp_all add: demo_pdp_def sample_log_env_def sample_record_env_def sample_engine_def)
  have t: "[] \<le> dlog_tick (pi_append demo_input)" "timestamp_ok (dlog_tick (pi_append demo_input))"
    using sample_draws_ok(1,2) by (simp_all add: i(1) dlog_tick_def)
  have "az_reach (pe_engine demo_pdp) sample_authorizer {(sample_request ''alice'', ())} sample_authorizer"
    by (rule az_reach.uncached) (simp add: sample_authorizer_def)
  then have az: "az_reach (pe_engine demo_pdp) sample_authorizer {(sample_request ''alice'', ())} (ah_current (app_authorizer ?S))"
    by (simp add: S(4))
  have lg: "log_reach sample_env {sample_rec} sample_path ''k'' [] [] (app_audit ?S)" using r by (simp add: S(2))
  have keys: "layer_keys (app_auth ?S) = Some [(''id1'', demo_alice)]" by (simp add: S(1))
  have Q: "\<forall>c q es. passes_as demo_key_env 7 2 True demo_header (app_auth ?S) c \<longrightarrow>
      evaluation_request_for_caller (pe_debug demo_pdp) ''id'' demo_evaluation c = Inr q \<longrightarrow>
      build_entities (pe_loader demo_pdp) (er_entities demo_evaluation) = Inr es \<longrightarrow> (q, es) \<in> {(sample_request ''alice'', ())}"
    by (auto simp: S(1) demo_passes demo_mapped)
  have R: "\<forall>c q d. passes_as demo_key_env 7 2 True demo_header (app_auth ?S) c \<longrightarrow>
      evaluation_request_for_caller (pe_debug demo_pdp) ''id'' demo_evaluation c = Inr q \<longrightarrow>
      fst (run_pdp demo_pdp demo_input q (er_entities demo_evaluation) c ?S) = Inr d \<longrightarrow> dlog_record sample_env (pi_append demo_input) d \<in> {sample_rec}"
    using run i demo_record by (auto simp: S(1) demo_passes demo_mapped)
  note sound = served_decision_sound [OF keys demo_engine_ok az Q sample_log_env_ok sample_draws_ok(4,3) lg S(3) X t R e]
  have "\<not> es_decision (response_of (demo_decision (Some demo_identity)))"
    by (simp add: response_of_def demo_decision_def with_actor_def authenticated_actor_of_def split: json.splits)
  moreover obtain token k who eff and q :: agent_request and rec :: decision_record where s: "bearer_token demo_header = Some token" "verify_key demo_key_env 7 [(''id1'', demo_alice)] token = Inr k"
      "ak_identity k = Some who" "has_act_as_scope (ak_scopes k) \<or>
        principal_entity_type (rq_principal q) = subject_type who \<and> principal_uid (rq_principal q) = subject_id who"
      "dr_principal rec = principal_uid (rq_principal q)" "dr_effect rec = show_effect eff"
      "es_decision (response_of (demo_decision (Some demo_identity))) = (eff = Allow)"
      "read_all sample_env no_faults sample_path (fst (app_audit S')) = Inr [rec]"
    using sound unfolding append_Nil by blast
  moreover have "k = demo_alice" using s(1,2) demo_token demo_alice_verifies [of 7] by simp
  then have "dr_principal rec = ''alice''" using s(3-5) by (auto simp: demo_alice_def demo_key_def has_act_as_scope_def)
  ultimately show ?thesis using e by (cases eff) auto
qed

end
